(* ===== verification/Prelude.thy ===== *)
theory Prelude
  imports "HOL-Library.Word"
begin

text \<open>
  Shared vocabulary of the development: machine integers, the byte order of the host,
  memory regions that are read with an explicit bounds check, the \<open>struct timeval\<close>
  operations of \<open>sys/time.h\<close>, and results that are either a fault or a value.

  The host is a little-endian LP64 machine: the build file compiles with
  \<open>-march=native\<close>, and \<open>time_t\<close> and \<open>suseconds_t\<close> are 64-bit signed integers. Their
  values stay far below \<open>2 ^ 63\<close>, so both are \<open>int\<close> here; every conversion to and from
  a 32-bit or narrower integer is written out.
\<close>

unbundle bit_operations_syntax

type_synonym u8 = "8 word"
type_synonym u16 = "16 word"
type_synonym u32 = "32 word"
type_synonym bytes = "u8 list"

named_theorems frame "what an operation leaves unchanged"
named_theorems wire "lengths and bytes of the wire formats"

subsection \<open>Results\<close>

text \<open>
  What may go wrong in a run: a read or a write outside an object, a second \<open>free\<close> of a
  packet, and the exit that \<open>logger(LOG_FATAL, ...)\<close> forces. The first three are undefined
  behaviour of C; the model stops there instead of guessing an effect.
\<close>

datatype fault =
    Out_Of_Bounds_Read
  | Buffer_Overflow
  | Double_Free
  | Fatal_Exit

fun bind_res :: "'e + 'a \<Rightarrow> ('a \<Rightarrow> 'e + 'b) \<Rightarrow> 'e + 'b" where
  "bind_res (Inl e) f = Inl e"
| "bind_res (Inr x) f = f x"

lemma bind_res_eq_Inr:
  "bind_res m f = Inr y \<longleftrightarrow> (\<exists>x. m = Inr x \<and> f x = Inr y)"
  by (cases m) auto

lemma bind_res_eq_Inl:
  "bind_res m f = Inl e \<longleftrightarrow> m = Inl e \<or> (\<exists>x. m = Inr x \<and> f x = Inl e)"
  by (cases m) auto

lemma bind_res_cong [fundef_cong]:
  "m = m' \<Longrightarrow> (\<And>x. m' = Inr x \<Longrightarrow> f x = f' x) \<Longrightarrow> bind_res m f = bind_res m' f'"
  by (cases m') auto

lemma bind_res_assoc: "bind_res (bind_res m f) g = bind_res m (\<lambda>x. bind_res (f x) g)"
  by (cases m) auto

fun fold_res :: "('a \<Rightarrow> 's \<Rightarrow> 'e + 's) \<Rightarrow> 'a list \<Rightarrow> 's \<Rightarrow> 'e + 's" where
  "fold_res f [] s = Inr s"
| "fold_res f (x # xs) s = bind_res (f x s) (fold_res f xs)"

lemma fold_res_append: "fold_res f (xs @ ys) s = bind_res (fold_res f xs s) (fold_res f ys)"
proof (induction xs arbitrary: s)
  case (Cons x xs)
  have "fold_res f (xs @ ys) = (\<lambda>s. bind_res (fold_res f xs s) (fold_res f ys))"
    by (rule ext) (rule Cons.IH)
  then show ?case by (simp add: bind_res_assoc)
qed simp

lemma fold_res_cong [fundef_cong]:
  "xs = ys \<Longrightarrow> s = t \<Longrightarrow> (\<And>x s. x \<in> set ys \<Longrightarrow> f x s = g x s) \<Longrightarrow> fold_res f xs s = fold_res g ys t"
proof (induction ys arbitrary: xs s t)
  case (Cons y ys)
  have "fold_res f ys = fold_res g ys"
    using Cons.IH Cons.prems(3) by (intro ext) simp
  with Cons.prems show ?case by simp
qed simp

text \<open>An invariant kept by every step is kept by the fold; a step that cannot fault
  makes a fold that cannot fault.\<close>

lemma fold_res_invariant:
  assumes "\<And>x s s'. x \<in> set xs \<Longrightarrow> P s \<Longrightarrow> f x s = Inr s' \<Longrightarrow> P s'"
    and "P s" and "fold_res f xs s = Inr s'"
  shows "P s'"
  using assms
  by (induction xs arbitrary: s) (auto simp: bind_res_eq_Inr)

lemma fold_res_total:
  assumes "\<And>x s. x \<in> set xs \<Longrightarrow> P s \<Longrightarrow> \<exists>s'. f x s = Inr s' \<and> P s'" and "P s"
  shows "\<exists>s'. fold_res f xs s = Inr s' \<and> P s'"
  using assms
proof (induction xs arbitrary: s)
  case (Cons x xs)
  then obtain t where "f x s = Inr t" "P t" by (metis list.set_intros(1))
  with Cons show ?case by simp
qed simp

subsection \<open>Integers in memory\<close>

definition bytes_of_u16 :: "u16 \<Rightarrow> bytes" where
  "bytes_of_u16 w = [ucast w, ucast (drop_bit 8 w)]"

definition bytes_of_u32 :: "u32 \<Rightarrow> bytes" where
  "bytes_of_u32 w = [ucast w, ucast (drop_bit 8 w), ucast (drop_bit 16 w), ucast (drop_bit 24 w)]"

fun word_of_bytes :: "bytes \<Rightarrow> 'a::len word" where
  "word_of_bytes [] = 0"
| "word_of_bytes (b # bs) = ucast b OR push_bit 8 (word_of_bytes bs)"

lemma word_of_bytes_u16 [simp]: "word_of_bytes (bytes_of_u16 w) = w"
  by (rule bit_word_eqI) (auto simp: bytes_of_u16_def bit_simps)

lemma word_of_bytes_u32 [simp]: "word_of_bytes (bytes_of_u32 w) = w"
proof (rule bit_word_eqI)
  fix n :: nat
  assume "n < LENGTH(32)"
  then show "bit (word_of_bytes (bytes_of_u32 w) :: u32) n \<longleftrightarrow> bit w n"
    by (cases "n < 8"; cases "n < 16"; cases "n < 24") (auto simp: bytes_of_u32_def bit_simps)
qed

lemma length_bytes_of [simp, wire]:
  "length (bytes_of_u16 w) = 2" "length (bytes_of_u32 v) = 4"
  by (simp_all add: bytes_of_u16_def bytes_of_u32_def)

lemma bit_u8_high [simp]: "8 \<le> n \<Longrightarrow> \<not> bit (a :: u8) n"
  using bit_imp_le_length [of a n] by auto

lemma bytes_of_u16_of_bytes: "length bs = 2 \<Longrightarrow> bytes_of_u16 (word_of_bytes bs) = bs"
proof -
  assume "length bs = 2"
  then obtain a b where bs: "bs = [a, b]"
    by (auto simp: numeral_eq_Suc length_Suc_conv)
  show ?thesis
    unfolding bs bytes_of_u16_def by (auto intro!: bit_word_eqI simp: bit_simps)
qed

lemma length_eq_4: "length bs = 4 \<longleftrightarrow> (\<exists>a b c d. bs = [a, b, c, d])"
  by (auto simp: numeral_eq_Suc length_Suc_conv)

lemma bytes_of_u32_of_bytes: "length bs = 4 \<Longrightarrow> bytes_of_u32 (word_of_bytes bs) = bs"
proof -
  assume "length bs = 4"
  then obtain a b c d where bs: "bs = [a, b, c, d]"
    by (auto simp: length_eq_4)
  show ?thesis
    unfolding bs bytes_of_u32_def by (auto intro!: bit_word_eqI simp: bit_simps)
qed

text \<open>\<open>htons\<close>, \<open>ntohs\<close>, \<open>htonl\<close> and \<open>ntohl\<close> swap the bytes of the host order.\<close>

definition ntohs :: "u16 \<Rightarrow> u16" where
  "ntohs w = word_of_bytes (rev (bytes_of_u16 w))"

definition ntohl :: "u32 \<Rightarrow> u32" where
  "ntohl w = word_of_bytes (rev (bytes_of_u32 w))"

abbreviation htons :: "u16 \<Rightarrow> u16" where
  "htons \<equiv> ntohs"

abbreviation htonl :: "u32 \<Rightarrow> u32" where
  "htonl \<equiv> ntohl"

lemma bytes_of_hton [wire]:
  "bytes_of_u16 (htons w) = rev (bytes_of_u16 w)"
  "bytes_of_u32 (htonl v) = rev (bytes_of_u32 v)"
  by (simp_all add: ntohs_def ntohl_def bytes_of_u16_of_bytes bytes_of_u32_of_bytes)

lemma ntoh_hton [simp]: "ntohs (htons w) = w" "ntohl (htonl v) = v"
  by (simp_all add: ntohs_def [of "ntohs w"] ntohl_def [of "ntohl v"] bytes_of_hton)

subsection \<open>Memory regions\<close>

text \<open>
  A region is the list of its bytes. \<open>mem_read buf p n\<close> is a \<open>memcpy\<close> of \<open>n\<close> bytes from
  offset \<open>p\<close>; \<open>memcpy_into old src\<close> is a \<open>memcpy\<close> of all of \<open>src\<close> to the start of an object
  whose bytes are \<open>old\<close>.
\<close>

definition mem_read :: "bytes \<Rightarrow> nat \<Rightarrow> nat \<Rightarrow> fault + bytes" where
  "mem_read buf p n =
     (if p + n \<le> length buf then Inr (take n (drop p buf)) else Inl Out_Of_Bounds_Read)"

definition memcpy_into :: "'b list \<Rightarrow> 'b list \<Rightarrow> fault + 'b list" where
  "memcpy_into old src =
     (if length src \<le> length old then Inr (src @ drop (length src) old) else Inl Buffer_Overflow)"

lemma mem_read_eq_Inr:
  "mem_read buf p n = Inr bs \<longleftrightarrow> p + n \<le> length buf \<and> bs = take n (drop p buf)"
  by (auto simp: mem_read_def)

lemma memcpy_into_eq_Inr:
  "memcpy_into old src = Inr new \<longleftrightarrow>
     length src \<le> length old \<and> new = src @ drop (length src) old"
  by (auto simp: memcpy_into_def)

lemma length_memcpy_into: "memcpy_into old src = Inr new \<Longrightarrow> length new = length old"
  by (auto simp: memcpy_into_eq_Inr)

lemma mem_read_within:
  "p + n \<le> length buf \<Longrightarrow> mem_read buf p n = Inr (take n (drop p buf))"
  by (simp add: mem_read_def)

lemma mem_read_append:
  "mem_read (pre @ bs @ post) (length pre) (length bs) = Inr bs"
  by (simp add: mem_read_def)

lemma take_drop_add:
  "take (m + n) (drop p xs) = take m (drop p xs) @ take n (drop (p + m) xs)"
  by (simp add: take_add add.commute)

lemma take_two_halves:
  assumes "take (m + n) (drop p xs) = u @ v" and "length u = m" and "length v = n"
  shows "take m (drop p xs) = u" "take n (drop (p + m) xs) = v"
proof -
  have "take m (take (m + n) (drop p xs)) = u" using assms by simp
  then show "take m (drop p xs) = u" by (simp add: min_def)
  have "drop m (take (m + n) (drop p xs)) = v" using assms by simp
  then show "take n (drop (p + m) xs) = v" by (simp add: drop_take add.commute)
qed

text \<open>The same for a \<open>uint32_t\<close> object: a short \<open>memcpy\<close> replaces its low bytes only.\<close>

definition memcpy_u32 :: "u32 \<Rightarrow> bytes \<Rightarrow> fault + u32" where
  "memcpy_u32 old src = bind_res (memcpy_into (bytes_of_u32 old) src) (\<lambda>bs. Inr (word_of_bytes bs))"

lemma memcpy_u32_full [simp]: "length src = 4 \<Longrightarrow> memcpy_u32 old src = Inr (word_of_bytes src)"
  by (simp add: memcpy_u32_def memcpy_into_def)

lemma memcpy_u32_ok_iff: "(\<exists>w. memcpy_u32 old src = Inr w) \<longleftrightarrow> length src \<le> 4"
  by (auto simp: memcpy_u32_def memcpy_into_def)

subsection \<open>\<open>struct timeval\<close>\<close>

datatype timeval = Timeval (tv_sec: int) (tv_usec: int)

instantiation timeval :: linorder
begin

definition less_eq_timeval :: "timeval \<Rightarrow> timeval \<Rightarrow> bool" where
  "less_eq_timeval a b \<longleftrightarrow>
     tv_sec a < tv_sec b \<or> (tv_sec a = tv_sec b \<and> tv_usec a \<le> tv_usec b)"

definition less_timeval :: "timeval \<Rightarrow> timeval \<Rightarrow> bool" where
  "less_timeval a b \<longleftrightarrow>
     tv_sec a < tv_sec b \<or> (tv_sec a = tv_sec b \<and> tv_usec a < tv_usec b)"

instance
  by standard (auto simp: less_eq_timeval_def less_timeval_def timeval.expand)

end

text \<open>\<open>timersub\<close> and \<open>timercmp(a, b, >=)\<close>, as the macros of \<open>sys/time.h\<close> expand.\<close>

definition timersub :: "timeval \<Rightarrow> timeval \<Rightarrow> timeval" where
  "timersub a b =
     (let sec = tv_sec a - tv_sec b; usec = tv_usec a - tv_usec b
      in if usec < 0 then Timeval (sec - 1) (usec + 1000000) else Timeval sec usec)"

definition timercmp_ge :: "timeval \<Rightarrow> timeval \<Rightarrow> bool" where
  "timercmp_ge a b =
     (if tv_sec a = tv_sec b then tv_usec a \<ge> tv_usec b else tv_sec a \<ge> tv_sec b)"

lemma timercmp_ge_iff [simp]: "timercmp_ge a b \<longleftrightarrow> b \<le> a"
  by (auto simp: timercmp_ge_def less_eq_timeval_def)

definition normalised :: "timeval \<Rightarrow> bool" where
  "normalised t \<longleftrightarrow> 0 \<le> tv_usec t \<and> tv_usec t < 1000000"

definition micros :: "timeval \<Rightarrow> int" where
  "micros t = tv_sec t * 1000000 + tv_usec t"

lemma micros_timersub: "micros (timersub a b) = micros a - micros b"
  by (simp add: micros_def timersub_def Let_def algebra_simps)

lemma normalised_timersub: "normalised a \<Longrightarrow> normalised b \<Longrightarrow> normalised (timersub a b)"
  by (auto simp: normalised_def timersub_def Let_def)

lemma timeval_le_iff_micros: "normalised a \<Longrightarrow> normalised b \<Longrightarrow> a \<le> b \<longleftrightarrow> micros a \<le> micros b"
  by (auto simp: normalised_def less_eq_timeval_def micros_def)

end
