(* ===== verification/Runtime.thy ===== *)
theory Runtime
  imports Prelude
begin

text \<open>
  The process state of \<open>openhybrid.h\<close>: the global \<open>runtime\<close> structure with its nested
  structures, the descriptors, and what the process can observe and do. The two nested
  structures \<open>runtime.lte\<close> and \<open>runtime.dsl\<close> share all members but one each, so they
  extend one record \<open>tunnel\<close>; the locale \<open>tunnel_slot\<close> is the interface through which
  code that exists once per tunnel is reasoned about once.

  A C string is the list of its characters before the terminator, an \<open>in6_addr\<close> the list
  of its 16 bytes, an \<open>in_addr\<close> the list of its 4 bytes.
\<close>

subsection \<open>Constants of \<open>grecp.h\<close>, \<open>openhybrid.h\<close> and \<open>logging.h\<close>\<close>

abbreviation (input) MAX_PKT_SIZE :: nat where "MAX_PKT_SIZE \<equiv> 1500"
abbreviation (input) GRECP_PROTO :: u16 where "GRECP_PROTO \<equiv> 0x0101"
abbreviation (input) GRECP_FLAGSANDVERSION :: u16 where "GRECP_FLAGSANDVERSION \<equiv> 0x2000"
abbreviation (input) GRECP_FLAGSANDVERSION_WITH_SEQ :: u16 where "GRECP_FLAGSANDVERSION_WITH_SEQ \<equiv> 0x3000"
abbreviation (input) GRECP_MSGTYPE_REQUEST :: u8 where "GRECP_MSGTYPE_REQUEST \<equiv> 1"
abbreviation (input) GRECP_MSGTYPE_ACCEPT :: u8 where "GRECP_MSGTYPE_ACCEPT \<equiv> 2"
abbreviation (input) GRECP_MSGTYPE_DENY :: u8 where "GRECP_MSGTYPE_DENY \<equiv> 3"
abbreviation (input) GRECP_MSGTYPE_HELLO :: u8 where "GRECP_MSGTYPE_HELLO \<equiv> 4"
abbreviation (input) GRECP_MSGTYPE_TEARDOWN :: u8 where "GRECP_MSGTYPE_TEARDOWN \<equiv> 5"
abbreviation (input) GRECP_MSGTYPE_NOTIFY :: u8 where "GRECP_MSGTYPE_NOTIFY \<equiv> 6"
abbreviation (input) GRECP_MSGATTR_H_IPV4_ADDRESS :: u8 where "GRECP_MSGATTR_H_IPV4_ADDRESS \<equiv> 1"
abbreviation (input) GRECP_MSGATTR_H_IPV6_ADDRESS :: u8 where "GRECP_MSGATTR_H_IPV6_ADDRESS \<equiv> 2"
abbreviation (input) GRECP_MSGATTR_CLIENT_IDENTIFICATION_NAME :: u8 where "GRECP_MSGATTR_CLIENT_IDENTIFICATION_NAME \<equiv> 3"
abbreviation (input) GRECP_MSGATTR_SESSION_ID :: u8 where "GRECP_MSGATTR_SESSION_ID \<equiv> 4"
abbreviation (input) GRECP_MSGATTR_TIMESTAMP :: u8 where "GRECP_MSGATTR_TIMESTAMP \<equiv> 5"
abbreviation (input) GRECP_MSGATTR_BYPASS_TRAFFIC_RATE :: u8 where "GRECP_MSGATTR_BYPASS_TRAFFIC_RATE \<equiv> 6"
abbreviation (input) GRECP_MSGATTR_DSL_SYNCHRONIZATION_RATE :: u8 where "GRECP_MSGATTR_DSL_SYNCHRONIZATION_RATE \<equiv> 7"
abbreviation (input) GRECP_MSGATTR_FILTER_LIST_PACKAGE :: u8 where "GRECP_MSGATTR_FILTER_LIST_PACKAGE \<equiv> 8"
abbreviation (input) GRECP_MSGATTR_RTT_DIFFERENCE_THRESHOLD :: u8 where "GRECP_MSGATTR_RTT_DIFFERENCE_THRESHOLD \<equiv> 9"
abbreviation (input) GRECP_MSGATTR_BYPASS_BANDWIDTH_CHECK_INTERVAL :: u8 where "GRECP_MSGATTR_BYPASS_BANDWIDTH_CHECK_INTERVAL \<equiv> 10"
abbreviation (input) GRECP_MSGATTR_SWITCHING_TO_DSL_TUNNEL :: u8 where "GRECP_MSGATTR_SWITCHING_TO_DSL_TUNNEL \<equiv> 11"
abbreviation (input) GRECP_MSGATTR_OVERFLOWING_TO_LTE_TUNNEL :: u8 where "GRECP_MSGATTR_OVERFLOWING_TO_LTE_TUNNEL \<equiv> 12"
abbreviation (input) GRECP_MSGATTR_IPV6_PREFIX_ASSIGNED_BY_HAAP :: u8 where "GRECP_MSGATTR_IPV6_PREFIX_ASSIGNED_BY_HAAP \<equiv> 13"
abbreviation (input) GRECP_MSGATTR_ACTIVE_HELLO_INTERVAL :: u8 where "GRECP_MSGATTR_ACTIVE_HELLO_INTERVAL \<equiv> 14"
abbreviation (input) GRECP_MSGATTR_HELLO_RETRY_TIMES :: u8 where "GRECP_MSGATTR_HELLO_RETRY_TIMES \<equiv> 15"
abbreviation (input) GRECP_MSGATTR_IDLE_TIMEOUT :: u8 where "GRECP_MSGATTR_IDLE_TIMEOUT \<equiv> 16"
abbreviation (input) GRECP_MSGATTR_ERROR_CODE :: u8 where "GRECP_MSGATTR_ERROR_CODE \<equiv> 17"
abbreviation (input) GRECP_MSGATTR_DSL_LINK_FAILURE :: u8 where "GRECP_MSGATTR_DSL_LINK_FAILURE \<equiv> 18"
abbreviation (input) GRECP_MSGATTR_LTE_LINK_FAILURE :: u8 where "GRECP_MSGATTR_LTE_LINK_FAILURE \<equiv> 19"
abbreviation (input) GRECP_MSGATTR_BONDING_KEY_VALUE :: u8 where "GRECP_MSGATTR_BONDING_KEY_VALUE \<equiv> 20"
abbreviation (input) GRECP_MSGATTR_IPV6_PREFIX_ASSIGNED_TO_HOST :: u8 where "GRECP_MSGATTR_IPV6_PREFIX_ASSIGNED_TO_HOST \<equiv> 21"
abbreviation (input) GRECP_MSGATTR_CONFIGURED_DSL_UPSTREAM_BANDWIDTH :: u8 where "GRECP_MSGATTR_CONFIGURED_DSL_UPSTREAM_BANDWIDTH \<equiv> 22"
abbreviation (input) GRECP_MSGATTR_CONFIGURED_DSL_DOWNSTREAM_BANDWIDTH :: u8 where "GRECP_MSGATTR_CONFIGURED_DSL_DOWNSTREAM_BANDWIDTH \<equiv> 23"
abbreviation (input) GRECP_MSGATTR_RTT_DIFFERENCE_THRESHOLD_VIOLATION :: u8 where "GRECP_MSGATTR_RTT_DIFFERENCE_THRESHOLD_VIOLATION \<equiv> 24"
abbreviation (input) GRECP_MSGATTR_RTT_DIFFERENCE_THRESHOLD_COMPLIANCE :: u8 where "GRECP_MSGATTR_RTT_DIFFERENCE_THRESHOLD_COMPLIANCE \<equiv> 25"
abbreviation (input) GRECP_MSGATTR_DIAGNOSTIC_START_BONDING_TUNNEL :: u8 where "GRECP_MSGATTR_DIAGNOSTIC_START_BONDING_TUNNEL \<equiv> 26"
abbreviation (input) GRECP_MSGATTR_DIAGNOSTIC_START_DSL_TUNNEL :: u8 where "GRECP_MSGATTR_DIAGNOSTIC_START_DSL_TUNNEL \<equiv> 27"
abbreviation (input) GRECP_MSGATTR_DIAGNOSTIC_START_LTE_TUNNEL :: u8 where "GRECP_MSGATTR_DIAGNOSTIC_START_LTE_TUNNEL \<equiv> 28"
abbreviation (input) GRECP_MSGATTR_DIAGNOSTIC_END :: u8 where "GRECP_MSGATTR_DIAGNOSTIC_END \<equiv> 29"
abbreviation (input) GRECP_MSGATTR_FILTER_LIST_PACKAGE_ACK :: u8 where "GRECP_MSGATTR_FILTER_LIST_PACKAGE_ACK \<equiv> 30"
abbreviation (input) GRECP_MSGATTR_IDLE_HELLO_INTERVAL :: u8 where "GRECP_MSGATTR_IDLE_HELLO_INTERVAL \<equiv> 31"
abbreviation (input) GRECP_MSGATTR_NO_TRAFFIC_MONITORED_INTERVAL :: u8 where "GRECP_MSGATTR_NO_TRAFFIC_MONITORED_INTERVAL \<equiv> 32"
abbreviation (input) GRECP_MSGATTR_SWITCHING_TO_ACTIVE_HELLO_STATE :: u8 where "GRECP_MSGATTR_SWITCHING_TO_ACTIVE_HELLO_STATE \<equiv> 33"
abbreviation (input) GRECP_MSGATTR_SWITCHING_TO_IDLE_HELLO_STATE :: u8 where "GRECP_MSGATTR_SWITCHING_TO_IDLE_HELLO_STATE \<equiv> 34"
abbreviation (input) GRECP_MSGATTR_TUNNEL_VERIFICATION :: u8 where "GRECP_MSGATTR_TUNNEL_VERIFICATION \<equiv> 35"
abbreviation (input) GRECP_MSGATTR_PADDING :: u8 where "GRECP_MSGATTR_PADDING \<equiv> 255"
abbreviation (input) GRECP_TUNTYPE_LTE :: u8 where "GRECP_TUNTYPE_LTE \<equiv> 0"
abbreviation (input) GRECP_TUNTYPE_DSL :: u8 where "GRECP_TUNTYPE_DSL \<equiv> 8"
abbreviation (input) LOG_NONE :: u8 where "LOG_NONE \<equiv> 0"
abbreviation (input) LOG_FATAL :: u8 where "LOG_FATAL \<equiv> 1"
abbreviation (input) LOG_ERROR :: u8 where "LOG_ERROR \<equiv> 2"
abbreviation (input) LOG_WARNING :: u8 where "LOG_WARNING \<equiv> 3"
abbreviation (input) LOG_INFO :: u8 where "LOG_INFO \<equiv> 4"
abbreviation (input) LOG_DEBUG :: u8 where "LOG_DEBUG \<equiv> 5"
abbreviation (input) LOG_CRAZYDEBUG :: u8 where "LOG_CRAZYDEBUG \<equiv> 6"

subsection \<open>The runtime structure\<close>

type_synonym in6_addr = bytes
type_synonym in_addr = bytes

definition in6addr_any :: in6_addr where
  "in6addr_any = replicate 16 0"

definition inaddr_any :: in_addr where
  "inaddr_any = replicate 4 0"

record haap =
  anycast_ip :: in6_addr
  haap_ip :: in6_addr
  session_id :: u32
  bonding_key :: u32
  active_hello_interval :: u32
  hello_retry_times :: u32
  commit_count :: u32
  bypass_bandwidth_check_interval :: u32

record dhcp4 =
  udhcpc_pid :: int
  dhcp_ip :: in_addr
  dhcp_lease_time :: u32
  dhcp_lease_obtained :: int

record dhcp6 =
  udhcpc6_pid :: int
  prefix_address :: in6_addr
  prefix_length :: u8
  dhcp6_lease_time :: u32
  dhcp6_lease_obtained :: int

record tunnel =
  interface_name :: string
  tunnel_established :: bool
  last_hello_sent :: int
  last_hello_received :: int
  missed_hellos :: u8
  interface_ip :: in6_addr
  round_trip_time :: timeval

record lte_tunnel = tunnel +
  tunnel_verification_required :: bool

record dsl_tunnel = tunnel +
  last_bypass_traffic_sent :: int

record runtime =
  haap :: haap
  bonding :: bool
  filter_list_acked :: bool
  log_level :: u8
  tunnel_interface_mtu :: u16
  tunnel_interface_created :: bool
  tunnel_interface_name :: string
  gre2tun_thread :: int
  tun2gre_thread :: int
  signal :: int
  event_script_path :: string
  reorder_buffer_timeout :: timeval
  dhcp :: dhcp4
  dhcp6 :: dhcp6
  lte :: lte_tunnel
  dsl :: dsl_tunnel

text \<open>Static storage is zeroed before \<open>main\<close> runs.\<close>

definition zero_haap :: haap where
  "zero_haap = \<lparr>anycast_ip = in6addr_any, haap_ip = in6addr_any, session_id = 0,
     bonding_key = 0, active_hello_interval = 0, hello_retry_times = 0, commit_count = 0,
     bypass_bandwidth_check_interval = 0\<rparr>"

definition zero_dhcp4 :: dhcp4 where
  "zero_dhcp4 = \<lparr>udhcpc_pid = 0, dhcp_ip = inaddr_any, dhcp_lease_time = 0,
     dhcp_lease_obtained = 0\<rparr>"

definition zero_dhcp6 :: dhcp6 where
  "zero_dhcp6 = \<lparr>udhcpc6_pid = 0, prefix_address = in6addr_any, prefix_length = 0,
     dhcp6_lease_time = 0, dhcp6_lease_obtained = 0\<rparr>"

definition zero_lte :: lte_tunnel where
  "zero_lte = \<lparr>interface_name = [], tunnel_established = False, last_hello_sent = 0,
     last_hello_received = 0, missed_hellos = 0, interface_ip = in6addr_any,
     round_trip_time = Timeval 0 0, tunnel_verification_required = False\<rparr>"

definition zero_dsl :: dsl_tunnel where
  "zero_dsl = \<lparr>interface_name = [], tunnel_established = False, last_hello_sent = 0,
     last_hello_received = 0, missed_hellos = 0, interface_ip = in6addr_any,
     round_trip_time = Timeval 0 0, last_bypass_traffic_sent = 0\<rparr>"

definition zero_runtime :: runtime where
  "zero_runtime = \<lparr>haap = zero_haap, bonding = False, filter_list_acked = False, log_level = 0,
     tunnel_interface_mtu = 0, tunnel_interface_created = False, tunnel_interface_name = [],
     gre2tun_thread = 0, tun2gre_thread = 0, signal = 0, event_script_path = [],
     reorder_buffer_timeout = Timeval 0 0, dhcp = zero_dhcp4, dhcp6 = zero_dhcp6,
     lte = zero_lte, dsl = zero_dsl\<rparr>"

subsection \<open>What the process does to its environment\<close>

text \<open>
  One constructor per kind of call with an effect outside the process. A netlink request is its type, its
  flags, the change mask and the flags of its \<open>struct ifinfomsg\<close>, and the attributes in the order in which they are put;
  an ioctl on an interface has the name and the union of its \<open>struct ifreq\<close>, as a word. Child processes are
  described by the arguments the source passes.
\<close>

datatype nlattr =
    Attr_Str u16 string
  | Attr_Data u16 bytes
  | Attr_U8 u16 u8
  | Attr_U16 u16 u16
  | Attr_U32 u16 u32
  | Attr_Nest u16 "nlattr list"

datatype effect =
    Sendmsg (eff_src: in6_addr) (eff_dst: in6_addr) (eff_msg: bytes) (eff_ok: bool)
  | Sendmsg_Gre in6_addr in6_addr bytes bool
  | Event string "string list"
  | Spawn "string list" int
  | Kill_Process int
  | Netlink u16 u16 u32 u32 "nlattr list"
  | Ioctl u32 string u32
  | Open_Gre_Socket u32
  | Make_Script string string
  | Close_Fd int
  | Create_Thread string
  | Cancel_Thread int
  | Unlink_Script string
  | Open_Grecp_Socket int
  | Close_Grecp_Socket

text \<open>
  The descriptors and the two pipes are globals of their files. \<open>tick\<close> counts the calls whose
  result comes from outside; \<open>trace\<close> is the list of effects so far, oldest first; \<open>exited\<close> holds
  the exit status once the process has called \<open>exit\<close>.
\<close>

record sys =
  rt :: runtime
  sockfd :: int
  sockfd_gre :: int
  sockfd_tun :: int
  udhcpc_pipe :: "int \<times> int"
  udhcpc6_pipe :: "int \<times> int"
  dhcp_script_path :: string
  tick :: nat
  trace :: "effect list"
  exited :: "int option"

definition init_sys :: sys where
  "init_sys = \<lparr>rt = zero_runtime, sockfd = 0, sockfd_gre = 0, sockfd_tun = 0, udhcpc_pipe = (0, 0),
     udhcpc6_pipe = (0, 0), dhcp_script_path = [], tick = 0, trace = [], exited = None\<rparr>"

text \<open>
  The environment answers every call by the number of the call: the clock in seconds and
  nanoseconds, whether a system call succeeded, the integer it returned or stored, the
  text that was read from a file, the status of a child process and what its pipe held. No answer is
  related to another one unless a theorem says so.
\<close>

record env =
  env_clock :: "nat \<Rightarrow> int \<times> int"
  env_ok :: "nat \<Rightarrow> bool"
  env_int :: "nat \<Rightarrow> int"
  env_text :: "nat \<Rightarrow> string option"
  env_status :: "nat \<Rightarrow> int"
  env_output :: "nat \<Rightarrow> string option"

definition emit :: "effect \<Rightarrow> sys \<Rightarrow> sys" where
  "emit e s = s\<lparr>trace := trace s @ [e]\<rparr>"

definition ask_ok :: "env \<Rightarrow> sys \<Rightarrow> bool \<times> sys" where
  "ask_ok w s = (env_ok w (tick s), s\<lparr>tick := Suc (tick s)\<rparr>)"

definition ask_int :: "env \<Rightarrow> sys \<Rightarrow> int \<times> sys" where
  "ask_int w s = (env_int w (tick s), s\<lparr>tick := Suc (tick s)\<rparr>)"

definition ask_text :: "env \<Rightarrow> sys \<Rightarrow> string option \<times> sys" where
  "ask_text w s = (env_text w (tick s), s\<lparr>tick := Suc (tick s)\<rparr>)"

definition ask_status :: "env \<Rightarrow> sys \<Rightarrow> int \<times> sys" where
  "ask_status w s = (env_status w (tick s), s\<lparr>tick := Suc (tick s)\<rparr>)"

definition ask_output :: "env \<Rightarrow> sys \<Rightarrow> string option \<times> sys" where
  "ask_output w s = (env_output w (tick s), s\<lparr>tick := Suc (tick s)\<rparr>)"

definition get_uptime :: "env \<Rightarrow> sys \<Rightarrow> timeval \<times> sys" where
  "get_uptime w s =
     (let (sec, nsec) = env_clock w (tick s)
      in (Timeval sec (nsec div 1000), s\<lparr>tick := Suc (tick s)\<rparr>))"

lemma get_uptime_eq:
  "get_uptime w s = (Timeval (fst (env_clock w (tick s))) (snd (env_clock w (tick s)) div 1000),
     s\<lparr>tick := Suc (tick s)\<rparr>)"
  by (simp add: get_uptime_def case_prod_beta)

abbreviation set_haap :: "(haap \<Rightarrow> haap) \<Rightarrow> sys \<Rightarrow> sys" where
  "set_haap f \<equiv> rt_update (haap_update f)"

abbreviation set_lte :: "(lte_tunnel \<Rightarrow> lte_tunnel) \<Rightarrow> sys \<Rightarrow> sys" where
  "set_lte f \<equiv> rt_update (lte_update f)"

abbreviation set_dsl :: "(dsl_tunnel \<Rightarrow> dsl_tunnel) \<Rightarrow> sys \<Rightarrow> sys" where
  "set_dsl f \<equiv> rt_update (dsl_update f)"

abbreviation set_dhcp :: "(dhcp4 \<Rightarrow> dhcp4) \<Rightarrow> sys \<Rightarrow> sys" where
  "set_dhcp f \<equiv> rt_update (dhcp_update f)"

abbreviation set_dhcp6 :: "(dhcp6 \<Rightarrow> dhcp6) \<Rightarrow> sys \<Rightarrow> sys" where
  "set_dhcp6 f \<equiv> rt_update (dhcp6_update f)"

lemma set_haap_same [simp]: "set_haap (\<lambda>_. haap (rt s)) s = s"
  by (intro sys.equality runtime.equality) simp_all

lemmas call_defs = emit_def ask_ok_def ask_int_def ask_text_def ask_status_def ask_output_def get_uptime_eq

lemma emit_simps [simp]:
  "rt (emit e s) = rt s" "trace (emit e s) = trace s @ [e]" "tick (emit e s) = tick s"
  "exited (emit e s) = exited s" "sockfd_gre (emit e s) = sockfd_gre s"
  "sockfd_tun (emit e s) = sockfd_tun s"
  by (simp_all add: emit_def)

lemma ask_simps [simp]:
  "rt (snd (ask_ok w s)) = rt s" "trace (snd (ask_ok w s)) = trace s"
  "rt (snd (ask_int w s)) = rt s" "trace (snd (ask_int w s)) = trace s"
  "rt (snd (ask_text w s)) = rt s" "trace (snd (ask_text w s)) = trace s"
  "rt (snd (ask_status w s)) = rt s" "trace (snd (ask_status w s)) = trace s"
  "rt (snd (ask_output w s)) = rt s" "trace (snd (ask_output w s)) = trace s"
  "rt (snd (get_uptime w s)) = rt s" "trace (snd (get_uptime w s)) = trace s"
  by (simp_all add: call_defs)

text \<open>An environment to evaluate examples in: time passes and every call succeeds.\<close>

definition example_env :: env where
  "example_env = \<lparr>env_clock = (\<lambda>n. (100 + int n, 5000)), env_ok = (\<lambda>_. True),
     env_int = (\<lambda>_. 7), env_text = (\<lambda>_. None), env_status = (\<lambda>_. 0), env_output = (\<lambda>_. None)\<rparr>"

subsection \<open>Well-formed states\<close>

text \<open>Every address has its size.\<close>

definition wf_runtime :: "runtime \<Rightarrow> bool" where
  "wf_runtime r \<longleftrightarrow>
     length (anycast_ip (haap r)) = 16 \<and> length (haap_ip (haap r)) = 16 \<and>
     length (dhcp_ip (dhcp r)) = 4 \<and> length (prefix_address (dhcp6 r)) = 16 \<and>
     length (interface_ip (lte r)) = 16 \<and> length (interface_ip (dsl r)) = 16"

definition wf_sys :: "sys \<Rightarrow> bool" where
  "wf_sys s \<longleftrightarrow> wf_runtime (rt s)"

lemma wf_init_sys: "wf_sys init_sys"
  by (simp add: wf_sys_def wf_runtime_def init_sys_def zero_runtime_def zero_haap_def
      zero_dhcp4_def zero_dhcp6_def zero_lte_def zero_dsl_def in6addr_any_def inaddr_any_def)

lemma wf_sysI_rt: "wf_sys s \<Longrightarrow> rt s' = rt s \<Longrightarrow> wf_sys s'"
  by (simp add: wf_sys_def)

subsection \<open>The interface of one tunnel\<close>

text \<open>
  \<open>sel\<close> reads one of the two nested structures and \<open>upd\<close> changes it in place. The laws say that
  they address the same object and that nothing else of the runtime structure changes.
\<close>

locale tunnel_slot =
  fixes sel :: "runtime \<Rightarrow> 'a tunnel_scheme"
    and upd :: "('a tunnel_scheme \<Rightarrow> 'a tunnel_scheme) \<Rightarrow> runtime \<Rightarrow> runtime"
  assumes sel_upd: "sel (upd f r) = f (sel r)"
    and upd_upd: "upd f (upd g r) = upd (\<lambda>t. f (g t)) r"
    and haap_upd: "haap (upd f r) = haap r"
    and created_upd: "tunnel_interface_created (upd f r) = tunnel_interface_created r"
    and sel_haap: "sel (haap_update h r) = sel r"

locale tunnel_pair = tunnel_slot sel upd + other: tunnel_slot sel' upd'
  for sel :: "runtime \<Rightarrow> 'a tunnel_scheme" and upd
    and sel' :: "runtime \<Rightarrow> 'b tunnel_scheme" and upd' +
  assumes independent: "sel' (upd f r) = sel' r"

interpretation lte_slot: tunnel_slot lte lte_update
  by unfold_locales simp_all

interpretation dsl_slot: tunnel_slot dsl dsl_update
  by unfold_locales simp_all

interpretation lte_dsl: tunnel_pair lte lte_update dsl dsl_update
  by unfold_locales simp_all

interpretation dsl_lte: tunnel_pair dsl dsl_update lte lte_update
  by unfold_locales simp_all

end
