(* ===== verification/Text.thy ===== *)
theory Text
  imports Runtime
begin

text \<open>
  The functions of the C library that the program calls on strings: \<open>isspace\<close>, \<open>atoi\<close>,
  \<open>strtok\<close>, the number formats of \<open>sprintf\<close> and \<open>sscanf\<close>, and the address functions
  \<open>inet_pton\<close> and \<open>inet_ntop\<close>, as glibc implements them. A C string is the list of its
  characters before the terminator.
\<close>

subsection \<open>Characters and numbers\<close>

definition isspace :: "char \<Rightarrow> bool" where
  "isspace c \<longleftrightarrow> of_char c = (32 :: nat) \<or> (9 :: nat) \<le> of_char c \<and> of_char c \<le> (13 :: nat)"

definition digit_value :: "char \<Rightarrow> nat option" where
  "digit_value c =
     (let k = of_char c in if 48 \<le> k \<and> k \<le> 57 then Some (k - 48) else None)"

definition hex_value :: "char \<Rightarrow> nat option" where
  "hex_value c =
     (let k = of_char c in
      if 48 \<le> k \<and> k \<le> 57 then Some (k - 48)
      else if 97 \<le> k \<and> k \<le> 102 then Some (k - 87)
      else if 65 \<le> k \<and> k \<le> 70 then Some (k - 55)
      else None)"

definition hex_char :: "nat \<Rightarrow> char" where
  "hex_char n = (if n < 10 then char_of (48 + n) else char_of (87 + n))"

fun dec :: "nat \<Rightarrow> string" where
  "dec n = (if n < 10 then [hex_char n] else dec (n div 10) @ [hex_char (n mod 10)])"

fun hex :: "nat \<Rightarrow> string" where
  "hex n = (if n < 16 then [hex_char n] else hex (n div 16) @ [hex_char (n mod 16)])"

declare dec.simps [simp del] hex.simps [simp del]

text \<open>The longest prefix of digits, with its value.\<close>

fun read_digits :: "(char \<Rightarrow> nat option) \<Rightarrow> nat \<Rightarrow> nat \<Rightarrow> string \<Rightarrow> nat \<times> string" where
  "read_digits val base acc [] = (acc, [])"
| "read_digits val base acc (c # cs) =
     (case val c of Some d \<Rightarrow> read_digits val base (acc * base + d) cs | None \<Rightarrow> (acc, c # cs))"

text \<open>\<open>atoi\<close> is \<open>(int) strtol(s, NULL, 10)\<close>: clamped to 64 bits, then truncated to 32.\<close>

definition atoi :: "string \<Rightarrow> int" where
  "atoi s =
     (let s = dropWhile isspace s;
          negative = (s \<noteq> [] \<and> hd s = CHR ''-'');
          s = (if s \<noteq> [] \<and> hd s \<in> {CHR ''-'', CHR ''+''} then tl s else s);
          v = int (fst (read_digits digit_value 10 0 s));
          v = (if negative then - v else v);
          v = max (- (2 ^ 63)) (min (2 ^ 63 - 1) v)
      in sint (word_of_int v :: u32))"

lemma digit_value_hex_char [simp]: "d < 10 \<Longrightarrow> digit_value (hex_char d) = Some d"
  by (simp add: digit_value_def hex_char_def)

lemma hex_value_hex_char [simp]: "d < 16 \<Longrightarrow> hex_value (hex_char d) = Some d"
  by (simp add: hex_value_def hex_char_def Let_def)

lemma read_digits_dec:
  "read_digits digit_value 10 acc (dec n @ cs) =
     read_digits digit_value 10 (acc * 10 ^ length (dec n) + n) cs"
proof (induction n arbitrary: acc cs rule: dec.induct)
  case (1 n)
  show ?case
  proof (cases "n < 10")
    case True
    then show ?thesis by (simp add: dec.simps [of n])
  next
    case False
    then have "read_digits digit_value 10 acc (dec n @ cs) =
        read_digits digit_value 10 ((acc * 10 ^ length (dec (n div 10)) + n div 10) * 10 + n mod 10) cs"
      using "1.IH" [OF False, of acc "hex_char (n mod 10) # cs"] by (simp add: dec.simps [of n])
    also have "(acc * 10 ^ length (dec (n div 10)) + n div 10) * 10 + n mod 10 =
        acc * 10 ^ length (dec n) + n"
      using False by (simp add: dec.simps [of n] algebra_simps)
    finally show ?thesis .
  qed
qed

lemma dec_nonempty [simp]: "dec n \<noteq> []"
  by (subst dec.simps) simp

lemma hex_nonempty [simp]: "hex n \<noteq> []"
  by (subst hex.simps) simp

lemma length_dec_le: "n < 10 ^ k \<Longrightarrow> 0 < k \<Longrightarrow> length (dec n) \<le> k"
proof (induction n arbitrary: k rule: dec.induct)
  case (1 n)
  show ?case
  proof (cases "n < 10")
    case True
    with "1.prems" show ?thesis by (simp add: dec.simps [of n])
  next
    case False
    obtain j where k: "k = Suc j" using "1.prems"(2) by (cases k) auto
    with "1.prems" False have "n div 10 < 10 ^ j" and "0 < j" by (cases j; auto)+
    with "1.IH" [OF False] False k show ?thesis by (simp add: dec.simps [of n])
  qed
qed

lemma length_hex_le: "n < 16 ^ k \<Longrightarrow> 0 < k \<Longrightarrow> length (hex n) \<le> k"
proof (induction n arbitrary: k rule: hex.induct)
  case (1 n)
  show ?case
  proof (cases "n < 16")
    case True
    with "1.prems" show ?thesis by (simp add: hex.simps [of n])
  next
    case False
    obtain j where k: "k = Suc j" using "1.prems"(2) by (cases k) auto
    with "1.prems" False have "n div 16 < 16 ^ j" and "0 < j" by (cases j; auto)+
    with "1.IH" [OF False] False k show ?thesis by (simp add: hex.simps [of n])
  qed
qed

lemma hex_char_not_space: "n < 16 \<Longrightarrow> \<not> isspace (hex_char n)"
  by (auto simp: isspace_def hex_char_def)

lemma hex_char_not_sign: "n < 16 \<Longrightarrow> hex_char n \<noteq> CHR ''-'' \<and> hex_char n \<noteq> CHR ''+''"
  by (auto simp: hex_char_def char_of_eq_iff take_bit_nat_eq_self)

lemma dec_head: "\<exists>d cs. dec n = hex_char d # cs \<and> d < 10"
proof (induction n rule: dec.induct)
  case (1 n)
  then show ?case by (cases "n < 10") (auto simp: dec.simps [of n])
qed

lemma atoi_dec:
  assumes "n < 2 ^ 31" and "cs = [] \<or> digit_value (hd cs) = None"
  shows "atoi (dec n @ cs) = int n"
proof -
  obtain d xs where d: "dec n = hex_char d # xs" "d < 10" using dec_head by blast
  have rest: "read_digits digit_value 10 n cs = (n, cs)"
    using assms(2) by (cases cs) auto
  have sp: "dropWhile isspace (dec n @ cs) = dec n @ cs"
    using d hex_char_not_space [of d] by simp
  have sign: "hd (dec n @ cs) \<noteq> CHR ''-''" "hd (dec n @ cs) \<noteq> CHR ''+''"
    using d hex_char_not_sign [of d] by simp_all
  have "sint (word_of_int (int n) :: u32) = int n"
    using assms(1) by (simp only: sint_sbintrunc') (simp add: signed_take_bit_int_eq_self)
  moreover have "max (- (2 ^ 63)) (min (2 ^ 63 - 1) (int n)) = int n"
    using assms(1) by simp
  ultimately show ?thesis
    unfolding atoi_def sp using sign by (simp add: Let_def read_digits_dec rest)
qed

end
