(* ===== verification/Addresses.thy ===== *)
theory Addresses
  imports Text
begin

text \<open>
  \<open>inet_pton\<close> and \<open>inet_ntop\<close> of glibc for both address families. What the rest of the program
  needs from them: parsed addresses have their size, a printed IPv4 address is parsed back,
  and printed addresses fit the arrays they are printed to.
\<close>

subsection \<open>Parsing\<close>

text \<open>\<open>done\<close> are the octets before the current one, \<open>cur\<close> the current one.\<close>

fun inet_pton4_loop :: "string \<Rightarrow> bytes \<Rightarrow> nat \<Rightarrow> bool \<Rightarrow> in_addr option" where
  "inet_pton4_loop [] octets cur saw_digit =
     (if saw_digit \<and> length octets = 3 then Some (octets @ [of_nat cur]) else None)"
| "inet_pton4_loop (c # cs) octets cur saw_digit =
     (case digit_value c of
        Some d \<Rightarrow>
          if saw_digit \<and> cur = 0 then None
          else if cur * 10 + d > 255 then None
          else if \<not> saw_digit \<and> length octets \<ge> 4 then None
          else inet_pton4_loop cs octets (cur * 10 + d) True
      | None \<Rightarrow>
          if c = CHR ''.'' \<and> saw_digit then
            (if length octets = 3 then None
             else inet_pton4_loop cs (octets @ [of_nat cur]) 0 False)
          else None)"

definition inet_pton4 :: "string \<Rightarrow> in_addr option" where
  "inet_pton4 s = inet_pton4_loop s [] 0 False"

definition two_bytes :: "nat \<Rightarrow> bytes" where
  "two_bytes v = [of_nat (v div 256), of_nat (v mod 256)]"

text \<open>The end of the IPv6 parser: the last group, and zeros in place of the double colon.\<close>

definition inet_pton6_end :: "bytes \<Rightarrow> nat option \<Rightarrow> nat \<Rightarrow> nat \<Rightarrow> in6_addr option" where
  "inet_pton6_end out colonp xdigits val =
     (let out = (if xdigits > 0 then out @ two_bytes val else out) in
      if length out > 16 then None
      else case colonp of
        None \<Rightarrow> if length out = 16 then Some out else None
      | Some k \<Rightarrow>
          if length out = 16 then None
          else Some (take k out @ replicate (16 - length out) 0 @ drop k out))"

fun inet_pton6_loop ::
  "string \<Rightarrow> string \<Rightarrow> bytes \<Rightarrow> nat option \<Rightarrow> nat \<Rightarrow> nat \<Rightarrow> in6_addr option" where
  "inet_pton6_loop [] curtok out colonp xdigits val = inet_pton6_end out colonp xdigits val"
| "inet_pton6_loop (c # cs) curtok out colonp xdigits val =
     (case hex_value c of
        Some d \<Rightarrow>
          if xdigits = 4 then None
          else inet_pton6_loop cs curtok out colonp (Suc xdigits) (val * 16 + d)
      | None \<Rightarrow>
          if c = CHR '':'' then
            (if xdigits = 0 then
               (if colonp \<noteq> None then None
                else inet_pton6_loop cs cs out (Some (length out)) 0 val)
             else if cs = [] then None
             else if length out + 2 > 16 then None
             else inet_pton6_loop cs cs (out @ two_bytes val) colonp 0 0)
          else if c = CHR ''.'' \<and> length out + 4 \<le> 16 then
            (case inet_pton4 curtok of
               Some a \<Rightarrow> inet_pton6_end (out @ a) colonp 0 0
             | None \<Rightarrow> None)
          else None)"

definition inet_pton6 :: "string \<Rightarrow> in6_addr option" where
  "inet_pton6 s =
     (case s of
        [] \<Rightarrow> None
      | c # cs \<Rightarrow>
          if c = CHR '':'' then
            (if cs \<noteq> [] \<and> hd cs = CHR '':'' then inet_pton6_loop cs cs [] None 0 0 else None)
          else inet_pton6_loop s s [] None 0 0)"

lemma inet_pton4_length: "inet_pton4 s = Some a \<Longrightarrow> length a = 4"
proof -
  have "inet_pton4_loop s octets cur b = Some a \<Longrightarrow> length a = 4" for octets cur b
    by (induction s octets cur b rule: inet_pton4_loop.induct) (auto split: option.splits if_splits)
  then show "inet_pton4 s = Some a \<Longrightarrow> length a = 4" by (simp add: inet_pton4_def)
qed

lemma inet_pton6_end_length:
  "inet_pton6_end out colonp x v = Some a \<Longrightarrow> length a = 16"
  by (auto simp: inet_pton6_end_def Let_def two_bytes_def split: option.splits if_splits)

lemma inet_pton6_length: "inet_pton6 s = Some a \<Longrightarrow> length a = 16"
proof -
  have "inet_pton6_loop s tok out colonp x v = Some a \<Longrightarrow> length a = 16" for s tok out colonp x v
    by (induction s tok out colonp x v rule: inet_pton6_loop.induct)
      (auto split: option.splits if_splits dest: inet_pton6_end_length)
  then show "inet_pton6 s = Some a \<Longrightarrow> length a = 16"
    by (auto simp: inet_pton6_def simp del: inet_pton6_loop.simps split: list.splits if_splits)
qed

subsection \<open>Printing\<close>

fun joined :: "string \<Rightarrow> string list \<Rightarrow> string" where
  "joined sep [] = []"
| "joined sep [x] = x"
| "joined sep (x # xs) = x @ sep @ joined sep xs"

definition inet_ntop4 :: "in_addr \<Rightarrow> string" where
  "inet_ntop4 a = joined ''.'' (map (\<lambda>b. dec (unat b)) a)"

definition groups_of :: "in6_addr \<Rightarrow> nat list" where
  "groups_of a = map (\<lambda>i. unat (a ! (2 * i)) * 256 + unat (a ! (2 * i + 1))) [0..<8]"

text \<open>The first longest run of zero groups, if it has at least two groups.\<close>

definition run_at :: "nat list \<Rightarrow> nat \<Rightarrow> nat" where
  "run_at ws i = length (takeWhile (\<lambda>w. w = 0) (drop i ws))"

definition best_run :: "nat list \<Rightarrow> (nat \<times> nat) option" where
  "best_run ws =
     foldl (\<lambda>best i. if run_at ws i \<ge> 2 \<and> (case best of None \<Rightarrow> True | Some (b, n) \<Rightarrow> run_at ws i > n)
                     then Some (i, run_at ws i) else best) None [0..<length ws]"

definition group_text :: "nat list \<Rightarrow> (nat \<times> nat) option \<Rightarrow> nat \<Rightarrow> string" where
  "group_text ws best i =
     (case best of
        Some (b, n) \<Rightarrow>
          if b \<le> i \<and> i < b + n then (if i = b then '':'' else [])
          else (if i \<noteq> 0 then '':'' else []) @ hex (ws ! i)
      | None \<Rightarrow> (if i \<noteq> 0 then '':'' else []) @ hex (ws ! i))"

definition inet_ntop6 :: "in6_addr \<Rightarrow> string" where
  "inet_ntop6 a =
     (let ws = groups_of a; best = best_run ws in
      if best = Some (0, 6) \<or> (best = Some (0, 5) \<and> ws ! 5 = 0xffff)
      then concat (map (group_text ws best) [0..<6]) @ '':'' @ inet_ntop4 (drop 12 a)
      else concat (map (group_text ws best) [0..<8]) @
        (case best of Some (b, n) \<Rightarrow> if b + n = 8 then '':'' else [] | None \<Rightarrow> []))"

lemma unat_u8_bound: "unat (b :: u8) < 256"
proof -
  have "unat b < 2 ^ LENGTH(8)" by (rule unsigned_less)
  then show ?thesis by simp
qed

lemma uint_u8_bound: "uint (b :: u8) < 256"
proof -
  have "uint b < 2 ^ LENGTH(8)" by (rule unsigned_less)
  then show ?thesis by simp
qed

lemma length_inet_ntop4:
  assumes "length a = 4"
  shows "length (inet_ntop4 a) \<le> 15"
proof -
  obtain w x y z where a: "a = [w, x, y, z]" using assms by (auto simp: length_eq_4)
  have "length (dec (unat b)) \<le> 3" for b :: u8
    using unat_u8_bound [of b] by (intro length_dec_le) simp_all
  from this [of w] this [of x] this [of y] this [of z] show ?thesis
    by (simp add: inet_ntop4_def a)
qed

lemma length_groups_of [simp]: "length (groups_of a) = 8"
  by (simp add: groups_of_def)

lemma groups_of_bound: "i < 8 \<Longrightarrow> groups_of a ! i < 2 ^ 16"
proof -
  assume "i < 8"
  moreover have "unat (b :: u8) * 256 + unat (c :: u8) < 2 ^ 16" for b c
    using unat_u8_bound [of b] unat_u8_bound [of c] by simp
  ultimately show ?thesis by (simp add: groups_of_def)
qed

lemma best_run_SomeD:
  assumes "best_run ws = Some (b, n)"
  shows "2 \<le> n \<and> b + n \<le> length ws"
proof -
  have "foldl (\<lambda>best i. if run_at ws i \<ge> 2 \<and> (case best of None \<Rightarrow> True | Some (b, n) \<Rightarrow> run_at ws i > n)
      then Some (i, run_at ws i) else best) best is = Some (b, n) \<Longrightarrow>
    \<forall>i \<in> set is. i < length ws \<Longrightarrow> (\<And>b n. best = Some (b, n) \<Longrightarrow> 2 \<le> n \<and> b + n \<le> length ws) \<Longrightarrow>
    2 \<le> n \<and> b + n \<le> length ws" for best "is"
  proof (induction "is" arbitrary: best)
    case (Cons i "is")
    have run: "i + run_at ws i \<le> length ws" if "i < length ws"
      using that length_takeWhile_le [of "\<lambda>w. w = 0" "drop i ws"] by (simp add: run_at_def)
    show ?case
      by (rule Cons.IH [OF Cons.prems(1) [unfolded foldl_Cons]])
        (use Cons.prems(2,3) run in \<open>auto split: if_splits\<close>)
  qed simp
  from this [OF assms [unfolded best_run_def]] show ?thesis by simp
qed

lemma length_group_text:
  assumes "ws = groups_of a" and "i < 8"
  shows "length (group_text ws best i) \<le>
    (case best of Some (b, n) \<Rightarrow> if b \<le> i \<and> i < b + n then (if i = b then 1 else 0) else 5
     | None \<Rightarrow> if i = 0 then 4 else 5)"
proof -
  have "length (hex (ws ! i)) \<le> 4"
    using groups_of_bound [OF assms(2), of a] assms(1) by (intro length_hex_le) simp_all
  then show ?thesis by (cases best) (auto simp: group_text_def)
qed

lemma short_run_sum:
  fixes f :: "nat \<Rightarrow> nat"
  assumes "\<And>i. i < 8 \<Longrightarrow> f i \<le> 5" and "f b \<le> 1" and "f c = 0" and "c = b + 1" and "b < 7"
  shows "f 0 + f 1 + f 2 + f 3 + f 4 + f 5 + f 6 + f 7 \<le> 31"
proof -
  have five: "f 0 \<le> 5" "f 1 \<le> 5" "f 2 \<le> 5" "f 3 \<le> 5" "f 4 \<le> 5" "f 5 \<le> 5" "f 6 \<le> 5" "f 7 \<le> 5"
    by (rule assms(1), simp)+
  have "b = 0 \<and> c = 1 \<or> b = 1 \<and> c = 2 \<or> b = 2 \<and> c = 3 \<or> b = 3 \<and> c = 4 \<or> b = 4 \<and> c = 5 \<or>
      b = 5 \<and> c = 6 \<or> b = 6 \<and> c = 7"
    using assms(4,5) by presburger
  then show ?thesis using assms(2,3) five by (elim disjE conjE) simp_all
qed

lemma length_inet_ntop6:
  assumes "length a = 16"
  shows "length (inet_ntop6 a) \<le> 39"
proof -
  let ?ws = "groups_of a" let ?best = "best_run ?ws"
  have g: "length (group_text ?ws ?best i) \<le>
    (case ?best of Some (b, n) \<Rightarrow> if b \<le> i \<and> i < b + n then (if i = b then 1 else 0) else 5
     | None \<Rightarrow> if i = 0 then 4 else 5)" if "i < 8" for i
    using length_group_text [OF refl that] .
  have g8: "[0..<8] = [0, 1, 2, 3, 4, 5, 6, 7 :: nat]" and g6: "[0..<6] = [0, 1, 2, 3, 4, 5 :: nat]"
    by (simp_all add: upt_rec)
  have v4: "length (inet_ntop4 (drop 12 a)) \<le> 15" using assms by (intro length_inet_ntop4) simp
  show ?thesis
  proof (cases ?best)
    case None
    then show ?thesis
      using g [of 0] g [of 1] g [of 2] g [of 3] g [of 4] g [of 5] g [of 6] g [of 7]
      by (simp add: inet_ntop6_def Let_def g8)
  next
    case (Some bn)
    then obtain b n where best: "?best = Some (b, n)" by (cases bn) simp
    then have bn: "2 \<le> n" "b + n \<le> 8" using best_run_SomeD by fastforce+
    let ?l = "\<lambda>i. length (group_text ?ws (Some (b, n)) i)"
    have l: "?l i \<le> 5" if "i < 8" for i
      using g [OF that] by (simp add: best split: if_splits)
    have lb: "?l b \<le> 1" "?l (b + 1) = 0"
      using g [of b] g [of "b + 1"] bn by (simp_all add: best)
    have sum8: "?l 0 + ?l 1 + ?l 2 + ?l 3 + ?l 4 + ?l 5 + ?l 6 + ?l 7 \<le> 31"
      using bn by (intro short_run_sum [of ?l, OF l lb refl]) auto
    have sum6: "?l 0 + ?l 1 + ?l 2 + ?l 3 + ?l 4 + ?l 5 \<le> 21" if "b = 0"
      using that lb l [of 2] l [of 3] l [of 4] l [of 5] by simp
    show ?thesis
    proof (cases "?best = Some (0, 6) \<or> (?best = Some (0, 5) \<and> ?ws ! 5 = 0xffff)")
      case True
      then have "b = 0" by (auto simp: best)
      have "inet_ntop6 a = concat (map (group_text ?ws (Some (b, n))) [0..<6]) @ '':'' @ inet_ntop4 (drop 12 a)"
        using True by (simp add: inet_ntop6_def Let_def best)
      with sum6 [OF \<open>b = 0\<close>] v4 show ?thesis by (simp add: g6)
    next
      case False
      then have "inet_ntop6 a = concat (map (group_text ?ws (Some (b, n))) [0..<8]) @
          (if b + n = 8 then '':'' else [])"
        unfolding inet_ntop6_def Let_def if_not_P [OF False] by (simp add: best)
      with sum8 show ?thesis by (simp add: g8)
    qed
  qed
qed

subsection \<open>Printed IPv4 addresses\<close>

lemma inet_pton4_loop_dec:
  assumes "n \<le> 255" and "length octets < 4"
  shows "inet_pton4_loop (dec n @ cs) octets 0 False = inet_pton4_loop cs octets n True"
  using assms(1)
proof (induction n arbitrary: cs rule: dec.induct)
  case (1 n)
  show ?case
  proof (cases "n < 10")
    case True
    with assms(2) show ?thesis by (simp add: dec.simps [of n])
  next
    case False
    then have "n div 10 \<noteq> 0" and "n div 10 \<le> 255" using "1.prems" by auto
    then show ?thesis
      using False "1.prems" "1.IH" [OF False, of "hex_char (n mod 10) # cs"] by (simp add: dec.simps [of n])
  qed
qed

lemma inet_pton4_ntop4:
  assumes "length a = 4"
  shows "inet_pton4 (inet_ntop4 a) = Some a"
proof -
  obtain w x y z where a: "a = [w, x, y, z]" using assms by (auto simp: length_eq_4)
  have le: "unat (b :: u8) \<le> 255" for b using unat_u8_bound [of b] by simp
  have dot: "digit_value CHR ''.'' = None" by (simp add: digit_value_def)
  have dec_end: "inet_pton4_loop (dec (unat (b :: u8))) octets 0 False =
      inet_pton4_loop [] octets (unat b) True" if "length octets < 4" for b octets
    using inet_pton4_loop_dec [OF le that, of b "[]"] by simp
  show ?thesis
    by (simp add: inet_pton4_def inet_ntop4_def a inet_pton4_loop_dec [OF le] dec_end dot)
qed

end
