(* ===== verification/Helpers.thy ===== *)
theory Helpers
  imports Addresses
begin

text \<open>
  \<open>helpers.c\<close>: searching an array, and the address of an interface. \<open>get_primary_ip6\<close> scans
  \<open>/proc/net/if_inet6\<close> with \<open>fscanf\<close>; the conversions of that format are modelled as glibc runs
  them, on the text that is left of the file. The last section prints the file the way the
  kernel does and shows which address is found.
\<close>

subsection \<open>Searching an array\<close>

fun isvalueinarray_from :: "nat \<Rightarrow> u8 \<Rightarrow> bytes \<Rightarrow> fault + bool" where
  "isvalueinarray_from 0 val arr = Inr False"
| "isvalueinarray_from (Suc n) val arr =
     (case arr of
        [] \<Rightarrow> Inl Out_Of_Bounds_Read
      | x # xs \<Rightarrow> if x = val then Inr True else isvalueinarray_from n val xs)"

definition isvalueinarray :: "u8 \<Rightarrow> bytes \<Rightarrow> u8 \<Rightarrow> fault + bool" where
  "isvalueinarray val arr sz = isvalueinarray_from (unat sz) val arr"

lemma isvalueinarray_from_iff:
  "isvalueinarray_from n val arr =
     (if val \<in> set (take n arr) then Inr True
      else if length arr < n then Inl Out_Of_Bounds_Read else Inr False)"
proof (induction n arbitrary: arr)
  case (Suc n)
  then show ?case by (cases arr) auto
qed simp

subsection \<open>Conversions of \<open>fscanf\<close>\<close>

text \<open>
  \<open>%x\<close> with a field width: white space is skipped, then a sign, then \<open>0\<close> or \<open>0x\<close>, then hexadecimal
  digits, all but the white space counted against the width.
\<close>

definition hex_number :: "bool \<Rightarrow> string \<Rightarrow> int" where
  "hex_number negative digits =
     (let v = int (fst (read_digits hex_value 16 0 digits))
      in if v \<ge> 2 ^ 64 then 2 ^ 64 - 1 else if negative then - v else v)"

definition scan_digits :: "bool \<Rightarrow> nat \<Rightarrow> string \<Rightarrow> (int \<times> string) option" where
  "scan_digits negative width s =
     (let zero = (width \<noteq> 0 \<and> s \<noteq> [] \<and> hd s = CHR ''0'');
          (s, width) = (if zero then (tl s, width - 1) else (s, width));
          (s, width) = (if zero \<and> width \<noteq> 0 \<and> s \<noteq> [] \<and> hd s \<in> {CHR ''x'', CHR ''X''}
                        then (tl s, width - 1) else (s, width));
          digits = takeWhile (\<lambda>c. hex_value c \<noteq> None) (take width s)
      in if \<not> zero \<and> digits = [] then None
         else Some (hex_number negative digits, drop (length digits) s))"

definition scan_hex :: "nat \<Rightarrow> string \<Rightarrow> (int \<times> string) option" where
  "scan_hex width s =
     (case dropWhile isspace s of
        [] \<Rightarrow> None
      | c # cs \<Rightarrow>
          if c \<in> {CHR ''-'', CHR ''+''} then scan_digits (c = CHR ''-'') (width - 1) cs
          else scan_digits False width (c # cs))"

definition scan_word :: "string \<Rightarrow> (string \<times> string) option" where
  "scan_word s =
     (let s = dropWhile isspace s
      in if s = [] then None
         else Some (takeWhile (\<lambda>c. \<not> isspace c) s, dropWhile (\<lambda>c. \<not> isspace c) s))"

fun scan_bytes :: "nat \<Rightarrow> string \<Rightarrow> (bytes \<times> string) option" where
  "scan_bytes 0 s = Some ([], s)"
| "scan_bytes (Suc n) s =
     (case scan_hex 2 s of
        None \<Rightarrow> None
      | Some (v, s) \<Rightarrow>
          (case scan_bytes n s of None \<Rightarrow> None | Some (bs, s) \<Rightarrow> Some (word_of_int v # bs, s)))"

text \<open>The whole format, \<open>None\<close> when fewer than 19 conversions succeed. An unbounded width is the
  length of the text.\<close>

record inet6_entry =
  this_ip :: in6_addr
  this_prefix :: int
  this_scope :: int
  this_ifname :: string

definition scan_int :: "string \<Rightarrow> (int \<times> string) option" where
  "scan_int s =
     (case scan_hex (length s) s of
        None \<Rightarrow> None
      | Some (v, s) \<Rightarrow> Some (sint (word_of_int v :: u32), s))"

definition scan_entry :: "string \<Rightarrow> (inet6_entry \<times> string) option" where
  "scan_entry s =
     (case scan_bytes 16 s of None \<Rightarrow> None | Some (ip, s) \<Rightarrow>
     (case scan_int s of None \<Rightarrow> None | Some (_, s) \<Rightarrow>
     (case scan_int s of None \<Rightarrow> None | Some (prefix, s) \<Rightarrow>
     (case scan_int s of None \<Rightarrow> None | Some (scope, s) \<Rightarrow>
     (case scan_int s of None \<Rightarrow> None | Some (_, s) \<Rightarrow>
     (case scan_word s of None \<Rightarrow> None | Some (name, s) \<Rightarrow>
       Some (\<lparr>this_ip = ip, this_prefix = prefix, this_scope = scope, this_ifname = name\<rparr>, s)))))))"

lemma scan_hex_shorter: "scan_hex width s = Some (v, s') \<Longrightarrow> length s' \<le> length s"
proof -
  have d: "length s' \<le> length t" if "scan_digits neg width t = Some (v, s')" for neg width t
    using that by (auto simp: scan_digits_def Let_def split: if_splits)
  have w: "length (dropWhile isspace s) \<le> length s" by (rule length_dropWhile_le)
  show "scan_hex width s = Some (v, s') \<Longrightarrow> length s' \<le> length s"
    using w by (auto simp: scan_hex_def split: list.splits if_splits dest!: d)
qed

lemma scan_bytes_shorter: "scan_bytes n s = Some (bs, s') \<Longrightarrow> length s' \<le> length s"
  by (induction n arbitrary: s bs) (fastforce split: option.splits dest: scan_hex_shorter)+

lemma scan_word_shorter: "scan_word s = Some (name, s') \<Longrightarrow> length s' < length s"
proof -
  assume a: "scan_word s = Some (name, s')"
  let ?t = "dropWhile isspace s"
  from a have t: "?t \<noteq> []" and s': "s' = dropWhile (\<lambda>c. \<not> isspace c) ?t"
    by (auto simp: scan_word_def Let_def split: if_splits)
  then have "\<not> isspace (hd ?t)" by (simp add: hd_dropWhile)
  with t have "s' = dropWhile (\<lambda>c. \<not> isspace c) (tl ?t)" by (cases ?t) (auto simp: s')
  then have "length s' \<le> length (tl ?t)" by (simp only: length_dropWhile_le)
  also have "\<dots> < length ?t" using t by simp
  also have "\<dots> \<le> length s" by (rule length_dropWhile_le)
  finally show ?thesis .
qed

lemma scan_entry_shorter: "scan_entry s = Some (e, s') \<Longrightarrow> length s' < length s"
  by (fastforce simp: scan_entry_def scan_int_def split: option.splits
      dest: scan_bytes_shorter scan_hex_shorter scan_word_shorter)

subsection \<open>The primary address\<close>

text \<open>
  The name is read into an array of \<open>IF_NAMESIZE\<close> bytes without a width. Of several matching lines
  the last one counts.
\<close>

function primary_loop :: "string \<Rightarrow> string \<Rightarrow> in6_addr \<Rightarrow> bool \<Rightarrow> fault + (in6_addr \<times> bool)" where
  "primary_loop ifname s ip found =
     (case scan_entry s of
        None \<Rightarrow> Inr (ip, found)
      | Some (e, s) \<Rightarrow>
          if length (this_ifname e) \<ge> 16 then Inl Buffer_Overflow
          else if ifname = this_ifname e \<and> this_scope e = 0 then primary_loop ifname s (this_ip e) True
          else primary_loop ifname s ip found)"
  by pat_completeness auto
termination
  by (relation "measure (\<lambda>(ifname, s, ip, found). length s)") (auto dest: scan_entry_shorter)

declare primary_loop.simps [simp del]

definition get_primary_ip6 :: "env \<Rightarrow> string \<Rightarrow> sys \<Rightarrow> fault + (in6_addr \<times> sys)" where
  "get_primary_ip6 w ifname s =
     (let (content, s) = ask_text w s
      in case content of
           None \<Rightarrow> Inr (in6addr_any, s)
         | Some t \<Rightarrow> bind_res (primary_loop ifname t in6addr_any False) (\<lambda>(ip, found). Inr (ip, s)))"

lemma scan_bytes_length: "scan_bytes n s = Some (bs, s') \<Longrightarrow> length bs = n"
  by (induction n arbitrary: s bs) (fastforce split: option.splits)+

lemma scan_entry_ip: "scan_entry s = Some (e, s') \<Longrightarrow> length (this_ip e) = 16"
  by (auto simp: scan_entry_def split: option.splits dest!: scan_bytes_length)

lemma primary_loop_length:
  "primary_loop ifname s ip found = Inr (ip', found') \<Longrightarrow> length ip = 16 \<Longrightarrow> length ip' = 16"
proof (induction ifname s ip found rule: primary_loop.induct)
  case (1 ifname s ip found)
  show ?case
  proof (cases "scan_entry s")
    case None
    with "1.prems" show ?thesis by (simp add: primary_loop.simps [of ifname s])
  next
    case (Some es)
    then obtain e rest where e: "scan_entry s = Some (e, rest)" by (cases es) auto
    with "1.prems" "1.IH" [OF e refl] scan_entry_ip [OF e] show ?thesis
      by (auto simp: primary_loop.simps [of ifname s] split: if_splits)
  qed
qed

lemma get_primary_ip6_frame:
  "get_primary_ip6 w ifname s = Inr (ip, s') \<Longrightarrow> rt s' = rt s \<and> length ip = 16 \<and>
     trace s' = trace s \<and> exited s' = exited s \<and> sockfd_gre s' = sockfd_gre s"
  by (auto simp: get_primary_ip6_def ask_text_def Let_def in6addr_any_def bind_res_eq_Inr
      split: option.splits dest: primary_loop_length)

subsection \<open>The file as the kernel prints it\<close>

definition hex2 :: "u8 \<Rightarrow> string" where
  "hex2 b = [hex_char (unat b div 16), hex_char (unat b mod 16)]"

record kernel_line =
  kl_addr :: in6_addr
  kl_index :: nat
  kl_prefix :: u8
  kl_scope :: u8
  kl_flags :: u8
  kl_name :: string

text \<open>The number of the interface is printed with at least two digits, by \<open>%02x\<close>.\<close>

definition index_text :: "nat \<Rightarrow> string" where
  "index_text n = (if n < 256 then hex2 (of_nat n) else hex n)"

definition kernel_text :: "kernel_line \<Rightarrow> string" where
  "kernel_text l = concat (map hex2 (kl_addr l)) @ '' '' @ index_text (kl_index l) @ '' '' @ hex2 (kl_prefix l) @
     '' '' @ hex2 (kl_scope l) @ '' '' @ hex2 (kl_flags l) @ '' '' @
     replicate (8 - length (kl_name l)) (CHR '' '') @ kl_name l @ [CHR 0x0A]"

definition kernel_line_ok :: "kernel_line \<Rightarrow> bool" where
  "kernel_line_ok l \<longleftrightarrow> length (kl_addr l) = 16 \<and> kl_name l \<noteq> [] \<and> length (kl_name l) < 16 \<and>
     list_all (\<lambda>c. \<not> isspace c) (kl_name l)"

lemma hex_char_not_x: "n < 16 \<Longrightarrow> hex_char n \<noteq> CHR ''x'' \<and> hex_char n \<noteq> CHR ''X''"
  by (auto simp: hex_char_def char_of_eq_iff take_bit_nat_eq_self)

lemma hex_char_zero_iff: "n < 16 \<Longrightarrow> hex_char n = CHR ''0'' \<longleftrightarrow> n = 0"
  by (auto simp: hex_char_def char_of_eq_iff take_bit_nat_eq_self)

lemma scan_digits_hex2:
  assumes "width = 2 \<or> (2 \<le> width \<and> rest \<noteq> [] \<and> hex_value (hd rest) = None)"
  shows "scan_digits False width (hex2 b @ rest) = Some (int (unat b), rest)"
proof -
  let ?h = "unat b div 16" and ?l = "unat b mod 16"
  have hl: "?h < 16" "?l < 16" using unat_u8_bound [of b] by auto
  have val: "?h * 16 + ?l = unat b" by simp
  obtain k where width: "width = Suc (Suc k)" using assms by (cases width; cases "width - 1") auto
  have stop: "takeWhile (\<lambda>c. hex_value c \<noteq> None) (take k rest) = []"
    using assms width by (cases rest; cases k) auto
  have zero: "hex_char 0 = CHR ''0''" using hex_char_zero_iff [of 0] by simp
  have num: "hex_number False ds = int (unat b)"
    if "fst (read_digits hex_value 16 0 ds) = unat b" for ds
    using that uint_u8_bound [of b] by (simp add: hex_number_def Let_def)
  show ?thesis
  proof (cases "?h = 0")
    case True
    then have "fst (read_digits hex_value 16 0 [hex_char ?l]) = unat b" using hl by simp
    from num [OF this] True hl hex_char_not_x [of ?l] show ?thesis
      by (simp add: scan_digits_def hex2_def Let_def width stop zero del: not_None_eq)
  next
    case False
    then have "fst (read_digits hex_value 16 0 [hex_char ?h, hex_char ?l]) = unat b" using hl val by simp
    from num [OF this] False hl show ?thesis
      by (simp add: scan_digits_def hex2_def Let_def width stop hex_char_zero_iff del: not_None_eq)
  qed
qed

lemma hex2_head: "\<exists>c cs. hex2 b = c # cs \<and> \<not> isspace c \<and> c \<noteq> CHR ''-'' \<and> c \<noteq> CHR ''+''"
proof -
  have "unat b div 16 < 16" using unat_u8_bound [of b] by auto
  then show ?thesis by (simp add: hex2_def hex_char_not_space hex_char_not_sign)
qed

lemma scan_hex_hex2:
  assumes "width = 2 \<or> (2 \<le> width \<and> rest \<noteq> [] \<and> hex_value (hd rest) = None)"
  shows "scan_hex width (hex2 b @ rest) = Some (int (unat b), rest)"
    and "scan_hex width (CHR '' '' # hex2 b @ rest) = Some (int (unat b), rest)"
proof -
  obtain c cs where h: "hex2 b = c # cs" "\<not> isspace c" "c \<noteq> CHR ''-''" "c \<noteq> CHR ''+''"
    using hex2_head by blast
  have sp: "isspace (CHR '' '')" by (simp add: isspace_def)
  show "scan_hex width (hex2 b @ rest) = Some (int (unat b), rest)"
    "scan_hex width (CHR '' '' # hex2 b @ rest) = Some (int (unat b), rest)"
    using scan_digits_hex2 [OF assms, of b] h sp by (simp_all add: scan_hex_def)
qed

lemma scan_bytes_hex2: "scan_bytes (length bs) (concat (map hex2 bs) @ rest) = Some (bs, rest)"
proof (induction bs)
  case (Cons b bs)
  have w: "word_of_int (int (unat b)) = b" by simp
  show ?case
    using scan_hex_hex2(1) [of 2 "concat (map hex2 bs) @ rest" b] Cons w by simp
qed simp

lemma scan_int_hex2: "scan_int (CHR '' '' # hex2 b @ CHR '' '' # rest) = Some (int (unat b), CHR '' '' # rest)"
proof -
  have "hex_value (CHR '' '') = None" by (simp add: hex_value_def)
  then have "scan_hex (length (CHR '' '' # hex2 b @ CHR '' '' # rest)) (CHR '' '' # hex2 b @ CHR '' '' # rest) =
      Some (int (unat b), CHR '' '' # rest)"
    by (intro scan_hex_hex2(2)) (simp add: hex2_def)
  moreover have "sint (word_of_int (int (unat b)) :: u32) = int (unat b)"
  proof -
    have "- (2 ^ 31) \<le> uint b" using unsigned_greater_eq [of b] by (rule order_trans [rotated]) simp
    moreover have "uint b < 2 ^ 31" using uint_u8_bound [of b] by simp
    ultimately have "signed_take_bit 31 (uint b) = uint b" by (rule signed_take_bit_int_eq_self)
    then show ?thesis by (simp only: sint_sbintrunc') simp
  qed
  ultimately show ?thesis by (simp add: scan_int_def)
qed

lemma hex_digit_char:
  assumes "hex_value c \<noteq> None"
  shows "\<not> isspace c" "c \<noteq> CHR ''-''" "c \<noteq> CHR ''+''" "c \<noteq> CHR ''x''" "c \<noteq> CHR ''X''"
  using assms by (auto simp: hex_value_def isspace_def Let_def split: if_splits)

lemma takeWhile_digits:
  assumes "list_all (\<lambda>c. hex_value c \<noteq> None) ds" and "length ds \<le> k"
  shows "takeWhile (\<lambda>c. hex_value c \<noteq> None) (take k (ds @ CHR '' '' # rest)) = ds"
proof -
  have "hex_value (CHR '' '') = None" by (simp add: hex_value_def)
  then have "takeWhile (\<lambda>c. hex_value c \<noteq> None) (take j (CHR '' '' # rest)) = []" for j by (cases j) simp_all
  with assms show ?thesis by (simp add: takeWhile_append2 list_all_iff del: not_None_eq)
qed

lemma scan_digits_all:
  assumes "list_all (\<lambda>c. hex_value c \<noteq> None) ds" and "ds \<noteq> []" and "length ds \<le> width"
  shows "\<exists>v. scan_digits False width (ds @ CHR '' '' # rest) = Some (v, CHR '' '' # rest)"
proof -
  obtain c cs where ds: "ds = c # cs" using assms(2) by (cases ds) auto
  obtain k where width: "width = Suc k" using assms(3) ds by (cases width) auto
  have cs: "list_all (\<lambda>c. hex_value c \<noteq> None) cs" "length cs \<le> k" using assms(1,3) by (simp_all add: ds width)
  have x: "hd (cs @ CHR '' '' # rest) \<notin> {CHR ''x'', CHR ''X''}"
    using cs(1) hex_digit_char by (cases cs) auto
  have all: "takeWhile (\<lambda>c. hex_value c \<noteq> None) (c # take k (cs @ CHR '' '' # rest)) = c # cs"
    using takeWhile_digits [OF assms(1,3), of rest] by (simp only: ds width append_Cons take_Suc_Cons)
  show ?thesis
  proof (cases "c = CHR ''0''")
    case True
    then show ?thesis
      using x takeWhile_digits [OF cs, of rest] by (simp add: scan_digits_def Let_def ds width del: not_None_eq)
  next
    case False
    then show ?thesis
      using all by (simp add: scan_digits_def Let_def ds width del: not_None_eq takeWhile.simps)
  qed
qed

lemma scan_int_digits:
  assumes "list_all (\<lambda>c. hex_value c \<noteq> None) ds" and "ds \<noteq> []"
  shows "\<exists>v. scan_int (CHR '' '' # ds @ CHR '' '' # rest) = Some (v, CHR '' '' # rest)"
proof -
  obtain c cs where ds: "ds = c # cs" using assms(2) by (cases ds) auto
  have c: "\<not> isspace c" "c \<noteq> CHR ''-''" "c \<noteq> CHR ''+''" using assms(1) hex_digit_char [of c] by (auto simp: ds)
  have "isspace (CHR '' '')" by (simp add: isspace_def)
  with c scan_digits_all [OF assms, of "length (CHR '' '' # ds @ CHR '' '' # rest)" rest]
  show ?thesis by (auto simp: scan_int_def scan_hex_def ds)
qed

lemma hex_digits: "list_all (\<lambda>c. hex_value c \<noteq> None) (hex n)"
proof (induction n rule: hex.induct)
  case (1 n)
  then show ?case by (cases "n < 16") (simp_all add: hex.simps [of n] del: not_None_eq)
qed

lemma index_text_digits: "list_all (\<lambda>c. hex_value c \<noteq> None) (index_text n)" "index_text n \<noteq> []"
proof -
  have "unat b div 16 < 16" for b :: u8 using unat_u8_bound [of b] by auto
  then show "list_all (\<lambda>c. hex_value c \<noteq> None) (index_text n)" "index_text n \<noteq> []"
    by (simp_all add: index_text_def hex_digits hex2_def del: not_None_eq)
qed

lemma scan_word_padded:
  assumes "list_all (\<lambda>c. \<not> isspace c) name" and "name \<noteq> []"
  shows "scan_word (CHR '' '' # replicate k (CHR '' '') @ name @ CHR 0x0A # rest) = Some (name, CHR 0x0A # rest)"
proof -
  have sp: "isspace (CHR '' '')" "isspace (CHR 0x0A)" by (simp_all add: isspace_def)
  obtain c cs where name: "name = c # cs" using assms(2) by (cases name) auto
  have "dropWhile isspace (CHR '' '' # replicate k (CHR '' '') @ name @ CHR 0x0A # rest) = name @ CHR 0x0A # rest"
    using sp assms(1) by (induction k) (simp_all add: name)
  moreover have "takeWhile (\<lambda>c. \<not> isspace c) (name @ CHR 0x0A # rest) = name"
    "dropWhile (\<lambda>c. \<not> isspace c) (name @ CHR 0x0A # rest) = CHR 0x0A # rest"
    using assms(1) sp by (simp_all add: takeWhile_append2 dropWhile_append2 list_all_iff)
  ultimately show ?thesis using assms(2) by (simp add: scan_word_def Let_def)
qed

lemma scan_entry_kernel:
  assumes "kernel_line_ok l"
  shows "scan_entry (kernel_text l @ rest) =
    Some (\<lparr>this_ip = kl_addr l, this_prefix = int (unat (kl_prefix l)), this_scope = int (unat (kl_scope l)),
      this_ifname = kl_name l\<rparr>, CHR 0x0A # rest)"
proof -
  let ?pad = "replicate (8 - length (kl_name l)) (CHR '' '')"
  let ?r5 = "CHR '' '' # ?pad @ kl_name l @ CHR 0x0A # rest"
  let ?r4 = "CHR '' '' # hex2 (kl_flags l) @ ?r5"
  let ?r3 = "CHR '' '' # hex2 (kl_scope l) @ ?r4"
  let ?r2 = "CHR '' '' # hex2 (kl_prefix l) @ ?r3"
  let ?r1 = "CHR '' '' # index_text (kl_index l) @ ?r2"
  have t: "kernel_text l @ rest = concat (map hex2 (kl_addr l)) @ ?r1"
    by (simp add: kernel_text_def)
  have "scan_bytes 16 (concat (map hex2 (kl_addr l)) @ ?r1) = Some (kl_addr l, ?r1)"
    using scan_bytes_hex2 [of "kl_addr l" ?r1] assms by (simp only: kernel_line_ok_def)
  moreover obtain v where "scan_int ?r1 = Some (v, ?r2)" using scan_int_digits [OF index_text_digits] by blast
  moreover have "scan_int ?r2 = Some (int (unat (kl_prefix l)), ?r3)"
    "scan_int ?r3 = Some (int (unat (kl_scope l)), ?r4)" "scan_int ?r4 = Some (int (unat (kl_flags l)), ?r5)"
    by (rule scan_int_hex2)+
  moreover have "scan_word ?r5 = Some (kl_name l, CHR 0x0A # rest)"
    using assms by (intro scan_word_padded) (simp_all add: kernel_line_ok_def)
  ultimately show ?thesis unfolding t scan_entry_def by simp
qed

lemma scan_entry_newline: "scan_entry (CHR 0x0A # cs) = scan_entry cs"
proof -
  have "isspace (CHR 0x0A)" by (simp add: isspace_def)
  then have "scan_hex 2 (CHR 0x0A # cs) = scan_hex 2 cs" by (simp add: scan_hex_def)
  then have "scan_bytes 16 (CHR 0x0A # cs) = scan_bytes 16 cs"
    by (simp add: numeral_eq_Suc)
  then show ?thesis by (simp add: scan_entry_def)
qed

lemma scan_entry_Nil: "scan_entry [] = None"
  by (simp add: scan_entry_def scan_hex_def numeral_eq_Suc)

text \<open>The last line of the interface with global scope.\<close>

definition global_address :: "string \<Rightarrow> kernel_line list \<Rightarrow> in6_addr" where
  "global_address ifname ls =
     (case filter (\<lambda>l. kl_name l = ifname \<and> kl_scope l = 0) ls of
        [] \<Rightarrow> in6addr_any | xs \<Rightarrow> kl_addr (last xs))"

lemma primary_loop_newline: "primary_loop ifname (CHR 0x0A # cs) ip found = primary_loop ifname cs ip found"
  by (simp add: primary_loop.simps [of ifname "CHR 0x0A # cs"] primary_loop.simps [of ifname cs]
      scan_entry_newline)

lemma primary_loop_kernel:
  assumes "\<forall>l \<in> set ls. kernel_line_ok l"
  shows "primary_loop ifname (concat (map kernel_text ls)) ip found =
    Inr (case filter (\<lambda>l. kl_name l = ifname \<and> kl_scope l = 0) ls of
        [] \<Rightarrow> (ip, found) | xs \<Rightarrow> (kl_addr (last xs), True))"
  using assms
proof (induction ls arbitrary: ip found)
  case Nil
  then show ?case by (simp add: primary_loop.simps scan_entry_Nil)
next
  case (Cons l ls)
  have ok: "kernel_line_ok l" using Cons.prems by simp
  then have len: "length (kl_name l) < 16" by (simp add: kernel_line_ok_def)
  have step: "primary_loop ifname (concat (map kernel_text (l # ls))) ip found =
      (if ifname = kl_name l \<and> kl_scope l = 0 then primary_loop ifname (concat (map kernel_text ls)) (kl_addr l) True
       else primary_loop ifname (concat (map kernel_text ls)) ip found)"
    using len by (subst primary_loop.simps)
      (simp add: scan_entry_kernel [OF ok] primary_loop_newline unsigned_eq_0_iff)
  show ?case
    unfolding step using Cons.IH Cons.prems by (auto split: list.split)
qed

text \<open>One reading of the file: it could not be opened, or the kernel printed a table.\<close>

definition table_answer :: "kernel_line list \<Rightarrow> string option \<Rightarrow> bool" where
  "table_answer ls t \<longleftrightarrow> t = None \<or> t = Some (concat (map kernel_text ls))"

definition printed_table :: "string option \<Rightarrow> bool" where
  "printed_table t \<longleftrightarrow> (\<exists>ls. (\<forall>l \<in> set ls. kernel_line_ok l) \<and> table_answer ls t)"

lemma printed_table_None [simp]: "printed_table None"
  unfolding printed_table_def table_answer_def by (intro exI [of _ "[]"]) simp

lemma get_primary_ip6_total:
  assumes "printed_table (env_text w (tick s))"
  shows "\<exists>ip. get_primary_ip6 w ifname s = Inr (ip, s\<lparr>tick := Suc (tick s)\<rparr>)"
proof -
  obtain ls where "\<forall>l \<in> set ls. kernel_line_ok l" and "table_answer ls (env_text w (tick s))"
    using assms by (auto simp: printed_table_def)
  then show ?thesis
    by (auto simp: table_answer_def get_primary_ip6_def ask_text_def primary_loop_kernel split: list.split)
qed

text \<open>C30: On the interface table of the kernel \<open>get_primary_ip6\<close> finds the address of the last line that
  has the name and global scope, and the unspecified address if there is none.\<close>

theorem primary_address_is_found:
  assumes "\<forall>l \<in> set ls. kernel_line_ok l" and "env_text w (tick s) = Some (concat (map kernel_text ls))"
  shows "get_primary_ip6 w ifname s = Inr (global_address ifname ls, s\<lparr>tick := Suc (tick s)\<rparr>)"
  using assms(2) by (simp add: get_primary_ip6_def ask_text_def primary_loop_kernel [OF assms(1)]
      global_address_def split: list.split)

definition kernel_example :: "kernel_line list" where
  "kernel_example =
     [\<lparr>kl_addr = [254, 128] @ replicate 13 0 @ [1], kl_index = 2, kl_prefix = 64, kl_scope = 32,
        kl_flags = 128, kl_name = ''wwan0''\<rparr>,
      \<lparr>kl_addr = [32, 3] @ replicate 13 0 @ [9], kl_index = 2, kl_prefix = 64, kl_scope = 0,
        kl_flags = 0, kl_name = ''wwan0''\<rparr>]"

theorem primary_address_is_found_witness:
  "get_primary_ip6 (example_env\<lparr>env_text := \<lambda>_. Some (concat (map kernel_text kernel_example))\<rparr>) ''wwan0'' init_sys =
    Inr ([32, 3] @ replicate 13 0 @ [9], init_sys\<lparr>tick := 1\<rparr>)"
proof -
  have "\<forall>l \<in> set kernel_example. kernel_line_ok l"
    by (simp add: kernel_example_def kernel_line_ok_def isspace_def)
  moreover have "global_address ''wwan0'' kernel_example = [32, 3] @ replicate 13 0 @ [9]"
    by (simp add: global_address_def kernel_example_def)
  ultimately show ?thesis
    using primary_address_is_found [of kernel_example
      "example_env\<lparr>env_text := \<lambda>_. Some (concat (map kernel_text kernel_example))\<rparr>" init_sys "''wwan0''"]
    by (simp add: init_sys_def)
qed

end
