(* ===== verification/Event.thy ===== *)
theory Event
  imports Addresses
begin

text \<open>
  \<open>trigger_event\<close> of \<open>event.c\<close>: a child process runs the event script with a description of the
  runtime structure in its environment. The environment strings are printed into arrays of
  \<open>MAX_ENV_VAR_LENGTH\<close> bytes; \<open>event_environment_lengths\<close> shows that they fit.
\<close>

abbreviation (input) MAX_ENV_VARS :: nat where "MAX_ENV_VARS \<equiv> 16"
abbreviation (input) MAX_ENV_VAR_LENGTH :: nat where "MAX_ENV_VAR_LENGTH \<equiv> 64"
abbreviation (input) IF_NAMESIZE :: nat where "IF_NAMESIZE \<equiv> 16"

definition event_environment :: "runtime \<Rightarrow> string list" where
  "event_environment r =
     [''lte_interface_name='' @ interface_name (lte r)] @
     (if bonding r then [''dsl_interface_name='' @ interface_name (dsl r)] else []) @
     [''tunnel_interface_name='' @ tunnel_interface_name r,
      ''tunnel_interface_mtu='' @ dec (unat (tunnel_interface_mtu r)),
      ''dhcp_ip='' @ inet_ntop4 (dhcp_ip (dhcp r)),
      ''dhcp_lease_time='' @ dec (unat (dhcp_lease_time (dhcp r))),
      ''dhcp6_prefix_address='' @ inet_ntop6 (prefix_address (dhcp6 r)),
      ''dhcp6_prefix_length='' @ dec (unat (prefix_length (dhcp6 r))),
      ''dhcp6_lease_time='' @ dec (unat (dhcp6_lease_time (dhcp6 r)))]"

text \<open>
  The script runs in a grandchild; the parent waits for the child, which exits at once. Nothing
  of the state changes. The answer of the environment is whether \<open>fork\<close> succeeded.
\<close>

definition trigger_event :: "env \<Rightarrow> string \<Rightarrow> sys \<Rightarrow> sys" where
  "trigger_event w name s =
     (if event_script_path (rt s) = [] then s
      else let (forked, s) = ask_ok w s
           in if forked then emit (Event name (event_environment (rt s))) s else s)"

lemma trigger_event_frame [simp, frame]:
  "rt (trigger_event w name s) = rt s" "exited (trigger_event w name s) = exited s"
  "sockfd_gre (trigger_event w name s) = sockfd_gre s" "sockfd_tun (trigger_event w name s) = sockfd_tun s"
  by (simp_all add: trigger_event_def ask_ok_def)

text \<open>Interface names of \<open>IF_NAMESIZE - 1\<close> characters at most, as the configuration makes them.\<close>

definition names_fit :: "runtime \<Rightarrow> bool" where
  "names_fit r \<longleftrightarrow> length (interface_name (lte r)) < IF_NAMESIZE \<and>
     length (interface_name (dsl r)) < IF_NAMESIZE \<and> length (tunnel_interface_name r) < IF_NAMESIZE"

lemma length_dec_word:
  "length (dec (unat (x :: u32))) \<le> 10" "length (dec (unat (y :: u16))) \<le> 5" "length (dec (unat (z :: u8))) \<le> 3"
proof -
  have "unat x < 2 ^ LENGTH(32)" "unat y < 2 ^ LENGTH(16)" "unat z < 2 ^ LENGTH(8)"
    by (rule unsigned_less)+
  then show "length (dec (unat x)) \<le> 10" "length (dec (unat y)) \<le> 5" "length (dec (unat z)) \<le> 3"
    by (simp_all add: length_dec_le)
qed

lemma event_environment_lengths:
  assumes "wf_runtime r" and "names_fit r" and "v \<in> set (event_environment r)"
  shows "length v < MAX_ENV_VAR_LENGTH"
proof -
  have ip: "length (inet_ntop4 (dhcp_ip (dhcp r))) \<le> 15"
    and ip6: "length (inet_ntop6 (prefix_address (dhcp6 r))) \<le> 39"
    using assms(1) by (simp_all add: wf_runtime_def length_inet_ntop4 length_inet_ntop6)
  have num: "length (dec (unat (tunnel_interface_mtu r))) \<le> 5"
    "length (dec (unat (dhcp_lease_time (dhcp r)))) \<le> 10"
    "length (dec (unat (prefix_length (dhcp6 r)))) \<le> 3"
    "length (dec (unat (dhcp6_lease_time (dhcp6 r)))) \<le> 10"
    by (rule length_dec_word)+
  show ?thesis
    using assms(2,3) ip ip6 num by (auto simp: event_environment_def names_fit_def split: if_splits)
qed

text \<open>No environment string that an event prints overflows its array of 64 bytes, and the terminating
  \<open>NULL\<close> still fits the array of 16 pointers.\<close>

theorem event_environment_fits:
  assumes "wf_sys s" and "names_fit (rt s)"
  shows "length (event_environment (rt s)) + 1 \<le> MAX_ENV_VARS \<and>
    list_all (\<lambda>v. length v + 1 \<le> MAX_ENV_VAR_LENGTH) (event_environment (rt s))"
  using event_environment_lengths [of "rt s"] assms
  by (auto simp: wf_sys_def list_all_iff Suc_le_eq) (simp add: event_environment_def)

definition event_example :: sys where
  "event_example = rt_update (\<lambda>r. r\<lparr>bonding := True, tunnel_interface_name := ''tun0''\<rparr>) init_sys"

theorem event_environment_fits_witness:
  "length (event_environment (rt event_example)) + 1 \<le> MAX_ENV_VARS \<and>
   list_all (\<lambda>v. length v + 1 \<le> MAX_ENV_VAR_LENGTH) (event_environment (rt event_example))"
proof (rule event_environment_fits)
  show "wf_sys event_example"
    using wf_init_sys by (simp add: event_example_def wf_sys_def wf_runtime_def)
  show "names_fit (rt event_example)"
    by (simp add: event_example_def names_fit_def init_sys_def zero_runtime_def zero_lte_def zero_dsl_def)
qed

end
