(* ===== verification/Dhcp.thy ===== *)
theory Dhcp
  imports Event
begin

text \<open>
  \<open>dhcp.c\<close>: the script that udhcpc runs, starting and killing the two clients, and what is read
  from their pipes. A pipe is read once, when its client has exited.
\<close>

subsection \<open>The script\<close>

definition quoted :: "string \<Rightarrow> string" where
  "quoted s = [CHR 0x22] @ s @ [CHR 0x22]"

definition DHCP_SCRIPT_CONTENT :: string where
  "DHCP_SCRIPT_CONTENT = joined [CHR 0x0A]
     [''#!/bin/busybox sh'',
      ''if [ '' @ quoted ''${1}'' @ '' = '' @ quoted ''bound'' @ '' ]'',
      ''then'',
      ''    if [ -n '' @ quoted ''${ip}'' @ '' ]'',
      ''    then'',
      ''        echo '' @ quoted ''ip=${ip}'',
      ''        echo '' @ quoted ''lease=${lease}'',
      ''    elif [ -n '' @ quoted ''${ipv6prefix}'' @ '' ]'',
      ''    then'',
      ''        echo '' @ quoted (''prefix_address=${ipv6prefix//'' @ [CHR 0x5C] @ ''/*/}''),
      ''        echo '' @ quoted (''prefix_length=${ipv6prefix//*'' @ [CHR 0x5C] @ ''//}''),
      ''        echo '' @ quoted ''lease=${ipv6prefix_lease}'',
      ''    fi'',
      ''fi'']"

text \<open>\<open>mkstemp\<close> returns a descriptor and writes the name it chose into the template.\<close>

definition create_dhcp_script :: "env \<Rightarrow> sys \<Rightarrow> bool \<times> sys" where
  "create_dhcp_script w s =
     (let s = s\<lparr>dhcp_script_path := ''/tmp/openhybrid.XXXXXX''\<rparr>;
          (fd, s) = ask_int w s
      in if fd > 0 then
           (let (path, s) = ask_text w s;
                s = (case path of Some p \<Rightarrow> s\<lparr>dhcp_script_path := p\<rparr> | None \<Rightarrow> s);
                (written, s) = ask_int w s;
                s = emit (Close_Fd fd) (emit (Make_Script (dhcp_script_path s) DHCP_SCRIPT_CONTENT) s)
            in (written = int (length DHCP_SCRIPT_CONTENT), s))
         else (False, s))"

definition delete_dhcp_script :: "env \<Rightarrow> sys \<Rightarrow> bool \<times> sys" where
  "delete_dhcp_script w s =
     (let (ok, s) = ask_ok w s in (ok, emit (Unlink_Script (dhcp_script_path s)) s))"

subsection \<open>Starting the clients\<close>

text \<open>
  These are the calls of the parent: in it \<open>fork\<close> returns the process identifier or \<open>-1\<close>. The
  child execs the arguments of \<open>Spawn\<close> with both output streams in the pipe.
\<close>

definition open_pipe :: "env \<Rightarrow> sys \<Rightarrow> (int \<times> int) \<times> sys" where
  "open_pipe w s = (let (r, s) = ask_int w s; (x, s) = ask_int w s in ((r, x), s))"

definition verbose_flag :: "runtime \<Rightarrow> string list" where
  "verbose_flag r = (if log_level r \<ge> LOG_CRAZYDEBUG then [''-v''] else [])"

definition start_udhcpc :: "env \<Rightarrow> sys \<Rightarrow> int \<times> sys" where
  "start_udhcpc w s =
     (let (ok, s) = ask_ok w s in
      if \<not> ok then (0, s)
      else let (p, s) = open_pipe w s;
               s = s\<lparr>udhcpc_pipe := p\<rparr>;
               (pid, s) = ask_int w s
           in if pid = - 1 then (0, s)
              else (pid, emit (Close_Fd (snd (udhcpc_pipe s)))
                (emit (Spawn ([''/bin/busybox'', ''udhcpc'', ''-i'', tunnel_interface_name (rt s),
                   ''-s'', dhcp_script_path s, ''-n'', ''-q'', ''-f''] @ verbose_flag (rt s)) pid) s)))"

definition start_udhcpc6 :: "env \<Rightarrow> sys \<Rightarrow> int \<times> sys" where
  "start_udhcpc6 w s =
     (let (ok, s) = ask_ok w s in
      if \<not> ok then (0, s)
      else let (p, s) = open_pipe w s;
               s = s\<lparr>udhcpc6_pipe := p\<rparr>;
               (pid, s) = ask_int w s
           in if pid = - 1 then (0, s)
              else (pid, emit (Close_Fd (snd (udhcpc6_pipe s)))
                (emit (Spawn ([''/bin/busybox'', ''udhcpc6'', ''-i'', tunnel_interface_name (rt s),
                   ''-s'', dhcp_script_path s, ''-f'', ''-n'', ''-q'', ''-r'', ''no'', ''-d''] @
                   verbose_flag (rt s)) pid) s)))"

subsection \<open>Their output\<close>

text \<open>\<open>strtok(buffer, "\n")\<close>: the non-empty lines of the string.\<close>

fun strtok_lines :: "string \<Rightarrow> string \<Rightarrow> string list" where
  "strtok_lines line [] = (if line = [] then [] else [line])"
| "strtok_lines line (c # cs) =
     (if c = CHR 0x0A then (if line = [] then strtok_lines [] cs else line # strtok_lines [] cs)
      else strtok_lines (line @ [c]) cs)"

text \<open>At most 1023 bytes are read into a zeroed array; a failed read leaves the zeros.\<close>

abbreviation (input) MAX_UDHCPC_OUTPUT :: nat where "MAX_UDHCPC_OUTPUT \<equiv> 1024"

definition udhcpc_buffer :: "string option \<Rightarrow> string" where
  "udhcpc_buffer out =
     (case out of None \<Rightarrow> [] | Some t \<Rightarrow> takeWhile (\<lambda>c. c \<noteq> CHR 0x00) (take (MAX_UDHCPC_OUTPUT - 1) t))"

definition udhcpc_line :: "string \<Rightarrow> dhcp4 \<Rightarrow> dhcp4" where
  "udhcpc_line line d =
     (if take 3 line = ''ip='' then
        (case inet_pton4 (drop 3 line) of Some a \<Rightarrow> d\<lparr>dhcp_ip := a\<rparr> | None \<Rightarrow> d)
      else if take 6 line = ''lease='' then d\<lparr>dhcp_lease_time := word_of_int (atoi (drop 6 line))\<rparr>
      else d)"

definition process_udhcpc_output :: "env \<Rightarrow> sys \<Rightarrow> sys" where
  "process_udhcpc_output w s =
     (let (out, s) = ask_output w s;
          s = (if out = Some [] then s
               else let s = set_dhcp (fold udhcpc_line (strtok_lines [] (udhcpc_buffer out))) s
                    in if dhcp_lease_time (dhcp (rt s)) \<noteq> 0
                       then let (t, s) = get_uptime w s
                            in trigger_event w ''dhcpup_ip''
                                 (set_dhcp (dhcp_lease_obtained_update (\<lambda>_. tv_sec t)) s)
                       else s)
      in emit (Close_Fd (fst (udhcpc_pipe s))) s)"

definition udhcpc6_line :: "string \<Rightarrow> dhcp6 \<Rightarrow> dhcp6" where
  "udhcpc6_line line d =
     (if take 15 line = ''prefix_address='' then
        (case inet_pton6 (drop 15 line) of Some a \<Rightarrow> d\<lparr>prefix_address := a\<rparr> | None \<Rightarrow> d)
      else if take 14 line = ''prefix_length='' then
        d\<lparr>prefix_length := word_of_int (atoi (drop 14 line))\<rparr>
      else if take 6 line = ''lease='' then d\<lparr>dhcp6_lease_time := word_of_int (atoi (drop 6 line))\<rparr>
      else d)"

definition process_udhcpc6_output :: "env \<Rightarrow> sys \<Rightarrow> sys" where
  "process_udhcpc6_output w s =
     (let (out, s) = ask_output w s;
          s = (if out = Some [] then s
               else let s = set_dhcp6 (fold udhcpc6_line (strtok_lines [] (udhcpc_buffer out))) s
                    in if dhcp6_lease_time (dhcp6 (rt s)) \<noteq> 0
                       then let (t, s) = get_uptime w s
                            in trigger_event w ''dhcpup_ip6''
                                 (set_dhcp6 (dhcp6_lease_obtained_update (\<lambda>_. tv_sec t)) s)
                       else s)
      in emit (Close_Fd (fst (udhcpc6_pipe s))) s)"

subsection \<open>Killing the clients\<close>

definition kill_udhcpc :: "env \<Rightarrow> sys \<Rightarrow> bool \<times> sys" where
  "kill_udhcpc w s =
     (if udhcpc_pid (dhcp (rt s)) \<noteq> 0
      then let (ok, s) = ask_ok w s in (ok, emit (Kill_Process (udhcpc_pid (dhcp (rt s)))) s)
      else (True, s))"

text \<open>The source tests and kills \<open>runtime.dhcp.udhcpc_pid\<close> here, too.\<close>

definition kill_udhcpc6 :: "env \<Rightarrow> sys \<Rightarrow> bool \<times> sys" where
  "kill_udhcpc6 w s =
     (if udhcpc_pid (dhcp (rt s)) \<noteq> 0
      then let (ok, s) = ask_ok w s in (ok, emit (Kill_Process (udhcpc_pid (dhcp (rt s)))) s)
      else (True, s))"

subsection \<open>What the clients report\<close>

definition one_line :: "string \<Rightarrow> bool" where
  "one_line t \<longleftrightarrow> CHR 0x0A \<notin> set t \<and> CHR 0x00 \<notin> set t"

lemma strtok_lines_append:
  "CHR 0x0A \<notin> set t \<Longrightarrow> line @ t \<noteq> [] \<Longrightarrow>
     strtok_lines line (t @ CHR 0x0A # cs) = (line @ t) # strtok_lines [] cs"
  by (induction t arbitrary: line) auto

lemma strtok_lines_concat:
  "\<forall>t \<in> set ts. one_line t \<and> t \<noteq> [] \<Longrightarrow> strtok_lines [] (concat (map (\<lambda>t. t @ [CHR 0x0A]) ts)) = ts"
  by (induction ts) (simp_all add: strtok_lines_append one_line_def)

lemma udhcpc_buffer_lines:
  assumes "\<forall>t \<in> set ts. one_line t" and "length (concat (map (\<lambda>t. t @ [CHR 0x0A]) ts)) \<le> 1023"
  shows "udhcpc_buffer (Some (concat (map (\<lambda>t. t @ [CHR 0x0A]) ts))) = concat (map (\<lambda>t. t @ [CHR 0x0A]) ts)"
proof -
  have "takeWhile (\<lambda>c. c \<noteq> CHR 0x00) (concat (map (\<lambda>t. t @ [CHR 0x0A]) ts)) =
      concat (map (\<lambda>t. t @ [CHR 0x0A]) ts)"
    using assms(1) by (auto simp: takeWhile_eq_all_conv one_line_def)
  with assms(2) show ?thesis by (simp add: udhcpc_buffer_def)
qed

lemma one_line_hex_char: "n < 16 \<Longrightarrow> hex_char n \<noteq> CHR 0x0A \<and> hex_char n \<noteq> CHR 0x00"
  by (auto simp: hex_char_def char_of_eq_iff take_bit_nat_eq_self)

lemma one_line_dec: "one_line (dec n)"
proof (induction n rule: dec.induct)
  case (1 n)
  show ?case
  proof (cases "n < 10")
    case True
    with one_line_hex_char [of n] show ?thesis by (auto simp: dec.simps [of n] one_line_def)
  next
    case False
    have "n mod 10 < 16" by (rule less_trans [of _ 10]) simp_all
    with one_line_hex_char [of "n mod 10"] False 1 show ?thesis
      by (auto simp: dec.simps [of n] one_line_def)
  qed
qed

lemma one_line_inet_ntop4: "length a = 4 \<Longrightarrow> one_line (inet_ntop4 a)"
proof -
  assume "length a = 4"
  then obtain w x y z where a: "a = [w, x, y, z]" by (auto simp: length_eq_4)
  show ?thesis
    using one_line_dec [of "unat w"] one_line_dec [of "unat x"] one_line_dec [of "unat y"] one_line_dec [of "unat z"]
    by (simp add: a inet_ntop4_def one_line_def)
qed

text \<open>The text that the script prints for a bound lease.\<close>

definition lease_report :: "in_addr \<Rightarrow> nat \<Rightarrow> string" where
  "lease_report a n = concat (map (\<lambda>t. t @ [CHR 0x0A]) [''ip='' @ inet_ntop4 a, ''lease='' @ dec n])"

definition prefix_report :: "string \<Rightarrow> nat \<Rightarrow> nat \<Rightarrow> string" where
  "prefix_report prefix len n = concat (map (\<lambda>t. t @ [CHR 0x0A])
     [''prefix_address='' @ prefix, ''prefix_length='' @ dec len, ''lease='' @ dec n])"

lemma atoi_dec_end: "n < 2 ^ 31 \<Longrightarrow> atoi (dec n) = int n"
  using atoi_dec [of n "[]"] by simp

lemma lines_of_lease_report:
  assumes "length a = 4" and "n < 2 ^ 31"
  shows "strtok_lines [] (udhcpc_buffer (Some (lease_report a n))) = [''ip='' @ inet_ntop4 a, ''lease='' @ dec n]"
proof -
  let ?ts = "[''ip='' @ inet_ntop4 a, ''lease='' @ dec n]"
  have "length (inet_ntop4 a) \<le> 15" "length (dec n) \<le> 10"
    using assms by (simp_all add: length_inet_ntop4 length_dec_le)
  moreover have ok: "\<forall>t \<in> set ?ts. one_line t \<and> t \<noteq> []"
    using one_line_inet_ntop4 [OF assms(1)] one_line_dec [of n] by (simp add: one_line_def)
  ultimately have "udhcpc_buffer (Some (lease_report a n)) = lease_report a n"
    unfolding lease_report_def by (intro udhcpc_buffer_lines) auto
  then show ?thesis unfolding lease_report_def by (simp only: strtok_lines_concat [OF ok])
qed

lemma lines_of_prefix_report:
  assumes "one_line p" and "length p \<le> 100" and "l < 2 ^ 8" and "n < 2 ^ 31"
  shows "strtok_lines [] (udhcpc_buffer (Some (prefix_report p l n))) =
    [''prefix_address='' @ p, ''prefix_length='' @ dec l, ''lease='' @ dec n]"
proof -
  let ?ts = "[''prefix_address='' @ p, ''prefix_length='' @ dec l, ''lease='' @ dec n]"
  have "length (dec l) \<le> 3" "length (dec n) \<le> 10"
    using assms by (simp_all add: length_dec_le)
  moreover have ok: "\<forall>t \<in> set ?ts. one_line t \<and> t \<noteq> []"
    using assms(1) one_line_dec [of l] one_line_dec [of n] by (simp add: one_line_def)
  ultimately have "udhcpc_buffer (Some (prefix_report p l n)) = prefix_report p l n"
    using assms(2) unfolding prefix_report_def by (intro udhcpc_buffer_lines) auto
  then show ?thesis unfolding prefix_report_def by (simp only: strtok_lines_concat [OF ok])
qed

text \<open>C31: The address and the lease that the DHCP script prints are the address and the lease that end up
  in the runtime structure, with the current time as the start of the lease.\<close>

theorem lease_report_is_taken:
  assumes "length a = 4" and "0 < n" and "n < 2 ^ 31" and "env_output w (tick s) = Some (lease_report a n)"
  shows "dhcp (rt (process_udhcpc_output w s)) =
    (dhcp (rt s))\<lparr>dhcp_ip := a, dhcp_lease_time := of_nat n,
       dhcp_lease_obtained := fst (env_clock w (Suc (tick s)))\<rparr>"
proof -
  have ne: "lease_report a n \<noteq> []" by (simp add: lease_report_def)
  define ls where "ls = [''ip='' @ inet_ntop4 a, ''lease='' @ dec n]"
  have f: "fold udhcpc_line ls d = d\<lparr>dhcp_ip := a, dhcp_lease_time := of_nat n\<rparr>" for d
    using assms by (simp add: ls_def udhcpc_line_def inet_pton4_ntop4 atoi_dec_end)
  have nz: "(of_nat n :: u32) \<noteq> 0"
    using assms(2,3) by (simp add: word_unat_eq_iff unat_of_nat)
  show ?thesis
    using assms(4) ne nz
    by (simp add: process_udhcpc_output_def ask_output_def get_uptime_eq Let_def
        lines_of_lease_report [OF assms(1,3), folded ls_def] f)
qed

theorem lease_report_is_taken_witness:
  "dhcp (rt (process_udhcpc_output (example_env\<lparr>env_output := \<lambda>_. Some (lease_report [100, 64, 0, 9] 3600)\<rparr>) init_sys)) =
    (dhcp (rt init_sys))\<lparr>dhcp_ip := [100, 64, 0, 9], dhcp_lease_time := of_nat 3600, dhcp_lease_obtained := 101\<rparr>"
  using lease_report_is_taken [of "[100, 64, 0, 9]" 3600
      "example_env\<lparr>env_output := \<lambda>_. Some (lease_report [100, 64, 0, 9] 3600)\<rparr>" init_sys]
  by (simp add: example_env_def init_sys_def)

text \<open>C32: The same for DHCPv6: prefix, prefix length and lease are taken as printed, for every prefix
  text that \<open>inet_pton\<close> accepts.\<close>

theorem prefix_report_is_taken:
  assumes "one_line p" and "length p \<le> 100" and "inet_pton6 p = Some a" and "l < 2 ^ 8"
    and "0 < n" and "n < 2 ^ 31" and "env_output w (tick s) = Some (prefix_report p l n)"
  shows "dhcp6 (rt (process_udhcpc6_output w s)) =
    (dhcp6 (rt s))\<lparr>prefix_address := a, prefix_length := of_nat l, dhcp6_lease_time := of_nat n,
       dhcp6_lease_obtained := fst (env_clock w (Suc (tick s)))\<rparr>"
proof -
  have ne: "prefix_report p l n \<noteq> []" by (simp add: prefix_report_def)
  define ls where "ls = [''prefix_address='' @ p, ''prefix_length='' @ dec l, ''lease='' @ dec n]"
  have f: "fold udhcpc6_line ls d =
      d\<lparr>prefix_address := a, prefix_length := of_nat l, dhcp6_lease_time := of_nat n\<rparr>" for d
    using assms by (simp add: ls_def udhcpc6_line_def atoi_dec_end)
  have nz: "(of_nat n :: u32) \<noteq> 0"
    using assms(5,6) by (simp add: word_unat_eq_iff unat_of_nat)
  show ?thesis
    using assms(7) ne nz
    by (simp add: process_udhcpc6_output_def ask_output_def get_uptime_eq Let_def
        lines_of_prefix_report [OF assms(1,2,4,6), folded ls_def] f)
qed

theorem prefix_report_is_taken_witness:
  "dhcp6 (rt (process_udhcpc6_output (example_env\<lparr>env_output := \<lambda>_. Some (prefix_report ''2003:6::'' 56 1800)\<rparr>) init_sys)) =
    (dhcp6 (rt init_sys))\<lparr>prefix_address := [32, 3, 0, 6, 0, 0, 0, 0, 0, 0, 0, 0, 0, 0, 0, 0],
       prefix_length := 56, dhcp6_lease_time := 1800, dhcp6_lease_obtained := 101\<rparr>"
proof -
  have "inet_pton6 ''2003:6::'' = Some [32, 3, 0, 6, 0, 0, 0, 0, 0, 0, 0, 0, 0, 0, 0, 0]"
    by code_simp
  then show ?thesis
    using prefix_report_is_taken [of "''2003:6::''" "[32, 3, 0, 6, 0, 0, 0, 0, 0, 0, 0, 0, 0, 0, 0, 0]" 56 1800
      "example_env\<lparr>env_output := \<lambda>_. Some (prefix_report ''2003:6::'' 56 1800)\<rparr>" init_sys]
    by (simp add: example_env_def init_sys_def one_line_def)
qed

subsection \<open>What the operations leave alone\<close>

lemma udhcpc_lines_length: "length (dhcp_ip d) = 4 \<Longrightarrow> length (dhcp_ip (fold udhcpc_line ls d)) = 4"
  by (induction ls arbitrary: d) (auto simp: udhcpc_line_def inet_pton4_length split: option.split)

lemma udhcpc6_lines_length:
  "length (prefix_address d) = 16 \<Longrightarrow> length (prefix_address (fold udhcpc6_line ls d)) = 16"
  by (induction ls arbitrary: d) (auto simp: udhcpc6_line_def inet_pton6_length split: option.split)

lemma process_udhcpc_output_frame:
  "\<exists>d. rt (process_udhcpc_output w s) = dhcp_update (\<lambda>_. d) (rt s) \<and>
    (length (dhcp_ip (dhcp (rt s))) = 4 \<longrightarrow> length (dhcp_ip d) = 4)"
proof (cases "env_output w (tick s) = Some []")
  case True
  then show ?thesis
    by (intro exI [of _ "dhcp (rt s)"]) (simp add: process_udhcpc_output_def ask_output_def Let_def)
next
  case False
  define d where "d = fold udhcpc_line (strtok_lines [] (udhcpc_buffer (env_output w (tick s)))) (dhcp (rt s))"
  have len: "length (dhcp_ip (dhcp (rt s))) = 4 \<longrightarrow> length (dhcp_ip d) = 4"
    by (simp add: d_def udhcpc_lines_length)
  show ?thesis
  proof (cases "dhcp_lease_time d = 0")
    case True
    with False len show ?thesis
      by (intro exI [of _ d]) (simp add: process_udhcpc_output_def ask_output_def Let_def d_def)
  next
    case nz: False
    with False len show ?thesis
      by (intro exI [of _ "d\<lparr>dhcp_lease_obtained := fst (env_clock w (Suc (tick s)))\<rparr>"])
        (simp add: process_udhcpc_output_def ask_output_def get_uptime_eq Let_def d_def)
  qed
qed

lemma process_udhcpc6_output_frame:
  "\<exists>d. rt (process_udhcpc6_output w s) = dhcp6_update (\<lambda>_. d) (rt s) \<and>
    (length (prefix_address (dhcp6 (rt s))) = 16 \<longrightarrow> length (prefix_address d) = 16)"
proof (cases "env_output w (tick s) = Some []")
  case True
  then show ?thesis
    by (intro exI [of _ "dhcp6 (rt s)"]) (simp add: process_udhcpc6_output_def ask_output_def Let_def)
next
  case False
  define d where "d = fold udhcpc6_line (strtok_lines [] (udhcpc_buffer (env_output w (tick s)))) (dhcp6 (rt s))"
  have len: "length (prefix_address (dhcp6 (rt s))) = 16 \<longrightarrow> length (prefix_address d) = 16"
    by (simp add: d_def udhcpc6_lines_length)
  show ?thesis
  proof (cases "dhcp6_lease_time d = 0")
    case True
    with False len show ?thesis
      by (intro exI [of _ d]) (simp add: process_udhcpc6_output_def ask_output_def Let_def d_def)
  next
    case nz: False
    with False len show ?thesis
      by (intro exI [of _ "d\<lparr>dhcp6_lease_obtained := fst (env_clock w (Suc (tick s)))\<rparr>"])
        (simp add: process_udhcpc6_output_def ask_output_def get_uptime_eq Let_def d_def)
  qed
qed

lemma start_udhcpc_rt [simp, frame]:
  "rt (snd (start_udhcpc w s)) = rt s" "rt (snd (start_udhcpc6 w s)) = rt s"
  by (simp_all add: start_udhcpc_def start_udhcpc6_def open_pipe_def ask_ok_def ask_int_def Let_def)

lemma kill_udhcpc_rt [simp, frame]:
  "rt (snd (kill_udhcpc w s)) = rt s" "rt (snd (kill_udhcpc6 w s)) = rt s"
  by (simp_all add: kill_udhcpc_def kill_udhcpc6_def ask_ok_def Let_def)

lemma dhcp_script_rt [simp, frame]:
  "rt (snd (create_dhcp_script w s)) = rt s" "rt (snd (delete_dhcp_script w s)) = rt s"
  by (simp_all add: create_dhcp_script_def delete_dhcp_script_def ask_ok_def ask_int_def ask_text_def Let_def
      split: option.split)

text \<open>Killing the DHCPv6 client looks at the process identifier of the DHCPv4 client: without one
  it reports success and leaves a running DHCPv6 client alone, with one it kills the wrong
  process.\<close>

theorem kill_udhcpc6_kills_the_other_client:
  "(udhcpc_pid (dhcp (rt s)) = 0 \<longrightarrow> kill_udhcpc6 w s = (True, s)) \<and>
   (udhcpc_pid (dhcp (rt s)) \<noteq> 0 \<longrightarrow>
     trace (snd (kill_udhcpc6 w s)) = trace s @ [Kill_Process (udhcpc_pid (dhcp (rt s)))])"
  by (simp add: kill_udhcpc6_def ask_ok_def Let_def)

theorem kill_udhcpc6_kills_the_other_client_witness:
  "kill_udhcpc6 example_env (set_dhcp6 (udhcpc6_pid_update (\<lambda>_. 4711)) init_sys) =
     (True, set_dhcp6 (udhcpc6_pid_update (\<lambda>_. 4711)) init_sys)"
  using kill_udhcpc6_kills_the_other_client [of "set_dhcp6 (udhcpc6_pid_update (\<lambda>_. 4711)) init_sys" example_env]
  by (simp add: init_sys_def zero_runtime_def zero_dhcp4_def)

end
