(* ===== verification/Attributes.thy ===== *)
theory Attributes
  imports Runtime
begin

text \<open>
  The attribute codec of \<open>grecp.c\<close>: reading one attribute from a receive buffer, appending
  one to a send buffer, and the loop over a message's attributes that every message handler
  contains. The loop is proved equal to a fold over the list of attributes that the buffer
  holds; appending and reading are inverse to each other.
\<close>

subsection \<open>Reading and appending one attribute\<close>

text \<open>
  \<open>attr_value\<close> is the pointer into the receive buffer, as an offset. \<open>None\<close> is the return
  value 0; a returned attribute stands for the return value \<open>attr_bytes a\<close>.
\<close>

record grecpattr =
  attr_id :: u8
  attr_length :: u16
  attr_value :: nat

definition attr_bytes :: "grecpattr \<Rightarrow> nat" where
  "attr_bytes a = 1 + 2 + unat (attr_length a)"

definition read_grecpattribute :: "bytes \<Rightarrow> nat \<Rightarrow> int \<Rightarrow> fault + grecpattr option" where
  "read_grecpattribute buf p sz =
     (if sz \<le> 0 then Inr None
      else if sz < 1 + 2 then Inr None
      else
        bind_res (mem_read buf p 1) (\<lambda>idb.
        bind_res (mem_read buf (p + 1) 2) (\<lambda>lenb.
          let a = \<lparr>attr_id = word_of_bytes idb, attr_length = ntohs (word_of_bytes lenb),
                   attr_value = p + 1 + 2\<rparr>
          in if nat sz - 1 - 2 < unat (attr_length a) then Inr None else Inr (Some a))))"

definition append_grecpattribute :: "bytes \<Rightarrow> u8 \<Rightarrow> u16 \<Rightarrow> bytes \<Rightarrow> bytes" where
  "append_grecpattribute buf aid len value =
     buf @ [aid] @ bytes_of_u16 (htons len) @ take (unat len) value"

text \<open>The bytes \<open>attr->value[0 .. attr->length)\<close>.\<close>

definition attr_payload :: "bytes \<Rightarrow> grecpattr \<Rightarrow> bytes" where
  "attr_payload buf a = take (unat (attr_length a)) (drop (attr_value a) buf)"

lemma length_append_grecpattribute [wire]:
  "length value = unat len \<Longrightarrow>
     length (append_grecpattribute buf aid len value) = length buf + 3 + unat len"
  by (simp add: append_grecpattribute_def)

lemma read_grecpattribute_SomeD:
  assumes "read_grecpattribute buf p sz = Inr (Some a)"
  shows "attr_bytes a \<le> nat sz" "attr_value a = p + 3" "p + 3 \<le> length buf"
    "attr_id a = word_of_bytes (take 1 (drop p buf))"
    "attr_length a = ntohs (word_of_bytes (take 2 (drop (p + 1) buf)))"
  using assms
  by (auto simp: read_grecpattribute_def attr_bytes_def bind_res_eq_Inr mem_read_eq_Inr Let_def
      split: if_splits)

lemma attr_bytes_pos [simp]: "0 < attr_bytes a"
  by (simp add: attr_bytes_def)

lemma read_bytes_decrease:
  "attr_bytes a \<le> nat sz \<Longrightarrow> 0 < sz \<and> nat (sz - int (attr_bytes a)) < nat sz"
  using attr_bytes_pos [of a] by linarith

text \<open>Inside the received bytes a read never leaves the buffer.\<close>

lemma read_grecpattribute_no_fault:
  assumes "int p + sz \<le> int (length buf)"
  shows "\<exists>r. read_grecpattribute buf p sz = Inr r"
  using assms
  by (auto simp: read_grecpattribute_def Let_def mem_read_within)

lemma read_payload_within:
  assumes "read_grecpattribute buf p sz = Inr (Some a)" and "int p + sz \<le> int (length buf)"
  shows "attr_value a + unat (attr_length a) \<le> length buf"
proof -
  have "attr_value a + unat (attr_length a) = p + attr_bytes a"
    using read_grecpattribute_SomeD(2) [OF assms(1)] by (simp add: attr_bytes_def)
  moreover have "attr_bytes a \<le> nat sz" by (rule read_grecpattribute_SomeD(1) [OF assms(1)])
  ultimately show ?thesis using assms(2) attr_bytes_pos [of a] by linarith
qed

lemma length_attr_payload:
  assumes "attr_value a + unat (attr_length a) \<le> length buf"
  shows "length (attr_payload buf a) = unat (attr_length a)"
  using assms by (simp add: attr_payload_def)

subsection \<open>The attribute loop of the message handlers\<close>

text \<open>
  \<^verbatim>\<open>while ((bytes_read = read_grecpattribute(buffer += bytes_read, size -= bytes_read, &attr)) > 0)\<close>
  with the body \<open>h\<close>. Every turn consumes at least the three header bytes.
\<close>

function attr_loop ::
  "(bytes \<Rightarrow> grecpattr \<Rightarrow> 's \<Rightarrow> fault + 's) \<Rightarrow> bytes \<Rightarrow> nat \<Rightarrow> int \<Rightarrow> 's \<Rightarrow> fault + 's" where
  "attr_loop h buf p sz s =
     (case read_grecpattribute buf p sz of
        Inl f \<Rightarrow> Inl f
      | Inr None \<Rightarrow> Inr s
      | Inr (Some a) \<Rightarrow>
          bind_res (h buf a s)
            (attr_loop h buf (p + attr_bytes a) (sz - int (attr_bytes a))))"
  by pat_completeness auto
termination
  by (relation "measure (\<lambda>(h, buf, p, sz, s). nat sz)")
    (auto dest!: read_grecpattribute_SomeD(1) dest: read_bytes_decrease)

declare attr_loop.simps [simp del]

function parse_attrs :: "bytes \<Rightarrow> nat \<Rightarrow> int \<Rightarrow> grecpattr list" where
  "parse_attrs buf p sz =
     (case read_grecpattribute buf p sz of
        Inr (Some a) \<Rightarrow> a # parse_attrs buf (p + attr_bytes a) (sz - int (attr_bytes a))
      | _ \<Rightarrow> [])"
  by pat_completeness auto
termination
  by (relation "measure (\<lambda>(buf, p, sz). nat sz)")
    (auto dest!: read_grecpattribute_SomeD(1) dest: read_bytes_decrease)

declare parse_attrs.simps [simp del]

lemma parse_attrs_nonpos [simp]: "sz \<le> 0 \<Longrightarrow> parse_attrs buf p sz = []"
  by (subst parse_attrs.simps) (simp add: read_grecpattribute_def)

lemma attr_loop_nonpos [simp]: "sz \<le> 0 \<Longrightarrow> attr_loop h buf p sz s = Inr s"
  by (subst attr_loop.simps) (simp add: read_grecpattribute_def)

text \<open>The loop of a handler is the fold of its body over the parsed attributes.\<close>

lemma attr_loop_eq_fold:
  assumes "int p + sz \<le> int (length buf)"
  shows "attr_loop h buf p sz s = fold_res (h buf) (parse_attrs buf p sz) s"
  using assms
proof (induction buf p sz arbitrary: s rule: parse_attrs.induct)
  case (1 buf p sz)
  from "1.prems" obtain r where r: "read_grecpattribute buf p sz = Inr r"
    using read_grecpattribute_no_fault by blast
  show ?case
  proof (cases r)
    case None
    with r show ?thesis by (simp add: attr_loop.simps [of h buf p] parse_attrs.simps [of buf p])
  next
    case (Some a)
    let ?loop = "attr_loop h buf (p + attr_bytes a) (sz - int (attr_bytes a))"
    let ?rest = "parse_attrs buf (p + attr_bytes a) (sz - int (attr_bytes a))"
    have "?loop t = fold_res (h buf) ?rest t" for t
      using "1.IH" [OF r Some] "1.prems" by simp
    then have "?loop = fold_res (h buf) ?rest" by (rule ext)
    with r Some show ?thesis
      by (simp add: attr_loop.simps [of h buf p] parse_attrs.simps [of buf p])
  qed
qed

lemma parse_attrs_within:
  "a \<in> set (parse_attrs buf p sz) \<Longrightarrow>
     p + 3 \<le> attr_value a \<and> attr_value a + unat (attr_length a) \<le> p + nat sz"
proof (induction buf p sz rule: parse_attrs.induct)
  case (1 buf p sz)
  from "1.prems" obtain b where b: "read_grecpattribute buf p sz = Inr (Some b)"
    and a: "a = b \<or> a \<in> set (parse_attrs buf (p + attr_bytes b) (sz - int (attr_bytes b)))"
    by (force simp: parse_attrs.simps [of buf p sz] split: sum.splits option.splits)
  have len: "attr_bytes b \<le> nat sz" and val: "attr_value b + unat (attr_length b) = p + attr_bytes b"
    using read_grecpattribute_SomeD(1,2) [OF b] by (auto simp: attr_bytes_def)
  from a show ?case
  proof
    assume "a = b"
    with len val read_grecpattribute_SomeD(2) [OF b] show ?thesis by simp
  next
    assume "a \<in> set (parse_attrs buf (p + attr_bytes b) (sz - int (attr_bytes b)))"
    then have "p + attr_bytes b + 3 \<le> attr_value a \<and>
        attr_value a + unat (attr_length a) \<le> p + attr_bytes b + nat (sz - int (attr_bytes b))"
      by (rule "1.IH" [OF b refl])
    with len show ?thesis by linarith
  qed
qed

subsection \<open>Round trips\<close>

text \<open>The wire form of an attribute with value \<open>v\<close>, and the view of a parsed attribute.\<close>

definition encode_attr :: "u8 \<times> bytes \<Rightarrow> bytes" where
  "encode_attr x = append_grecpattribute [] (fst x) (of_nat (length (snd x))) (snd x)"

definition attr_view :: "bytes \<Rightarrow> grecpattr \<Rightarrow> u8 \<times> bytes" where
  "attr_view buf a = (attr_id a, attr_payload buf a)"

lemma unat_of_nat_u16: "n < 2 ^ 16 \<Longrightarrow> unat (of_nat n :: u16) = n"
  by (simp add: unat_of_nat)

lemma append_grecpattribute_eq:
  "append_grecpattribute buf aid len value = buf @ append_grecpattribute [] aid len value"
  by (simp add: append_grecpattribute_def)

lemma append_is_encode:
  assumes "length value = unat len"
  shows "append_grecpattribute buf aid len value = buf @ encode_attr (aid, value)"
  using assms
  by (simp add: encode_attr_def append_grecpattribute_eq [of buf])

lemma length_encode_attr [wire]: "length (snd x) < 2 ^ 16 \<Longrightarrow> length (encode_attr x) = 3 + length (snd x)"
  by (simp add: encode_attr_def append_grecpattribute_def unat_of_nat_u16)

lemma encode_attr_bytes:
  "length v < 2 ^ 16 \<Longrightarrow>
     encode_attr (i, v) = [i] @ bytes_of_u16 (htons (of_nat (length v))) @ v"
  by (simp add: encode_attr_def append_grecpattribute_def unat_of_nat_u16)

lemma word_of_byte [simp]: "(word_of_bytes [b] :: u8) = b"
  by simp

lemma read_encoded:
  assumes v: "length v < 2 ^ 16" and sz: "int (length (encode_attr (i, v))) \<le> sz"
  shows "read_grecpattribute (pre @ encode_attr (i, v) @ post) (length pre) sz =
    Inr (Some \<lparr>attr_id = i, attr_length = of_nat (length v), attr_value = length pre + 3\<rparr>)"
proof -
  let ?buf = "pre @ encode_attr (i, v) @ post"
  have len: "length (encode_attr (i, v)) = 3 + length v" using v by (simp add: length_encode_attr)
  have "mem_read ?buf (length pre) 1 = Inr [i]"
    and "mem_read ?buf (length pre + 1) 2 = Inr (bytes_of_u16 (htons (of_nat (length v))))"
    using v by (simp_all add: mem_read_def encode_attr_bytes)
  then show ?thesis
    using sz v by (auto simp: read_grecpattribute_def len unat_of_nat_u16 Let_def)
qed

lemma parse_attrs_encoded:
  assumes "\<And>x. x \<in> set xs \<Longrightarrow> length (snd x) < 2 ^ 16"
  shows "map (attr_view (pre @ concat (map encode_attr xs) @ post))
      (parse_attrs (pre @ concat (map encode_attr xs) @ post) (length pre)
        (int (length (concat (map encode_attr xs))))) = xs"
  using assms
proof (induction xs arbitrary: pre)
  case Nil
  then show ?case by simp
next
  case (Cons x xs)
  obtain i v where x: "x = (i, v)" by (cases x)
  let ?rest = "concat (map encode_attr xs)"
  let ?buf = "pre @ encode_attr (i, v) @ ?rest @ post"
  let ?a = "\<lparr>attr_id = i, attr_length = of_nat (length v), attr_value = length pre + 3\<rparr>"
  have v: "length v < 2 ^ 16" using Cons.prems [of x] by (simp add: x)
  have len: "length (encode_attr (i, v)) = attr_bytes ?a"
    using v by (simp add: length_encode_attr attr_bytes_def unat_of_nat_u16)
  have "read_grecpattribute ?buf (length pre) (int (length (encode_attr (i, v)) + length ?rest)) =
      Inr (Some ?a)"
    using read_encoded [OF v, of i "int (length (encode_attr (i, v)) + length ?rest)" pre "?rest @ post"]
    by simp
  then have "parse_attrs ?buf (length pre) (int (length (encode_attr (i, v)) + length ?rest)) =
      ?a # parse_attrs ?buf (length (pre @ encode_attr (i, v))) (int (length ?rest))"
    by (subst parse_attrs.simps) (simp add: len)
  moreover have "attr_view ?buf ?a = (i, v)"
    using v by (simp add: attr_view_def attr_payload_def encode_attr_bytes unat_of_nat_u16)
  moreover have "map (attr_view ?buf)
      (parse_attrs ?buf (length (pre @ encode_attr (i, v))) (int (length ?rest))) = xs"
    using Cons.IH [of "pre @ encode_attr (i, v)"] Cons.prems by simp
  ultimately show ?case by (simp add: x)
qed

text \<open>Conversely, what was parsed is exactly a prefix of the bytes that were offered.\<close>

lemma encode_view:
  assumes "read_grecpattribute buf p sz = Inr (Some a)" and "int p + sz \<le> int (length buf)"
  shows "encode_attr (attr_view buf a) = take (attr_bytes a) (drop p buf)"
proof -
  note r = read_grecpattribute_SomeD [OF assms(1)]
  let ?l = "unat (attr_length a)"
  have len: "length (attr_payload buf a) = ?l"
    using read_payload_within [OF assms] by (rule length_attr_payload)
  have hdr: "take 3 (drop p buf) = [attr_id a] @ bytes_of_u16 (htons (attr_length a))"
  proof -
    have "take (1 + 2) (drop p buf) = take 1 (drop p buf) @ take 2 (drop (p + 1) buf)"
      by (rule take_drop_add)
    moreover have "take 1 (drop p buf) = [attr_id a]"
      using r(3,4) by (cases "drop p buf") auto
    moreover have "take 2 (drop (p + 1) buf) = bytes_of_u16 (htons (attr_length a))"
      using r(3,5) by (simp add: bytes_of_u16_of_bytes)
    ultimately show ?thesis by (simp add: numeral_3_eq_3)
  qed
  have "take (3 + ?l) (drop p buf) = take 3 (drop p buf) @ attr_payload buf a"
    by (simp only: attr_payload_def r(2) take_drop_add)
  moreover have "attr_bytes a = 3 + ?l" by (simp add: attr_bytes_def)
  ultimately show ?thesis
    using hdr len by (simp only: attr_view_def encode_attr_def append_grecpattribute_def) simp
qed

lemma parse_attrs_prefix:
  assumes "int p + sz \<le> int (length buf)"
  shows "\<exists>k \<le> nat sz. concat (map (\<lambda>a. encode_attr (attr_view buf a)) (parse_attrs buf p sz)) =
    take k (drop p buf)"
  using assms
proof (induction buf p sz rule: parse_attrs.induct)
  case (1 buf p sz)
  from "1.prems" obtain r where r: "read_grecpattribute buf p sz = Inr r"
    using read_grecpattribute_no_fault by blast
  show ?case
  proof (cases r)
    case None
    with r have "parse_attrs buf p sz = []" by (simp add: parse_attrs.simps [of buf p])
    then show ?thesis by (intro exI [of _ 0]) simp
  next
    case (Some a)
    let ?n = "attr_bytes a"
    have n: "?n \<le> nat sz" using r Some by (auto dest: read_grecpattribute_SomeD(1))
    have "\<exists>k \<le> nat (sz - int ?n).
        concat (map (\<lambda>a. encode_attr (attr_view buf a)) (parse_attrs buf (p + ?n) (sz - int ?n))) =
        take k (drop (p + ?n) buf)"
      using "1.IH" [OF r Some] "1.prems" by simp
    then obtain k where k: "k \<le> nat (sz - int ?n)"
      and IH: "concat (map (\<lambda>a. encode_attr (attr_view buf a)) (parse_attrs buf (p + ?n) (sz - int ?n))) =
        take k (drop (p + ?n) buf)" by blast
    have "encode_attr (attr_view buf a) = take ?n (drop p buf)"
      using r Some "1.prems" by (simp add: encode_view)
    with r Some IH have "concat (map (\<lambda>a. encode_attr (attr_view buf a)) (parse_attrs buf p sz)) =
        take ?n (drop p buf) @ take k (drop (p + ?n) buf)"
      by (simp add: parse_attrs.simps [of buf p])
    also have "\<dots> = take (?n + k) (drop p buf)"
      by (rule take_drop_add [symmetric])
    finally show ?thesis
      using n k by (intro exI [of _ "?n + k"]) auto
  qed
qed

end
