(* ===== verification/Sending.thy ===== *)
theory Sending
  imports Attributes
begin

text \<open>
  The messages the client sends: the GRE and GRECP headers (\<open>send_grecpmessage\<close> of
  \<open>grecp.c\<close>), the request, hello and notify messages built on it, and what a receiver that
  reads the headers and attributes of such a message gets.

  A send buffer is the list of the bytes written so far, so \<open>buffer + size\<close> is its end. It
  never comes near \<open>MAX_PKT_SIZE\<close>: \<open>sent_attributes_short\<close> bounds everything that is
  appended.
\<close>

subsection \<open>The message header\<close>

definition bytes_of_string :: "string \<Rightarrow> bytes" where
  "bytes_of_string cs = map of_char cs"

definition grecp_header :: "u32 \<Rightarrow> u8 \<Rightarrow> u8 \<Rightarrow> bytes" where
  "grecp_header key msgtype tuntype =
     bytes_of_u16 (htons GRECP_FLAGSANDVERSION) @ bytes_of_u16 (htons GRECP_PROTO) @
     bytes_of_u32 (htonl key) @ [push_bit 4 msgtype OR tuntype]"

text \<open>The fields of \<open>struct grehdr\<close> and \<open>struct grecphdr\<close> laid over a receive buffer.\<close>

definition greh_flags_and_version :: "bytes \<Rightarrow> u16" where
  "greh_flags_and_version buf = word_of_bytes (take 2 buf)"

definition greh_proto :: "bytes \<Rightarrow> u16" where
  "greh_proto buf = word_of_bytes (take 2 (drop 2 buf))"

definition greh_key :: "bytes \<Rightarrow> u32" where
  "greh_key buf = word_of_bytes (take 4 (drop 4 buf))"

definition msgtype_and_tuntype :: "bytes \<Rightarrow> u8" where
  "msgtype_and_tuntype buf = word_of_bytes (take 1 (drop 8 buf))"

lemma length_grecp_header [simp, wire]: "length (grecp_header key m t) = 9"
  by (simp add: grecp_header_def)

lemma bytes_of_u16_split: "\<exists>a b. bytes_of_u16 w = [a, b]"
  by (simp add: bytes_of_u16_def)

lemma header_fields:
  "ntohs (greh_flags_and_version (grecp_header key m t @ rest)) = GRECP_FLAGSANDVERSION"
  "ntohs (greh_proto (grecp_header key m t @ rest)) = GRECP_PROTO"
  "ntohl (greh_key (grecp_header key m t @ rest)) = key"
  "msgtype_and_tuntype (grecp_header key m t @ rest) = push_bit 4 m OR t"
proof -
  let ?f = "bytes_of_u16 (htons GRECP_FLAGSANDVERSION)" and ?p = "bytes_of_u16 (htons GRECP_PROTO)"
    and ?k = "bytes_of_u32 (htonl key)" and ?b = "push_bit 4 m OR t"
  have h: "grecp_header key m t @ rest = ?f @ ?p @ ?k @ [?b] @ rest"
    by (simp add: grecp_header_def)
  have t1: "take 2 (?f @ ?p @ ?k @ [?b] @ rest) = ?f"
    and t2: "take 2 (drop 2 (?f @ ?p @ ?k @ [?b] @ rest)) = ?p"
    and t3: "take 4 (drop 4 (?f @ ?p @ ?k @ [?b] @ rest)) = ?k"
    and t4: "take 1 (drop 8 (?f @ ?p @ ?k @ [?b] @ rest)) = [?b]"
    by simp_all
  show "ntohs (greh_flags_and_version (grecp_header key m t @ rest)) = GRECP_FLAGSANDVERSION"
    by (simp only: h greh_flags_and_version_def t1 word_of_bytes_u16 ntoh_hton)
  show "ntohs (greh_proto (grecp_header key m t @ rest)) = GRECP_PROTO"
    by (simp only: h greh_proto_def t2 word_of_bytes_u16 ntoh_hton)
  show "ntohl (greh_key (grecp_header key m t @ rest)) = key"
    by (simp only: h greh_key_def t3 word_of_bytes_u32 ntoh_hton)
  show "msgtype_and_tuntype (grecp_header key m t @ rest) = ?b"
    by (simp only: h msgtype_and_tuntype_def t4 word_of_byte)
qed

lemma type_nibbles:
  assumes "m \<in> {1, 2, 3, 4, 5, 6 :: u8}" and "t \<in> {GRECP_TUNTYPE_LTE, GRECP_TUNTYPE_DSL}"
  shows "drop_bit 4 (push_bit 4 m OR t) = m" "(push_bit 4 m OR t) AND 0x0f = t"
  using assms by auto

subsection \<open>Sending one message\<close>

text \<open>
  The source address is attached as control information; without one nothing is sent. The
  effect records the call of \<open>sendmsg\<close> and whether it returned a positive count.
\<close>

definition send_grecpmessage :: "env \<Rightarrow> u8 \<Rightarrow> u8 \<Rightarrow> bytes \<Rightarrow> sys \<Rightarrow> bool \<times> sys" where
  "send_grecpmessage w msgtype tuntype attributes s =
     (let msg = grecp_header (bonding_key (haap (rt s))) msgtype tuntype @ attributes;
          src = (if tuntype = GRECP_TUNTYPE_LTE then interface_ip (lte (rt s))
                 else interface_ip (dsl (rt s)));
          dst = haap_ip (haap (rt s))
      in if src \<noteq> in6addr_any
         then let (ok, s) = ask_ok w s in (ok, emit (Sendmsg src dst msg ok) s)
         else (False, s))"

definition client_identification_name :: bytes where
  "client_identification_name = bytes_of_string ''OpenHybrid'' @ replicate 30 0"

definition request_attributes :: "u8 \<Rightarrow> u32 \<Rightarrow> bytes" where
  "request_attributes tuntype sid =
     (let buf = [];
          buf = (if tuntype = GRECP_TUNTYPE_LTE
                 then append_grecpattribute buf GRECP_MSGATTR_CLIENT_IDENTIFICATION_NAME 40
                        client_identification_name
                 else buf);
          buf = (if sid \<noteq> 0
                 then append_grecpattribute buf GRECP_MSGATTR_SESSION_ID 4 (bytes_of_u32 (htonl sid))
                 else buf)
      in append_grecpattribute buf GRECP_MSGATTR_PADDING 0 [])"

definition send_grecprequest :: "env \<Rightarrow> u8 \<Rightarrow> sys \<Rightarrow> bool \<times> sys" where
  "send_grecprequest w tuntype s =
     send_grecpmessage w GRECP_MSGTYPE_REQUEST tuntype
       (request_attributes tuntype (session_id (haap (rt s)))) s"

text \<open>
  The time stamp of a hello is the clock truncated to 32 bits. \<open>last_hello_sent\<close> is set
  whether or not the message went out.
\<close>

definition hello_attributes :: "u32 \<Rightarrow> u32 \<Rightarrow> bytes" where
  "hello_attributes seconds milliseconds =
     append_grecpattribute
       (append_grecpattribute [] GRECP_MSGATTR_TIMESTAMP 8
         (bytes_of_u32 (htonl seconds) @ bytes_of_u32 (htonl milliseconds)))
       GRECP_MSGATTR_PADDING 0 []"

definition send_grecphello :: "env \<Rightarrow> u8 \<Rightarrow> sys \<Rightarrow> bool \<times> sys" where
  "send_grecphello w tuntype s =
     (let (t, s) = get_uptime w s;
          (t', s) = get_uptime w s;
          seconds = word_of_int (tv_sec t);
          milliseconds = word_of_int (tv_usec t' div 1000);
          (res, s) = send_grecpmessage w GRECP_MSGTYPE_HELLO tuntype
                       (hello_attributes seconds milliseconds) s
      in if tuntype = GRECP_TUNTYPE_LTE
         then (res, set_lte (last_hello_sent_update (\<lambda>_. uint (seconds :: u32))) s)
         else (res, set_dsl (last_hello_sent_update (\<lambda>_. uint seconds)) s))"

definition filterlistpackageack_attributes :: "u32 \<Rightarrow> u8 \<Rightarrow> bytes" where
  "filterlistpackageack_attributes commitcount ackcode =
     append_grecpattribute
       (append_grecpattribute [] GRECP_MSGATTR_FILTER_LIST_PACKAGE_ACK 5
         (bytes_of_u32 (htonl commitcount) @ [ackcode]))
       GRECP_MSGATTR_PADDING 0 []"

definition send_grecpnotify_filterlistpackageack :: "env \<Rightarrow> u8 \<Rightarrow> sys \<Rightarrow> bool \<times> sys" where
  "send_grecpnotify_filterlistpackageack w ackcode s =
     send_grecpmessage w GRECP_MSGTYPE_NOTIFY GRECP_TUNTYPE_LTE
       (filterlistpackageack_attributes (commit_count (haap (rt s))) ackcode) s"

definition tunnelverify_attributes :: bytes where
  "tunnelverify_attributes =
     append_grecpattribute (append_grecpattribute [] GRECP_MSGATTR_TUNNEL_VERIFICATION 0 [])
       GRECP_MSGATTR_PADDING 0 []"

definition send_grecpnotify_tunnelverify :: "env \<Rightarrow> sys \<Rightarrow> bool \<times> sys" where
  "send_grecpnotify_tunnelverify w s =
     send_grecpmessage w GRECP_MSGTYPE_NOTIFY GRECP_TUNTYPE_LTE tunnelverify_attributes s"

definition linkfailure_attributes :: "u8 \<Rightarrow> bytes" where
  "linkfailure_attributes tuntype =
     append_grecpattribute
       (if tuntype = GRECP_TUNTYPE_LTE
        then append_grecpattribute [] GRECP_MSGATTR_DSL_LINK_FAILURE 0 []
        else append_grecpattribute [] GRECP_MSGATTR_LTE_LINK_FAILURE 0 [])
       GRECP_MSGATTR_PADDING 0 []"

definition send_grecpnotify_linkfailure :: "env \<Rightarrow> u8 \<Rightarrow> sys \<Rightarrow> bool \<times> sys" where
  "send_grecpnotify_linkfailure w tuntype s =
     send_grecpmessage w GRECP_MSGTYPE_NOTIFY tuntype (linkfailure_attributes tuntype) s"

definition bypasstraffic_attributes :: "u32 \<Rightarrow> bytes" where
  "bypasstraffic_attributes kbit =
     append_grecpattribute
       (append_grecpattribute [] GRECP_MSGATTR_BYPASS_TRAFFIC_RATE 4 (bytes_of_u32 (htonl kbit)))
       GRECP_MSGATTR_PADDING 0 []"

definition send_grecpnotify_bypasstraffic :: "env \<Rightarrow> u32 \<Rightarrow> sys \<Rightarrow> bool \<times> sys" where
  "send_grecpnotify_bypasstraffic w kbit s =
     (let (res, s) = send_grecpmessage w GRECP_MSGTYPE_NOTIFY GRECP_TUNTYPE_DSL
                       (bypasstraffic_attributes kbit) s
      in if res
         then let (t, s) = get_uptime w s
              in (True, set_dsl (last_bypass_traffic_sent_update (\<lambda>_. tv_sec t)) s)
         else (False, s))"

subsection \<open>What goes onto the wire\<close>

text \<open>
  The abstract messages of the client, their message type and their attributes as
  identifier/value pairs.
\<close>

datatype client_message =
    Request u32
  | Hello u32 u32
  | Filter_List_Ack u32 u8
  | Tunnel_Verify
  | Link_Failure
  | Bypass_Traffic u32

fun message_type :: "client_message \<Rightarrow> u8" where
  "message_type (Request sid) = GRECP_MSGTYPE_REQUEST"
| "message_type (Hello sec ms) = GRECP_MSGTYPE_HELLO"
| "message_type _ = GRECP_MSGTYPE_NOTIFY"

abbreviation be32 :: "u32 \<Rightarrow> bytes" where
  "be32 w \<equiv> rev (bytes_of_u32 w)"

fun message_tlvs :: "u8 \<Rightarrow> client_message \<Rightarrow> (u8 \<times> bytes) list" where
  "message_tlvs t (Request sid) =
     (if t = GRECP_TUNTYPE_LTE
      then [(GRECP_MSGATTR_CLIENT_IDENTIFICATION_NAME, client_identification_name)] else []) @
     (if sid \<noteq> 0 then [(GRECP_MSGATTR_SESSION_ID, be32 sid)] else []) @
     [(GRECP_MSGATTR_PADDING, [])]"
| "message_tlvs t (Hello sec ms) =
     [(GRECP_MSGATTR_TIMESTAMP, be32 sec @ be32 ms), (GRECP_MSGATTR_PADDING, [])]"
| "message_tlvs t (Filter_List_Ack n code) =
     [(GRECP_MSGATTR_FILTER_LIST_PACKAGE_ACK, be32 n @ [code]), (GRECP_MSGATTR_PADDING, [])]"
| "message_tlvs t Tunnel_Verify =
     [(GRECP_MSGATTR_TUNNEL_VERIFICATION, []), (GRECP_MSGATTR_PADDING, [])]"
| "message_tlvs t Link_Failure =
     [(if t = GRECP_TUNTYPE_LTE then GRECP_MSGATTR_DSL_LINK_FAILURE
       else GRECP_MSGATTR_LTE_LINK_FAILURE, []), (GRECP_MSGATTR_PADDING, [])]"
| "message_tlvs t (Bypass_Traffic kbit) =
     [(GRECP_MSGATTR_BYPASS_TRAFFIC_RATE, be32 kbit), (GRECP_MSGATTR_PADDING, [])]"

text \<open>The attribute bytes that the sending functions build.\<close>

fun attribute_bytes :: "u8 \<Rightarrow> client_message \<Rightarrow> bytes" where
  "attribute_bytes t (Request sid) = request_attributes t sid"
| "attribute_bytes t (Hello sec ms) = hello_attributes sec ms"
| "attribute_bytes t (Filter_List_Ack n code) = filterlistpackageack_attributes n code"
| "attribute_bytes t Tunnel_Verify = tunnelverify_attributes"
| "attribute_bytes t Link_Failure = linkfailure_attributes t"
| "attribute_bytes t (Bypass_Traffic kbit) = bypasstraffic_attributes kbit"

lemma length_client_identification_name [simp]: "length client_identification_name = 40"
  by (simp add: client_identification_name_def bytes_of_string_def)

lemmas attribute_defs = request_attributes_def hello_attributes_def
  filterlistpackageack_attributes_def tunnelverify_attributes_def linkfailure_attributes_def
  bypasstraffic_attributes_def

lemma attribute_bytes_eq_tlvs: "attribute_bytes t m = concat (map encode_attr (message_tlvs t m))"
  by (cases m) (simp_all add: attribute_defs append_is_encode bytes_of_hton Let_def)

lemma message_tlvs_short: "x \<in> set (message_tlvs t m) \<Longrightarrow> length (snd x) \<le> 40"
  by (cases m) (auto split: if_splits)

lemma sent_attributes_short: "length (attribute_bytes t m) \<le> 53"
  by (cases m) (auto simp: attribute_bytes_eq_tlvs length_encode_attr)

text \<open>How a receiver reads a message: headers by offset, attributes by \<open>read_grecpattribute\<close>.\<close>

definition message_view :: "bytes \<Rightarrow> (u32 \<times> u8 \<times> u8 \<times> (u8 \<times> bytes) list) option" where
  "message_view msg =
     (if ntohs (greh_flags_and_version msg) = GRECP_FLAGSANDVERSION \<and>
         ntohs (greh_proto msg) = GRECP_PROTO
      then Some (ntohl (greh_key msg), drop_bit 4 (msgtype_and_tuntype msg),
             msgtype_and_tuntype msg AND 0x0f,
             map (attr_view msg) (parse_attrs msg 9 (int (length msg) - 9)))
      else None)"

lemma message_type_range: "message_type m \<in> {1, 2, 3, 4, 5, 6}"
  by (cases m) simp_all

lemma message_view_sent:
  assumes "t \<in> {GRECP_TUNTYPE_LTE, GRECP_TUNTYPE_DSL}"
  shows "message_view (grecp_header key (message_type m) t @ attribute_bytes t m) =
    Some (key, message_type m, t, message_tlvs t m)"
proof -
  let ?h = "grecp_header key (message_type m) t" and ?as = "attribute_bytes t m"
  have short: "\<And>x. x \<in> set (message_tlvs t m) \<Longrightarrow> length (snd x) < 2 ^ 16"
    using message_tlvs_short by fastforce
  have "map (attr_view (?h @ ?as @ [])) (parse_attrs (?h @ ?as @ []) (length ?h) (int (length ?as))) =
      message_tlvs t m"
    unfolding attribute_bytes_eq_tlvs by (rule parse_attrs_encoded [OF short])
  then have "map (attr_view (?h @ ?as)) (parse_attrs (?h @ ?as) 9 (int (length (?h @ ?as)) - 9)) =
      message_tlvs t m" by simp
  then show ?thesis
    by (simp only: message_view_def header_fields type_nibbles [OF message_type_range assms]) simp
qed

text \<open>A send either does nothing or emits one \<open>sendmsg\<close>; the state changes nowhere else.\<close>

lemma send_grecpmessage_cases:
  obtains (no_source) "(if t = GRECP_TUNTYPE_LTE then interface_ip (lte (rt s))
        else interface_ip (dsl (rt s))) = in6addr_any"
      "send_grecpmessage w m t attrs s = (False, s)"
  | (sent) src ok where "src = (if t = GRECP_TUNTYPE_LTE then interface_ip (lte (rt s))
        else interface_ip (dsl (rt s)))" "src \<noteq> in6addr_any" "ok = env_ok w (tick s)"
      "send_grecpmessage w m t attrs s =
        (ok, s\<lparr>tick := Suc (tick s), trace := trace s @
          [Sendmsg src (haap_ip (haap (rt s)))
            (grecp_header (bonding_key (haap (rt s))) m t @ attrs) ok]\<rparr>)"
  by (cases "(if t = GRECP_TUNTYPE_LTE then interface_ip (lte (rt s))
        else interface_ip (dsl (rt s))) = in6addr_any")
    (simp_all add: send_grecpmessage_def Let_def ask_ok_def emit_def)

lemma rt_send_grecpmessage [simp, frame]: "rt (snd (send_grecpmessage w m t attrs s)) = rt s"
  by (simp add: send_grecpmessage_def Let_def case_prod_beta)

lemma rt_send_simps [simp, frame]:
  "rt (snd (send_grecprequest w t s)) = rt s"
  "rt (snd (send_grecpnotify_filterlistpackageack w c s)) = rt s"
  "rt (snd (send_grecpnotify_tunnelverify w s)) = rt s"
  "rt (snd (send_grecpnotify_linkfailure w t s)) = rt s"
  by (simp_all add: send_grecprequest_def send_grecpnotify_filterlistpackageack_def
      send_grecpnotify_tunnelverify_def send_grecpnotify_linkfailure_def)

lemma rt_send_grecphello [frame]:
  "rt (snd (send_grecphello w t s)) =
     (let stamp = uint (word_of_int (fst (env_clock w (tick s))) :: u32)
      in if t = GRECP_TUNTYPE_LTE then lte_update (last_hello_sent_update (\<lambda>_. stamp)) (rt s)
         else dsl_update (last_hello_sent_update (\<lambda>_. stamp)) (rt s))"
  by (simp add: send_grecphello_def get_uptime_eq Let_def case_prod_beta)

lemma rt_send_bypass [frame]:
  "\<exists>t. rt (snd (send_grecpnotify_bypasstraffic w k s)) =
      dsl_update (last_bypass_traffic_sent_update (\<lambda>_. t)) (rt s)"
  by (auto simp: send_grecpnotify_bypasstraffic_def get_uptime_eq Let_def case_prod_beta)
    (auto intro!: exI [of _ "last_bypass_traffic_sent (dsl (rt s))"])

end
