(* ===== verification/Tun2gre.thy ===== *)
theory Tun2gre
  imports Sending
begin

text \<open>
  The sending thread \<open>tun2gre_main\<close> of \<open>tun2gre.c\<close>: packets read from the tunnel device are
  classified, given the next sequence number and sent in GRE through one of the tunnels. The
  read buffer keeps the bytes of earlier packets, the classification looks at fixed offsets.
\<close>

subsection \<open>Sending a data packet\<close>

definition gre_packet :: "u32 \<Rightarrow> u16 \<Rightarrow> u32 \<Rightarrow> bool \<Rightarrow> bytes \<Rightarrow> bytes" where
  "gre_packet key proto seq include_sequence payload =
     bytes_of_u16 (htons (if include_sequence then GRECP_FLAGSANDVERSION_WITH_SEQ
                          else GRECP_FLAGSANDVERSION)) @
     bytes_of_u16 (htons proto) @ bytes_of_u32 (htonl key) @
     (if include_sequence then bytes_of_u32 (htonl seq) else []) @ payload"

text \<open>The packet is built in an array of \<open>MAX_PKT_SIZE\<close> bytes.\<close>

definition send_gre :: "env \<Rightarrow> u8 \<Rightarrow> u16 \<Rightarrow> u32 \<Rightarrow> bool \<Rightarrow> bytes \<Rightarrow> sys \<Rightarrow> fault + sys" where
  "send_gre w tuntype proto seq include_sequence payload s =
     (let msg = gre_packet (bonding_key (haap (rt s))) proto seq include_sequence payload;
          src = (if tuntype = GRECP_TUNTYPE_LTE then interface_ip (lte (rt s))
                 else interface_ip (dsl (rt s)));
          dst = haap_ip (haap (rt s))
      in if MAX_PKT_SIZE < length msg then Inl Buffer_Overflow
         else let (ok, s) = ask_ok w s in Inr (emit (Sendmsg_Gre src dst msg ok) s))"

subsection \<open>Classification\<close>

abbreviation (input) ETHERTYPE_IP :: u16 where "ETHERTYPE_IP \<equiv> 0x0800"
abbreviation (input) ETHERTYPE_IPV6 :: u16 where "ETHERTYPE_IPV6 \<equiv> 0x86DD"
abbreviation (input) IPPROTO_UDP :: u8 where "IPPROTO_UDP \<equiv> 17"

definition byte_at :: "bytes \<Rightarrow> nat \<Rightarrow> u8" where
  "byte_at buf i = word_of_bytes (take 1 (drop i buf))"

definition port_at :: "bytes \<Rightarrow> nat \<Rightarrow> u16" where
  "port_at buf i = ntohs (word_of_bytes (take 2 (drop i buf)))"

definition ip_version :: "bytes \<Rightarrow> u8" where
  "ip_version buf = drop_bit 4 (byte_at buf 0)"

definition etherproto_of :: "bytes \<Rightarrow> u16 option" where
  "etherproto_of buf =
     (if ip_version buf = 4 then Some ETHERTYPE_IP
      else if ip_version buf = 6 then Some ETHERTYPE_IPV6
      else None)"

definition dhcp_ports :: "bytes \<Rightarrow> u16 \<Rightarrow> bool" where
  "dhcp_ports buf etherproto =
     (if etherproto = ETHERTYPE_IP \<and> byte_at buf 9 = IPPROTO_UDP
      then port_at buf 20 = 68 \<and> port_at buf (20 + 2) = 67
      else if etherproto = ETHERTYPE_IPV6 \<and> byte_at buf 6 = IPPROTO_UDP
      then port_at buf 40 = 546 \<and> port_at buf (40 + 2) = 547
      else False)"

subsection \<open>One turn of the sending loop\<close>

record tun2gre =
  txbuf :: bytes
  next_sequence :: u32

definition init_tun2gre :: "bytes \<Rightarrow> tun2gre" where
  "init_tun2gre buf = \<lparr>txbuf = buf, next_sequence = 0\<rparr>"

text \<open>
  \<open>data\<close> is what \<open>read\<close> delivered, the empty list for a failed read. The assignment
  \<open>is_dhcp = true\<close> after the classification is in the source.
\<close>

definition tun2gre_iteration :: "env \<Rightarrow> bytes \<Rightarrow> tun2gre \<Rightarrow> sys \<Rightarrow> fault + (tun2gre \<times> sys)" where
  "tun2gre_iteration w data t s =
     (if data = [] then Inr (t, s)
      else let payload = take MAX_PKT_SIZE data;
               buf = payload @ drop (length payload) (txbuf t);
               t = t\<lparr>txbuf := buf\<rparr>
           in case etherproto_of buf of
                None \<Rightarrow> Inr (t, s)
              | Some etherproto \<Rightarrow>
                  let is_dhcp = dhcp_ports buf etherproto;
                      is_dhcp = True
                  in if \<not> is_dhcp \<and> tunnel_established (dsl (rt s))
                     then bind_res (send_gre w GRECP_TUNTYPE_DSL etherproto (next_sequence t) True payload s)
                            (\<lambda>s. Inr (t\<lparr>next_sequence := next_sequence t + 1\<rparr>, s))
                     else if tunnel_established (lte (rt s))
                     then bind_res (send_gre w GRECP_TUNTYPE_LTE etherproto (next_sequence t) True payload s)
                            (\<lambda>s. Inr (t\<lparr>next_sequence := next_sequence t + 1\<rparr>, s))
                     else Inr (t, s))"

subsection \<open>What the thread sends\<close>

lemma length_gre_packet [simp, wire]:
  "length (gre_packet key proto seq b payload) = (if b then 12 else 8) + length payload"
  by (simp add: gre_packet_def)

lemma gre_packet_fields:
  "greh_flags_and_version (gre_packet key proto seq True payload @ rest) = htons GRECP_FLAGSANDVERSION_WITH_SEQ"
  "ntohl (word_of_bytes (take 4 (drop 8 (gre_packet key proto seq True payload @ rest)))) = seq"
  "take (length payload) (drop 12 (gre_packet key proto seq True payload @ rest)) = payload"
  "greh_key (gre_packet key proto seq True payload @ rest) = htonl key"
  "greh_proto (gre_packet key proto seq True payload @ rest) = htons proto"
proof -
  let ?f = "bytes_of_u16 (htons GRECP_FLAGSANDVERSION_WITH_SEQ)" and ?p = "bytes_of_u16 (htons proto)"
    and ?k = "bytes_of_u32 (htonl key)" and ?s = "bytes_of_u32 (htonl seq)"
  have g: "gre_packet key proto seq True payload @ rest = ?f @ ?p @ ?k @ ?s @ payload @ rest"
    by (simp add: gre_packet_def)
  have t1: "take 2 (?f @ ?p @ ?k @ ?s @ payload @ rest) = ?f"
    and t2: "take 4 (drop 8 (?f @ ?p @ ?k @ ?s @ payload @ rest)) = ?s"
    and t3: "take 4 (drop 4 (?f @ ?p @ ?k @ ?s @ payload @ rest)) = ?k"
    and t4: "take 2 (drop 2 (?f @ ?p @ ?k @ ?s @ payload @ rest)) = ?p"
    and t5: "drop 12 (?f @ ?p @ ?k @ ?s @ payload @ rest) = payload @ rest"
    by simp_all
  show "greh_flags_and_version (gre_packet key proto seq True payload @ rest) = htons GRECP_FLAGSANDVERSION_WITH_SEQ"
    by (simp only: g greh_flags_and_version_def t1 word_of_bytes_u16)
  show "ntohl (word_of_bytes (take 4 (drop 8 (gre_packet key proto seq True payload @ rest)))) = seq"
    by (simp only: g t2 word_of_bytes_u32 ntoh_hton)
  show "take (length payload) (drop 12 (gre_packet key proto seq True payload @ rest)) = payload"
    by (simp only: g t5) simp
  show "greh_key (gre_packet key proto seq True payload @ rest) = htonl key"
    by (simp only: g greh_key_def t3 word_of_bytes_u32)
  show "greh_proto (gre_packet key proto seq True payload @ rest) = htons proto"
    by (simp only: g greh_proto_def t4 word_of_bytes_u16)
qed

end
