(* ===== verification/Packet_Filter.thy ===== *)
theory Packet_Filter
  imports Tun2gre
begin

text \<open>
  The two packet filters that the program attaches to its raw sockets: the classic BPF programs of
  \<open>open_grecp_socket\<close> (\<open>openhybrid.c\<close>) and \<open>open_gre_socket\<close> (\<open>tundev.c\<close>) as instruction lists, an
  interpreter of the instructions they use, and what the programs accept. The filter sees the
  packet from the GRE header on; a load behind its end discards the packet, and a load
  delivers the bytes in network order.
\<close>

subsection \<open>The machine\<close>

datatype bpf_insn =
    Ld_W_Abs nat
  | Ld_H_Abs nat
  | Jeq_K u32 nat nat
  | Ret_K u32

definition load_half :: "bytes \<Rightarrow> nat \<Rightarrow> u32 option" where
  "load_half pkt k =
     (if k + 2 \<le> length pkt then Some (ucast (ntohs (word_of_bytes (take 2 (drop k pkt)))))
      else None)"

definition load_word :: "bytes \<Rightarrow> nat \<Rightarrow> u32 option" where
  "load_word pkt k =
     (if k + 4 \<le> length pkt then Some (ntohl (word_of_bytes (take 4 (drop k pkt)))) else None)"

text \<open>
  Jumps go forward, so a program is run by dropping what was executed or skipped; the result is
  the number of bytes to keep, 0 for a packet that is discarded. Running off the end cannot
  happen to a program that the kernel accepts; it counts as discarding.
\<close>

function bpf_run :: "bytes \<Rightarrow> bpf_insn list \<Rightarrow> u32 \<Rightarrow> u32" where
  "bpf_run pkt [] acc = 0"
| "bpf_run pkt (Ld_W_Abs k # prog) acc =
     (case load_word pkt k of Some v \<Rightarrow> bpf_run pkt prog v | None \<Rightarrow> 0)"
| "bpf_run pkt (Ld_H_Abs k # prog) acc =
     (case load_half pkt k of Some v \<Rightarrow> bpf_run pkt prog v | None \<Rightarrow> 0)"
| "bpf_run pkt (Jeq_K k jt jf # prog) acc = bpf_run pkt (drop (if acc = k then jt else jf) prog) acc"
| "bpf_run pkt (Ret_K v # prog) acc = v"
  by pat_completeness auto
termination
  by (relation "measure (\<lambda>(pkt, prog, acc). length prog)") auto

subsection \<open>The programs\<close>

definition grecp_filter :: "bpf_insn list" where
  "grecp_filter =
     [Ld_H_Abs 2,
      Jeq_K (ucast GRECP_PROTO) 0 1,
      Ret_K (- 1),
      Ret_K 0]"

definition gre_filter :: "u32 \<Rightarrow> bpf_insn list" where
  "gre_filter key =
     [Ld_W_Abs 4,
      Jeq_K key 0 4,
      Ld_H_Abs 2,
      Jeq_K (ucast ETHERTYPE_IP) 1 0,
      Jeq_K (ucast ETHERTYPE_IPV6) 0 1,
      Ret_K (- 1),
      Ret_K 0]"

definition bpf_accepts :: "bpf_insn list \<Rightarrow> bytes \<Rightarrow> bool" where
  "bpf_accepts prog pkt \<longleftrightarrow> bpf_run pkt prog 0 \<noteq> 0"

lemma ucast_u16_eq_iff: "(ucast (a :: u16) :: u32) = ucast b \<longleftrightarrow> a = b"
proof -
  have "ucast (ucast c :: u32) = c" for c :: u16
    by (rule bit_word_eqI) (simp add: bit_simps)
  then show ?thesis by metis
qed

lemma half_eq_iff: "(ucast (x :: u16) :: u32) = 0x0800 \<longleftrightarrow> x = 0x0800" "(ucast x :: u32) = 0x86DD \<longleftrightarrow> x = 0x86DD"
  "(ucast x :: u32) = 0x0101 \<longleftrightarrow> x = 0x0101"
  using ucast_u16_eq_iff [of x "0x0800"] ucast_u16_eq_iff [of x "0x86DD"] ucast_u16_eq_iff [of x "0x0101"]
  by simp_all

text \<open>The filter of the control socket lets exactly the packets of at least four bytes with the
  GRECP protocol number through.\<close>

lemma grecp_filter_iff:
  "bpf_accepts grecp_filter pkt \<longleftrightarrow> 4 \<le> length pkt \<and> ntohs (greh_proto pkt) = GRECP_PROTO"
  by (auto simp: bpf_accepts_def grecp_filter_def load_half_def greh_proto_def half_eq_iff)

text \<open>The filter of the data socket lets exactly the packets through that carry the bonding key it was
  built with and an IPv4 or IPv6 payload.\<close>

lemma gre_filter_iff:
  "bpf_accepts (gre_filter key) pkt \<longleftrightarrow>
     8 \<le> length pkt \<and> ntohl (greh_key pkt) = key \<and>
     ntohs (greh_proto pkt) \<in> {ETHERTYPE_IP, ETHERTYPE_IPV6}"
  by (auto simp: bpf_accepts_def gre_filter_def load_half_def load_word_def greh_proto_def greh_key_def
      half_eq_iff drop_Suc)

text \<open>C33: The two filters never accept the same packet; a packet of the sending thread passes the filter of
  a data socket with its bonding key, and a control message passes the other filter.\<close>

theorem filters_separate:
  "\<not> (bpf_accepts grecp_filter pkt \<and> bpf_accepts (gre_filter key) pkt) \<and>
   (bpf_accepts (gre_filter key) (gre_packet key' proto seq True payload) \<longleftrightarrow>
      key = key' \<and> proto \<in> {ETHERTYPE_IP, ETHERTYPE_IPV6}) \<and>
   bpf_accepts grecp_filter (grecp_header key' msgtype tun @ attributes)"
  using gre_packet_fields(4) [of key' proto seq payload "[]"] gre_packet_fields(5) [of key' proto seq payload "[]"] header_fields(2) [of key' msgtype tun attributes]
  by (auto simp: grecp_filter_iff gre_filter_iff)

end
