(* ===== verification/Tundev.thy ===== *)
theory Tundev
  imports Packet_Filter Event
begin

text \<open>
  \<open>tundev.c\<close>: the tunnel device, which is a GRE device of the kernel without bonding and a tun
  device with bonding, and the socket for data packets. Netlink and ioctl requests are
  effects with the contents the source gives them; how \<open>libmnl\<close> lays an attribute out in memory is not
  modelled. The environment answers whether the kernel reported an error.
\<close>

subsection \<open>Numbers of the kernel interface\<close>

abbreviation (input) RTM_NEWLINK :: u16 where "RTM_NEWLINK \<equiv> 16"
abbreviation (input) RTM_DELLINK :: u16 where "RTM_DELLINK \<equiv> 17"
abbreviation (input) NLM_F_REQUEST :: u16 where "NLM_F_REQUEST \<equiv> 1"
abbreviation (input) NLM_F_ACK :: u16 where "NLM_F_ACK \<equiv> 4"
abbreviation (input) NLM_F_CREATE :: u16 where "NLM_F_CREATE \<equiv> 0x400"
abbreviation (input) IFF_UP :: u32 where "IFF_UP \<equiv> 1"
abbreviation (input) IFLA_IFNAME :: u16 where "IFLA_IFNAME \<equiv> 3"
abbreviation (input) IFLA_MTU :: u16 where "IFLA_MTU \<equiv> 4"
abbreviation (input) IFLA_LINKINFO :: u16 where "IFLA_LINKINFO \<equiv> 18"
abbreviation (input) IFLA_INFO_KIND :: u16 where "IFLA_INFO_KIND \<equiv> 1"
abbreviation (input) IFLA_INFO_DATA :: u16 where "IFLA_INFO_DATA \<equiv> 2"
abbreviation (input) IFLA_GRE_IFLAGS :: u16 where "IFLA_GRE_IFLAGS \<equiv> 2"
abbreviation (input) IFLA_GRE_OFLAGS :: u16 where "IFLA_GRE_OFLAGS \<equiv> 3"
abbreviation (input) IFLA_GRE_IKEY :: u16 where "IFLA_GRE_IKEY \<equiv> 4"
abbreviation (input) IFLA_GRE_OKEY :: u16 where "IFLA_GRE_OKEY \<equiv> 5"
abbreviation (input) IFLA_GRE_LOCAL :: u16 where "IFLA_GRE_LOCAL \<equiv> 6"
abbreviation (input) IFLA_GRE_REMOTE :: u16 where "IFLA_GRE_REMOTE \<equiv> 7"
abbreviation (input) IFLA_GRE_TTL :: u16 where "IFLA_GRE_TTL \<equiv> 8"
abbreviation (input) IFLA_GRE_FLAGS :: u16 where "IFLA_GRE_FLAGS \<equiv> 13"
abbreviation (input) IP6_TNL_F_IGN_ENCAP_LIMIT :: u32 where "IP6_TNL_F_IGN_ENCAP_LIMIT \<equiv> 1"
abbreviation (input) GRE_KEY :: u16 where "GRE_KEY \<equiv> htons 0x2000"
abbreviation (input) TUNSETIFF :: u32 where "TUNSETIFF \<equiv> 0x400454CA"
abbreviation (input) SIOCSIFFLAGS :: u32 where "SIOCSIFFLAGS \<equiv> 0x8914"
abbreviation (input) SIOCSIFMTU :: u32 where "SIOCSIFMTU \<equiv> 0x8922"
abbreviation (input) IFF_TUN :: u32 where "IFF_TUN \<equiv> 1"
abbreviation (input) IFF_NO_PI :: u32 where "IFF_NO_PI \<equiv> 0x1000"
abbreviation (input) IFF_NOFILTER :: u32 where "IFF_NOFILTER \<equiv> 0x1000"

subsection \<open>The GRE device\<close>

definition gre_device_attributes :: "runtime \<Rightarrow> nlattr list" where
  "gre_device_attributes r =
     [Attr_Str IFLA_IFNAME (tunnel_interface_name r),
      Attr_U32 IFLA_MTU (ucast (tunnel_interface_mtu r)),
      Attr_Nest IFLA_LINKINFO
        [Attr_Str IFLA_INFO_KIND ''ip6gre'',
         Attr_Nest IFLA_INFO_DATA
           [Attr_Data IFLA_GRE_LOCAL (interface_ip (lte r)),
            Attr_Data IFLA_GRE_REMOTE (haap_ip (haap r)),
            Attr_U32 IFLA_GRE_FLAGS IP6_TNL_F_IGN_ENCAP_LIMIT,
            Attr_U8 IFLA_GRE_TTL 64,
            Attr_U32 IFLA_GRE_IKEY (htonl (bonding_key (haap r))),
            Attr_U32 IFLA_GRE_OKEY (htonl (bonding_key (haap r))),
            Attr_U16 IFLA_GRE_IFLAGS GRE_KEY,
            Attr_U16 IFLA_GRE_OFLAGS GRE_KEY]]]"

definition create_gre_tunnel_dev :: "env \<Rightarrow> sys \<Rightarrow> bool \<times> sys" where
  "create_gre_tunnel_dev w s =
     (let (opened, s) = ask_ok w s in
      if \<not> opened then (False, s)
      else let s = emit (Netlink RTM_NEWLINK (NLM_F_REQUEST OR NLM_F_CREATE OR NLM_F_ACK) IFF_UP IFF_UP
                     (gre_device_attributes (rt s))) s;
               (ok, s) = ask_ok w s
           in if \<not> ok then (False, s) else (True, trigger_event w ''tunnelup'' s))"

text \<open>When the netlink socket cannot be opened the device counts as destroyed.\<close>

definition destroy_gre_tunnel_dev :: "env \<Rightarrow> sys \<Rightarrow> bool \<times> sys" where
  "destroy_gre_tunnel_dev w s =
     (let (opened, s) = ask_ok w s in
      if \<not> opened then (True, s)
      else let s = emit (Netlink RTM_DELLINK (NLM_F_REQUEST OR NLM_F_ACK) 0 0
                     [Attr_Str IFLA_IFNAME (tunnel_interface_name (rt s))]) s;
               (ok, s) = ask_ok w s
           in if \<not> ok then (False, s) else (True, trigger_event w ''tunneldown'' s))"

subsection \<open>The tun device\<close>

text \<open>
  The flags and the MTU share one word, the union of \<open>struct ifreq\<close>. Errors of the MTU and flag requests are
  only logged. The request \<open>SIOCSIFFLAGS\<close> is made twice, first with all flags cleared.
\<close>

definition create_tun_tunnel_dev :: "env \<Rightarrow> sys \<Rightarrow> bool \<times> sys" where
  "create_tun_tunnel_dev w s =
     (let (fd, s) = ask_int w s;
          s = s\<lparr>sockfd_tun := fd\<rparr>
      in if fd < 0 then (False, s)
         else let name = tunnel_interface_name (rt s);
                  s = emit (Ioctl TUNSETIFF name (IFF_TUN OR IFF_NO_PI OR IFF_NOFILTER)) s;
                  (ok, s) = ask_ok w s
              in if \<not> ok then (False, emit (Close_Fd fd) s)
                 else let (gen_fd, s) = ask_int w s;
                          s = emit (Ioctl SIOCSIFMTU name (ucast (tunnel_interface_mtu (rt s)))) s;
                          s = emit (Ioctl SIOCSIFFLAGS name 0) s;
                          s = emit (Ioctl SIOCSIFFLAGS name (0 OR IFF_UP)) s;
                          s = emit (Close_Fd gen_fd) s
                      in (True, trigger_event w ''tunnelup'' s))"

text \<open>The return value is \<open>false\<close>, as in the source.\<close>

definition destroy_tun_tunnel_dev :: "env \<Rightarrow> sys \<Rightarrow> bool \<times> sys" where
  "destroy_tun_tunnel_dev w s =
     (False, trigger_event w ''tunneldown'' (emit (Close_Fd (sockfd_tun s)) s))"

definition create_tunnel_dev :: "env \<Rightarrow> sys \<Rightarrow> bool \<times> sys" where
  "create_tunnel_dev w s = (if bonding (rt s) then create_tun_tunnel_dev w s else create_gre_tunnel_dev w s)"

definition destroy_tunnel_dev :: "env \<Rightarrow> sys \<Rightarrow> bool \<times> sys" where
  "destroy_tunnel_dev w s = (if bonding (rt s) then destroy_tun_tunnel_dev w s else destroy_gre_tunnel_dev w s)"

subsection \<open>The data socket\<close>

text \<open>
  Without a socket or without its time-out the process exits. The filter is built with the
  bonding key of that moment and stays with the socket.
\<close>

definition open_gre_socket :: "env \<Rightarrow> sys \<Rightarrow> fault + sys" where
  "open_gre_socket w s =
     (let (fd, s) = ask_int w s;
          s = s\<lparr>sockfd_gre := fd\<rparr>
      in if fd < 0 then Inl Fatal_Exit
         else let (ok, s) = ask_ok w s
              in if \<not> ok then Inl Fatal_Exit
                 else Inr (emit (Open_Gre_Socket (bonding_key (haap (rt s)))) s))"

definition close_gre_socket :: "sys \<Rightarrow> sys" where
  "close_gre_socket s = emit (Close_Fd (sockfd_gre s)) s"

lemma tunnel_dev_rt [simp, frame]:
  "rt (snd (create_tunnel_dev w s)) = rt s" "rt (snd (destroy_tunnel_dev w s)) = rt s"
  "rt (close_gre_socket s) = rt s"
  by (simp_all add: create_tunnel_dev_def destroy_tunnel_dev_def create_tun_tunnel_dev_def
      create_gre_tunnel_dev_def destroy_tun_tunnel_dev_def destroy_gre_tunnel_dev_def close_gre_socket_def
      ask_ok_def ask_int_def Let_def)

lemma open_gre_socket_rt [frame]: "open_gre_socket w s = Inr s' \<Longrightarrow> rt s' = rt s"
  by (auto simp: open_gre_socket_def ask_ok_def ask_int_def Let_def split: if_splits)

lemma destroy_tunnel_dev_bonding: "bonding (rt s) \<Longrightarrow> fst (destroy_tunnel_dev w s) = False"
  by (simp add: destroy_tunnel_dev_def destroy_tun_tunnel_dev_def)

end
