(* ===== verification/Handlers.thy ===== *)
theory Handlers
  imports Sending
begin

text \<open>
  The message handlers of \<open>grecp_accept.c\<close>, \<open>grecp_deny.c\<close>, \<open>grecp_hello.c\<close>,
  \<open>grecp_teardown.c\<close> and \<open>grecp_notify.c\<close> and the dispatcher \<open>process_grecpmessage\<close> of
  \<open>grecp.c\<close>. Each handler is the body of its attribute loop, run by \<open>attr_loop\<close>, and what
  it does after the loop. The receive buffer is the whole array of \<open>main\<close>, so a read behind the
  received bytes but inside the array sees what an earlier packet left there.

  The locale \<open>attribute_body\<close> is the contract of a loop body towards the loop: what it keeps, and
  how far behind the attribute it may read.
\<close>

subsection \<open>The loop bodies\<close>

definition accept_attribute :: "bytes \<Rightarrow> grecpattr \<Rightarrow> haap \<Rightarrow> fault + haap" where
  "accept_attribute buf a h =
     (let v = attr_payload buf a in
      if attr_id a = GRECP_MSGATTR_H_IPV6_ADDRESS then
        bind_res (memcpy_into (haap_ip h) v) (\<lambda>x. Inr (h\<lparr>haap_ip := x\<rparr>))
      else if attr_id a = GRECP_MSGATTR_SESSION_ID then
        bind_res (memcpy_u32 (session_id h) v) (\<lambda>x. Inr (h\<lparr>session_id := ntohl x\<rparr>))
      else if attr_id a = GRECP_MSGATTR_ACTIVE_HELLO_INTERVAL then
        (if active_hello_interval h = 0
         then bind_res (memcpy_u32 (active_hello_interval h) v)
                (\<lambda>x. Inr (h\<lparr>active_hello_interval := ntohl x\<rparr>))
         else Inr h)
      else if attr_id a = GRECP_MSGATTR_HELLO_RETRY_TIMES then
        (if hello_retry_times h = 0
         then bind_res (memcpy_u32 (hello_retry_times h) v)
                (\<lambda>x. Inr (h\<lparr>hello_retry_times := ntohl x\<rparr>))
         else Inr h)
      else if attr_id a = GRECP_MSGATTR_BONDING_KEY_VALUE then
        bind_res (memcpy_u32 (bonding_key h) v) (\<lambda>x. Inr (h\<lparr>bonding_key := ntohl x\<rparr>))
      else if attr_id a = GRECP_MSGATTR_BYPASS_BANDWIDTH_CHECK_INTERVAL then
        bind_res (memcpy_u32 (bypass_bandwidth_check_interval h) v)
          (\<lambda>x. Inr (h\<lparr>bypass_bandwidth_check_interval := ntohl x\<rparr>))
      else Inr h)"

text \<open>
  The body above works on \<open>runtime.haap\<close>, the only part of the state it reads or writes; every
  \<open>memcpy\<close> has the length that the message claims. The deny and tear down handlers keep only a local error code; both copy four bytes whatever
  the length of the attribute is.
\<close>

definition error_code_attribute :: "bytes \<Rightarrow> grecpattr \<Rightarrow> u32 \<Rightarrow> fault + u32" where
  "error_code_attribute buf a errorcode =
     (if attr_id a = GRECP_MSGATTR_ERROR_CODE
      then bind_res (mem_read buf (attr_value a) 4) (\<lambda>bs. Inr (ntohl (word_of_bytes bs)))
      else Inr errorcode)"

text \<open>
  The product \<open>timestamp.milliseconds * 1000\<close> is computed in 32 bits. \<open>timersub\<close> stores into
  \<open>round_trip_time\<close>.
\<close>

definition hello_received :: "env \<Rightarrow> u8 \<Rightarrow> u32 \<Rightarrow> u32 \<Rightarrow> sys \<Rightarrow> sys" where
  "hello_received w tuntype seconds milliseconds s =
     (let (now, s) = get_uptime w s;
          sent = Timeval (uint seconds) (uint (milliseconds * 1000))
      in if tuntype = GRECP_TUNTYPE_LTE
         then set_lte (\<lambda>t. t\<lparr>round_trip_time := timersub now sent,
                last_hello_received := uint seconds, missed_hellos := 0\<rparr>) s
         else set_dsl (\<lambda>t. t\<lparr>round_trip_time := timersub now sent,
                last_hello_received := uint seconds, missed_hellos := 0\<rparr>) s)"

definition hello_attribute :: "env \<Rightarrow> u8 \<Rightarrow> bytes \<Rightarrow> grecpattr \<Rightarrow> sys \<Rightarrow> fault + sys" where
  "hello_attribute w tuntype buf a s =
     (if attr_id a = GRECP_MSGATTR_TIMESTAMP then
        bind_res (mem_read buf (attr_value a) 4) (\<lambda>seconds.
        bind_res (mem_read buf (attr_value a + 4) 4) (\<lambda>milliseconds.
          Inr (hello_received w tuntype (ntohl (word_of_bytes seconds))
            (ntohl (word_of_bytes milliseconds)) s)))
      else Inr s)"

definition notify_attribute :: "bytes \<Rightarrow> grecpattr \<Rightarrow> sys \<Rightarrow> fault + sys" where
  "notify_attribute buf a s =
     (if attr_id a = GRECP_MSGATTR_FILTER_LIST_PACKAGE then
        bind_res (mem_read buf (attr_value a) 4) (\<lambda>bs.
          Inr (rt_update (filter_list_acked_update (\<lambda>_. False))
                (set_haap (commit_count_update (\<lambda>_. ntohl (word_of_bytes bs))) s)))
      else if attr_id a = GRECP_MSGATTR_TUNNEL_VERIFICATION then
        Inr (set_lte (tunnel_verification_required_update (\<lambda>_. True)) s)
      else Inr s)"

subsection \<open>The handlers\<close>

text \<open>Whatever the attributes were, the tunnel of the accept message is up afterwards.\<close>

definition establish_tunnel :: "env \<Rightarrow> u8 \<Rightarrow> sys \<Rightarrow> sys" where
  "establish_tunnel w tuntype s =
     (let (t, s) = get_uptime w s
      in if tuntype = GRECP_TUNTYPE_LTE
         then set_lte (\<lambda>x. x\<lparr>tunnel_established := True, last_hello_sent := tv_sec t,
                last_hello_received := tv_sec t\<rparr>) s
         else set_dsl (\<lambda>x. x\<lparr>tunnel_established := True, last_hello_sent := tv_sec t,
                last_hello_received := tv_sec t\<rparr>) s)"

definition handle_grecpaccept :: "env \<Rightarrow> u8 \<Rightarrow> bytes \<Rightarrow> nat \<Rightarrow> int \<Rightarrow> sys \<Rightarrow> fault + sys" where
  "handle_grecpaccept w tuntype buf p sz s =
     bind_res (attr_loop accept_attribute buf p sz (haap (rt s)))
       (\<lambda>h. Inr (establish_tunnel w tuntype (set_haap (\<lambda>_. h) s)))"

definition handle_grecpdeny :: "u8 \<Rightarrow> bytes \<Rightarrow> nat \<Rightarrow> int \<Rightarrow> sys \<Rightarrow> fault + sys" where
  "handle_grecpdeny tuntype buf p sz s =
     bind_res (attr_loop error_code_attribute buf p sz 0) (\<lambda>errorcode. Inr s)"

definition handle_grecphello :: "env \<Rightarrow> u8 \<Rightarrow> bytes \<Rightarrow> nat \<Rightarrow> int \<Rightarrow> sys \<Rightarrow> fault + sys" where
  "handle_grecphello w tuntype buf p sz s = attr_loop (hello_attribute w tuntype) buf p sz s"

definition handle_grecpteardown :: "bytes \<Rightarrow> nat \<Rightarrow> int \<Rightarrow> sys \<Rightarrow> fault + sys" where
  "handle_grecpteardown buf p sz s =
     bind_res (attr_loop error_code_attribute buf p sz 0) (\<lambda>errorcode.
       Inr (set_dsl (tunnel_established_update (\<lambda>_. False))
             (set_lte (tunnel_established_update (\<lambda>_. False)) s)))"

definition handle_grecpnotify :: "u8 \<Rightarrow> bytes \<Rightarrow> nat \<Rightarrow> int \<Rightarrow> sys \<Rightarrow> fault + sys" where
  "handle_grecpnotify tuntype buf p sz s = attr_loop notify_attribute buf p sz s"

text \<open>
  The dispatcher looks at the first nine bytes of the array without asking whether that many
  were received; the handlers get \<open>size - 9\<close>, which is negative for a shorter packet.
\<close>

definition process_grecpmessage :: "env \<Rightarrow> bytes \<Rightarrow> int \<Rightarrow> sys \<Rightarrow> fault + sys" where
  "process_grecpmessage w buf sz s =
     (let mt = msgtype_and_tuntype buf; typ = drop_bit 4 mt; tun = mt AND 0x0f in
      if ntohs (greh_flags_and_version buf) \<noteq> GRECP_FLAGSANDVERSION then Inr s
      else if ntohl (greh_key buf) \<noteq> bonding_key (haap (rt s)) \<and> typ \<noteq> GRECP_MSGTYPE_ACCEPT then Inr s
      else if tun \<noteq> GRECP_TUNTYPE_LTE \<and> tun \<noteq> GRECP_TUNTYPE_DSL then Inr s
      else if typ = GRECP_MSGTYPE_ACCEPT then handle_grecpaccept w tun buf 9 (sz - 9) s
      else if typ = GRECP_MSGTYPE_DENY then handle_grecpdeny tun buf 9 (sz - 9) s
      else if typ = GRECP_MSGTYPE_HELLO then handle_grecphello w tun buf 9 (sz - 9) s
      else if typ = GRECP_MSGTYPE_TEARDOWN then handle_grecpteardown buf 9 (sz - 9) s
      else if typ = GRECP_MSGTYPE_NOTIFY then handle_grecpnotify tun buf 9 (sz - 9) s
      else Inr s)"

subsection \<open>The contract of a loop body\<close>

locale attribute_body =
  fixes body :: "bytes \<Rightarrow> grecpattr \<Rightarrow> 's \<Rightarrow> fault + 's"
    and inv :: "'s \<Rightarrow> bool"
    and slack :: nat
  assumes keeps: "inv s \<Longrightarrow> body buf a s = Inr s' \<Longrightarrow> inv s'"
    and reads_near: "attr_value a + unat (attr_length a) + slack \<le> length buf \<Longrightarrow>
      body buf a s \<noteq> Inl Out_Of_Bounds_Read"
begin

lemma loop_keeps:
  "inv s \<Longrightarrow> attr_loop body buf p sz s = Inr s' \<Longrightarrow> inv s'"
proof (induction buf p sz arbitrary: s rule: parse_attrs.induct)
  case (1 buf p sz)
  show ?case
  proof (cases "\<exists>a. read_grecpattribute buf p sz = Inr (Some a)")
    case True
    then obtain a where a: "read_grecpattribute buf p sz = Inr (Some a)" by blast
    with "1.prems"(2) obtain t where t: "body buf a s = Inr t"
      and rest: "attr_loop body buf (p + attr_bytes a) (sz - int (attr_bytes a)) t = Inr s'"
      by (auto simp: attr_loop.simps [of body buf p sz] bind_res_eq_Inr)
    show ?thesis
      by (rule "1.IH" [OF a refl keeps [OF "1.prems"(1) t] rest])
  next
    case False
    with "1.prems" show ?thesis
      by (auto simp: attr_loop.simps [of body buf p sz] split: sum.splits option.splits)
  qed
qed

lemma fold_reads:
  assumes "\<And>a. a \<in> set as \<Longrightarrow> attr_value a + unat (attr_length a) + slack \<le> length buf"
  shows "fold_res (body buf) as s \<noteq> Inl Out_Of_Bounds_Read"
  using assms
proof (induction as arbitrary: s)
  case (Cons a as)
  have "body buf a s \<noteq> Inl Out_Of_Bounds_Read" by (rule reads_near) (simp add: Cons.prems)
  then show ?case using Cons by (cases "body buf a s") auto
qed simp

lemma loop_reads:
  assumes "int p + sz + int slack \<le> int (length buf)"
  shows "attr_loop body buf p sz s \<noteq> Inl Out_Of_Bounds_Read"
proof (cases "0 < sz")
  case True
  have "attr_loop body buf p sz s = fold_res (body buf) (parse_attrs buf p sz) s"
    using assms by (intro attr_loop_eq_fold) simp
  moreover have "fold_res (body buf) (parse_attrs buf p sz) s \<noteq> Inl Out_Of_Bounds_Read"
    using assms True parse_attrs_within [of _ buf p sz] by (intro fold_reads) force
  ultimately show ?thesis by simp
qed simp

end

lemmas accept_simps = accept_attribute_def memcpy_u32_def Let_def bind_res_eq_Inr
  memcpy_into_eq_Inr

interpretation accept_frame: attribute_body accept_attribute
  "\<lambda>h. anycast_ip h = any \<and> commit_count h = cc" 0 for any cc
proof
  fix h a buf h'
  assume "anycast_ip h = any \<and> commit_count h = cc" and "accept_attribute buf a h = Inr h'"
  then show "anycast_ip h' = any \<and> commit_count h' = cc"
    by (auto simp: accept_simps split: if_splits)
qed (auto simp: accept_attribute_def Let_def memcpy_u32_def memcpy_into_def)

text \<open>What an accept message cannot change, and the size of the address it may set.\<close>

interpretation accept_body: attribute_body accept_attribute
  "\<lambda>h. anycast_ip h = any \<and> commit_count h = cc \<and> length (haap_ip h) = 16" 0 for any cc
proof
  fix h a buf h'
  assume "anycast_ip h = any \<and> commit_count h = cc \<and> length (haap_ip h) = 16"
    and "accept_attribute buf a h = Inr h'"
  then show "anycast_ip h' = any \<and> commit_count h' = cc \<and> length (haap_ip h') = 16"
    by (auto simp: accept_simps split: if_splits)
next
  fix a h and buf :: bytes
  show "accept_attribute buf a h \<noteq> Inl Out_Of_Bounds_Read"
    by (auto simp: accept_attribute_def Let_def memcpy_u32_def memcpy_into_def)
qed

interpretation error_code_body: attribute_body error_code_attribute "\<lambda>_. True" 4
  by unfold_locales (auto simp: error_code_attribute_def mem_read_def)

lemma wf_hello_received: "wf_sys s \<Longrightarrow> wf_sys (hello_received w t sec ms s)"
  by (simp add: hello_received_def get_uptime_eq Let_def wf_sys_def wf_runtime_def)

interpretation hello_body: attribute_body "hello_attribute w t" wf_sys 8 for w t
proof
  fix s a buf s'
  assume "wf_sys s" and "hello_attribute w t buf a s = Inr s'"
  then show "wf_sys s'"
    by (auto simp: hello_attribute_def bind_res_eq_Inr wf_hello_received split: if_splits)
next
  fix a :: grecpattr and s :: sys and buf :: bytes
  assume "attr_value a + unat (attr_length a) + 8 \<le> length buf"
  then have "mem_read buf (attr_value a) 4 = Inr (take 4 (drop (attr_value a) buf))"
    and "mem_read buf (attr_value a + 4) 4 = Inr (take 4 (drop (attr_value a + 4) buf))"
    by (simp_all add: mem_read_within)
  then show "hello_attribute w t buf a s \<noteq> Inl Out_Of_Bounds_Read"
    by (simp add: hello_attribute_def Let_def case_prod_beta del: drop_drop)
qed

interpretation notify_body: attribute_body notify_attribute wf_sys 4
proof
  fix s a buf s'
  assume "wf_sys s" and "notify_attribute buf a s = Inr s'"
  then show "wf_sys s'"
    by (auto simp: notify_attribute_def bind_res_eq_Inr wf_sys_def wf_runtime_def split: if_splits)
next
  fix a :: grecpattr and s :: sys and buf :: bytes
  assume "attr_value a + unat (attr_length a) + 4 \<le> length buf"
  then have "mem_read buf (attr_value a) 4 = Inr (take 4 (drop (attr_value a) buf))"
    by (simp add: mem_read_within)
  then show "notify_attribute buf a s \<noteq> Inl Out_Of_Bounds_Read"
    by (simp add: notify_attribute_def)
qed

subsection \<open>What each handler does\<close>

lemma wf_establish_tunnel: "wf_sys s \<Longrightarrow> wf_sys (establish_tunnel w t s)"
  by (simp add: establish_tunnel_def get_uptime_eq wf_sys_def wf_runtime_def)

lemma handle_grecpaccept_frame:
  assumes "handle_grecpaccept w t buf p sz s = Inr s'"
  shows "\<exists>h. s' = establish_tunnel w t (set_haap (\<lambda>_. h) s) \<and>
    anycast_ip h = anycast_ip (haap (rt s)) \<and> commit_count h = commit_count (haap (rt s)) \<and>
    (length (haap_ip (haap (rt s))) = 16 \<longrightarrow> length (haap_ip h) = 16)"
proof -
  from assms obtain h where h: "attr_loop accept_attribute buf p sz (haap (rt s)) = Inr h"
    and s': "s' = establish_tunnel w t (set_haap (\<lambda>_. h) s)"
    by (auto simp: handle_grecpaccept_def bind_res_eq_Inr)
  show ?thesis
    using s' accept_frame.loop_keeps [OF _ h] accept_body.loop_keeps [OF _ h]
    by (intro exI [of _ h]) auto
qed

lemma handle_grecpdeny_unchanged: "handle_grecpdeny t buf p sz s = Inr s' \<Longrightarrow> s' = s"
  by (auto simp: handle_grecpdeny_def bind_res_eq_Inr)

lemma handle_grecpteardown_result:
  "handle_grecpteardown buf p sz s = Inr s' \<Longrightarrow>
     s' = set_dsl (tunnel_established_update (\<lambda>_. False))
       (set_lte (tunnel_established_update (\<lambda>_. False)) s)"
  by (auto simp: handle_grecpteardown_def bind_res_eq_Inr)

end
