(* ===== verification/Timers.thy ===== *)
theory Timers
  imports Helpers Dhcp Tundev Handlers
begin

text \<open>
  \<open>execute_timers\<close> of \<open>openhybrid.c\<close>, one definition per section of the function, in its order.
  The sections that exist for both tunnels take the selector and the update of one
  tunnel of the runtime structure.
\<close>

subsection \<open>Addresses, connections, notifications\<close>

definition update_ips :: "env \<Rightarrow> sys \<Rightarrow> fault + sys" where
  "update_ips w s =
     bind_res (get_primary_ip6 w (interface_name (lte (rt s))) s) (\<lambda>(ip, s).
       let s = set_lte (interface_ip_update (\<lambda>_. ip)) s in
       if bonding (rt s)
       then bind_res (get_primary_ip6 w (interface_name (dsl (rt s))) s) (\<lambda>(ip, s).
              Inr (set_dsl (interface_ip_update (\<lambda>_. ip)) s))
       else Inr s)"

definition connect_tunnels :: "env \<Rightarrow> sys \<Rightarrow> sys" where
  "connect_tunnels w s =
     (if \<not> tunnel_established (lte (rt s)) then snd (send_grecprequest w GRECP_TUNTYPE_LTE s)
      else if bonding (rt s) \<and> \<not> tunnel_established (dsl (rt s))
      then snd (send_grecprequest w GRECP_TUNTYPE_DSL s)
      else s)"

definition ack_filter_list :: "env \<Rightarrow> sys \<Rightarrow> sys" where
  "ack_filter_list w s =
     (if tunnel_established (lte (rt s)) \<and> commit_count (haap (rt s)) > 0 \<and> \<not> filter_list_acked (rt s)
      then let (res, s) = send_grecpnotify_filterlistpackageack w 2 s
           in rt_update (filter_list_acked_update (\<lambda>_. res)) s
      else s)"

definition verify_tunnel :: "env \<Rightarrow> sys \<Rightarrow> sys" where
  "verify_tunnel w s =
     (if tunnel_established (lte (rt s)) \<and> tunnel_verification_required (lte (rt s))
      then let (res, s) = send_grecpnotify_tunnelverify w s
           in set_lte (tunnel_verification_required_update (\<lambda>_. \<not> res)) s
      else s)"

subsection \<open>Hellos\<close>

text \<open>The clock is only read for an established tunnel. \<open>missed_hellos\<close> is a byte.\<close>

definition hello_due :: "int \<Rightarrow> u32 \<Rightarrow> int \<Rightarrow> bool" where
  "hello_due sent interval now \<longleftrightarrow> sent < now - uint interval"

definition hello_timer ::
  "(runtime \<Rightarrow> 'a tunnel_scheme) \<Rightarrow> (('a tunnel_scheme \<Rightarrow> 'a tunnel_scheme) \<Rightarrow> runtime \<Rightarrow> runtime) \<Rightarrow>
   u8 \<Rightarrow> env \<Rightarrow> sys \<Rightarrow> sys" where
  "hello_timer sel upd tuntype w s =
     (if tunnel_established (sel (rt s)) then
        let (t, s) = get_uptime w s
        in if hello_due (last_hello_sent (sel (rt s))) (active_hello_interval (haap (rt s))) (tv_sec t) then
             let s = (if last_hello_received (sel (rt s)) \<noteq> last_hello_sent (sel (rt s))
                      then rt_update (upd (missed_hellos_update (\<lambda>m. m + 1))) s else s)
             in snd (send_grecphello w tuntype s)
           else s
      else s)"

definition hello_verification ::
  "(runtime \<Rightarrow> 'a tunnel_scheme) \<Rightarrow> (('a tunnel_scheme \<Rightarrow> 'a tunnel_scheme) \<Rightarrow> runtime \<Rightarrow> runtime) \<Rightarrow>
   sys \<Rightarrow> sys" where
  "hello_verification sel upd s =
     (if tunnel_established (sel (rt s)) \<and>
         unat (missed_hellos (sel (rt s))) \<ge> unat (hello_retry_times (haap (rt s)))
      then rt_update (upd (tunnel_established_update (\<lambda>_. False))) s
      else s)"

definition bypass_timer :: "env \<Rightarrow> sys \<Rightarrow> sys" where
  "bypass_timer w s =
     (if tunnel_established (dsl (rt s)) then
        let (t, s) = get_uptime w s
        in if last_bypass_traffic_sent (dsl (rt s)) <
              tv_sec t - uint (bypass_bandwidth_check_interval (haap (rt s)))
           then snd (send_grecpnotify_bypasstraffic w 1000 s)
           else s
      else s)"

subsection \<open>Resets\<close>

definition reset_lte :: "sys \<Rightarrow> sys" where
  "reset_lte s =
     (if \<not> tunnel_established (lte (rt s)) \<and> tunnel_interface_created (rt s)
      then set_lte (\<lambda>t. t\<lparr>tunnel_established := False, missed_hellos := 0, last_hello_sent := 0,
             last_hello_received := 0, tunnel_verification_required := False\<rparr>) s
      else s)"

definition reset_dsl :: "sys \<Rightarrow> sys" where
  "reset_dsl s =
     (if \<not> tunnel_established (dsl (rt s)) \<and> tunnel_interface_created (rt s)
      then set_dsl (\<lambda>t. t\<lparr>tunnel_established := False, missed_hellos := 0, last_hello_sent := 0,
             last_hello_received := 0, last_bypass_traffic_sent := 0\<rparr>) s
      else s)"

text \<open>Both tests of a lease look at \<open>runtime.dhcp.lease_time\<close>, the second one after it was cleared.\<close>

definition reset_dhcp :: "env \<Rightarrow> sys \<Rightarrow> sys" where
  "reset_dhcp w s =
     (let s = (if udhcpc_pid (dhcp (rt s)) \<noteq> 0
               then set_dhcp (udhcpc_pid_update (\<lambda>_. 0)) (snd (kill_udhcpc w s))
               else if dhcp_lease_time (dhcp (rt s)) \<noteq> 0 then trigger_event w ''dhcpdown_ip'' s
               else s)
      in set_dhcp (\<lambda>d. d\<lparr>dhcp_ip := inaddr_any, dhcp_lease_time := 0, dhcp_lease_obtained := 0\<rparr>) s)"

definition reset_dhcp6 :: "env \<Rightarrow> sys \<Rightarrow> sys" where
  "reset_dhcp6 w s =
     (let s = (if udhcpc6_pid (dhcp6 (rt s)) \<noteq> 0
               then set_dhcp6 (udhcpc6_pid_update (\<lambda>_. 0)) (snd (kill_udhcpc6 w s))
               else if dhcp_lease_time (dhcp (rt s)) \<noteq> 0 then trigger_event w ''dhcpdown_ip6'' s
               else s)
      in set_dhcp6 (\<lambda>d. d\<lparr>prefix_address := in6addr_any, prefix_length := 0, dhcp6_lease_time := 0,
           dhcp6_lease_obtained := 0\<rparr>) s)"

definition reset_session :: "env \<Rightarrow> sys \<Rightarrow> sys" where
  "reset_session w s =
     (if \<not> tunnel_established (lte (rt s)) \<and> \<not> tunnel_established (dsl (rt s)) then
        let s = set_haap (\<lambda>h. h\<lparr>haap_ip := anycast_ip h, bonding_key := 0, session_id := 0,
                  commit_count := 0\<rparr>) s;
            s = rt_update (filter_list_acked_update (\<lambda>_. False)) s
        in reset_dhcp6 w (reset_dhcp w s)
      else s)"

subsection \<open>Tunnel device and threads\<close>

definition tunnel_device :: "env \<Rightarrow> sys \<Rightarrow> sys" where
  "tunnel_device w s =
     (if (tunnel_established (lte (rt s)) \<or> tunnel_established (dsl (rt s))) \<and>
         \<not> tunnel_interface_created (rt s)
      then let (res, s) = create_tunnel_dev w s
           in rt_update (tunnel_interface_created_update (\<lambda>_. res)) s
      else if \<not> tunnel_established (lte (rt s)) \<and> \<not> tunnel_established (dsl (rt s)) \<and>
         tunnel_interface_created (rt s)
      then let (res, s) = destroy_tunnel_dev w s
           in rt_update (tunnel_interface_created_update (\<lambda>_. \<not> res)) s
      else s)"

definition start_threads :: "env \<Rightarrow> sys \<Rightarrow> fault + sys" where
  "start_threads w s =
     (if bonding (rt s) \<and> tunnel_interface_created (rt s) then
        bind_res (if sockfd_gre s = 0 then open_gre_socket w s else Inr s) (\<lambda>s.
          let s = (if gre2tun_thread (rt s) = 0
                   then let (tid, s) = ask_int w s
                        in emit (Create_Thread ''gre2tun'') (rt_update (gre2tun_thread_update (\<lambda>_. tid)) s)
                   else s);
              s = (if tun2gre_thread (rt s) = 0
                   then let (tid, s) = ask_int w s
                        in emit (Create_Thread ''tun2gre'') (rt_update (tun2gre_thread_update (\<lambda>_. tid)) s)
                   else s)
          in Inr s)
      else Inr s)"

definition cancel_threads :: "sys \<Rightarrow> sys" where
  "cancel_threads s =
     (let s = (if gre2tun_thread (rt s) \<noteq> 0 then emit (Cancel_Thread (gre2tun_thread (rt s))) s else s);
          s = (if tun2gre_thread (rt s) \<noteq> 0 then emit (Cancel_Thread (tun2gre_thread (rt s))) s else s)
      in if sockfd_gre s \<noteq> 0 then close_gre_socket s else s)"

definition stop_threads :: "sys \<Rightarrow> sys" where
  "stop_threads s =
     (if bonding (rt s) \<and> \<not> tunnel_interface_created (rt s) then cancel_threads s else s)"

subsection \<open>DHCP clients and leases\<close>

text \<open>
  \<open>status\<close> is what the variable holds after \<open>waitpid\<close>, whether or not the call wrote it: the return
  value is not looked at. \<open>WIFEXITED\<close> tests the low seven bits.
\<close>

definition wifexited :: "int \<Rightarrow> bool" where
  "wifexited status \<longleftrightarrow> status mod 128 = 0"

definition start_dhcp_client :: "env \<Rightarrow> sys \<Rightarrow> sys" where
  "start_dhcp_client w s =
     (if tunnel_interface_created (rt s) \<and> dhcp_lease_time (dhcp (rt s)) = 0 \<and>
         udhcpc_pid (dhcp (rt s)) = 0
      then let (pid, s) = start_udhcpc w s in set_dhcp (udhcpc_pid_update (\<lambda>_. pid)) s
      else s)"

definition reap_dhcp_client :: "env \<Rightarrow> sys \<Rightarrow> sys" where
  "reap_dhcp_client w s =
     (if udhcpc_pid (dhcp (rt s)) \<noteq> 0
      then let (status, s) = ask_status w s
           in if wifexited status
              then process_udhcpc_output w (set_dhcp (udhcpc_pid_update (\<lambda>_. 0)) s)
              else s
      else s)"

definition dhcp_client :: "env \<Rightarrow> sys \<Rightarrow> sys" where
  "dhcp_client w s = reap_dhcp_client w (start_dhcp_client w s)"

definition start_dhcp6_client :: "env \<Rightarrow> sys \<Rightarrow> sys" where
  "start_dhcp6_client w s =
     (if tunnel_interface_created (rt s) \<and> dhcp6_lease_time (dhcp6 (rt s)) = 0 \<and>
         udhcpc6_pid (dhcp6 (rt s)) = 0
      then let (pid, s) = start_udhcpc6 w s in set_dhcp6 (udhcpc6_pid_update (\<lambda>_. pid)) s
      else s)"

definition reap_dhcp6_client :: "env \<Rightarrow> sys \<Rightarrow> sys" where
  "reap_dhcp6_client w s =
     (if udhcpc6_pid (dhcp6 (rt s)) \<noteq> 0
      then let (status, s) = ask_status w s
           in if wifexited status
              then process_udhcpc6_output w (set_dhcp6 (udhcpc6_pid_update (\<lambda>_. 0)) s)
              else s
      else s)"

definition dhcp6_client :: "env \<Rightarrow> sys \<Rightarrow> sys" where
  "dhcp6_client w s = reap_dhcp6_client w (start_dhcp6_client w s)"

definition lease_expiry :: "env \<Rightarrow> sys \<Rightarrow> sys" where
  "lease_expiry w s =
     (if dhcp_lease_time (dhcp (rt s)) \<noteq> 0 then
        let (t, s) = get_uptime w s
        in if dhcp_lease_obtained (dhcp (rt s)) + uint (dhcp_lease_time (dhcp (rt s))) \<le> tv_sec t
           then set_dhcp (\<lambda>d. d\<lparr>dhcp_ip := inaddr_any, dhcp_lease_time := 0, dhcp_lease_obtained := 0\<rparr>)
                  (trigger_event w ''dhcpdown_ip'' s)
           else s
      else s)"

text \<open>The expiry of the prefix clears the fields of the IPv4 lease, as in the source.\<close>

definition lease6_expiry :: "env \<Rightarrow> sys \<Rightarrow> sys" where
  "lease6_expiry w s =
     (if dhcp6_lease_time (dhcp6 (rt s)) \<noteq> 0 then
        let (t, s) = get_uptime w s
        in if dhcp6_lease_obtained (dhcp6 (rt s)) + uint (dhcp6_lease_time (dhcp6 (rt s))) \<le> tv_sec t
           then set_dhcp (\<lambda>d. d\<lparr>dhcp_ip := inaddr_any, dhcp_lease_time := 0, dhcp_lease_obtained := 0\<rparr>)
                  (trigger_event w ''dhcpdown_ip6'' s)
           else s
      else s)"

subsection \<open>Signals\<close>

abbreviation close_grecp_socket :: "sys \<Rightarrow> sys" where
  "close_grecp_socket \<equiv> emit Close_Grecp_Socket"

abbreviation (input) SIGINT :: int where "SIGINT \<equiv> 2"
abbreviation (input) SIGTERM :: int where "SIGTERM \<equiv> 15"

definition shutdown :: "env \<Rightarrow> sys \<Rightarrow> sys" where
  "shutdown w s =
     (let s = (if udhcpc_pid (dhcp (rt s)) \<noteq> 0 then snd (kill_udhcpc w s) else s);
          s = (if udhcpc6_pid (dhcp6 (rt s)) \<noteq> 0 then snd (kill_udhcpc6 w s) else s);
          s = (if dhcp_lease_time (dhcp (rt s)) \<noteq> 0 then trigger_event w ''dhcpdown_ip'' s else s);
          s = (if dhcp6_lease_time (dhcp6 (rt s)) \<noteq> 0 then trigger_event w ''dhcpdown_ip6'' s else s);
          s = (if bonding (rt s) then cancel_threads s else s);
          s = (if tunnel_interface_created (rt s) then snd (destroy_tunnel_dev w s) else s);
          s = (if tunnel_established (lte (rt s)) \<and> tunnel_established (dsl (rt s))
               then snd (send_grecpnotify_linkfailure w GRECP_TUNTYPE_DSL
                      (snd (send_grecpnotify_linkfailure w GRECP_TUNTYPE_LTE s)))
               else s);
          s = close_grecp_socket s;
          s = snd (delete_dhcp_script w s);
          s = trigger_event w ''shutdown'' s
      in s\<lparr>exited := Some 0\<rparr>)"

definition handle_pending_signal :: "env \<Rightarrow> sys \<Rightarrow> sys" where
  "handle_pending_signal w s =
     (if runtime.signal (rt s) \<noteq> 0 then
        (if runtime.signal (rt s) \<in> {SIGINT, SIGTERM} then shutdown w s
         else rt_update (signal_update (\<lambda>_. 0)) s)
      else s)"

subsection \<open>All timers\<close>

definition execute_timers :: "env \<Rightarrow> sys \<Rightarrow> fault + sys" where
  "execute_timers w s =
     bind_res (update_ips w s) (\<lambda>s.
       let s = connect_tunnels w s;
           s = ack_filter_list w s;
           s = verify_tunnel w s;
           s = hello_timer lte lte_update GRECP_TUNTYPE_LTE w s;
           s = hello_timer dsl dsl_update GRECP_TUNTYPE_DSL w s;
           s = hello_verification lte lte_update s;
           s = hello_verification dsl dsl_update s;
           s = bypass_timer w s;
           s = reset_lte s;
           s = reset_dsl s;
           s = reset_session w s;
           s = tunnel_device w s
       in bind_res (start_threads w s) (\<lambda>s.
            let s = stop_threads s;
                s = dhcp_client w s;
                s = dhcp6_client w s;
                s = lease_expiry w s;
                s = lease6_expiry w s
            in Inr (handle_pending_signal w s)))"

end
