(* ===== verification/Timer_Invariants.thy ===== *)
theory Timer_Invariants
  imports Timers
begin

text \<open>
  What the timers keep. The locale \<open>timer_invariant\<close> is the contract of a property of the runtime
  structure towards the updates that the timers make; inside it every section and then the whole of
  \<open>execute_timers\<close> is shown to keep the property. Its interpretations are the invariants
  of the main loop.
\<close>

subsection \<open>The updates a section makes\<close>

definition keeps_identity :: "('a tunnel_scheme \<Rightarrow> 'a tunnel_scheme) \<Rightarrow> bool" where
  "keeps_identity f \<longleftrightarrow> (\<forall>t. interface_name (f t) = interface_name t \<and> interface_ip (f t) = interface_ip t)"

definition keeps_anycast :: "(haap \<Rightarrow> haap) \<Rightarrow> bool" where
  "keeps_anycast f \<longleftrightarrow> (\<forall>h. anycast_ip (f h) = anycast_ip h \<and> haap_ip (f h) \<in> {haap_ip h, anycast_ip h})"

lemma keeps_identity_id [simp]: "keeps_identity id"
  by (simp add: keeps_identity_def)

lemma update_id [simp]: "lte_update id r = r" "dsl_update id r = r" "lte_update (\<lambda>t. t) r = r"
    "dsl_update (\<lambda>t. t) r = r"
  by (simp_all add: id_def)

lemma rt_hello_timer_lte:
  "\<exists>f. rt (hello_timer lte lte_update GRECP_TUNTYPE_LTE w s) = lte_update f (rt s) \<and> keeps_identity f"
proof (cases "tunnel_established (lte (rt s)) \<and> hello_due (last_hello_sent (lte (rt s)))
    (active_hello_interval (haap (rt s))) (fst (env_clock w (tick s)))")
  case False
  then have "rt (hello_timer lte lte_update GRECP_TUNTYPE_LTE w s) = rt s"
    by (auto simp: hello_timer_def get_uptime_eq Let_def)
  then show ?thesis by (intro exI [of _ id]) simp
next
  case True
  show ?thesis
  proof (cases "last_hello_received (lte (rt s)) = last_hello_sent (lte (rt s))")
    case same: True
    from True show ?thesis
      by (simp add: hello_timer_def get_uptime_eq Let_def same rt_send_grecphello)
        (rule exI, rule conjI [OF refl], simp add: keeps_identity_def)
  next
    case other: False
    from True show ?thesis
      by (simp add: hello_timer_def get_uptime_eq Let_def other rt_send_grecphello)
        (rule exI, rule conjI [OF refl], simp add: keeps_identity_def)
  qed
qed

lemma rt_hello_timer_dsl:
  "\<exists>f. rt (hello_timer dsl dsl_update GRECP_TUNTYPE_DSL w s) = dsl_update f (rt s) \<and> keeps_identity f"
proof (cases "tunnel_established (dsl (rt s)) \<and> hello_due (last_hello_sent (dsl (rt s)))
    (active_hello_interval (haap (rt s))) (fst (env_clock w (tick s)))")
  case False
  then have "rt (hello_timer dsl dsl_update GRECP_TUNTYPE_DSL w s) = rt s"
    by (auto simp: hello_timer_def get_uptime_eq Let_def)
  then show ?thesis by (intro exI [of _ id]) simp
next
  case True
  show ?thesis
  proof (cases "last_hello_received (dsl (rt s)) = last_hello_sent (dsl (rt s))")
    case same: True
    from True show ?thesis
      by (simp add: hello_timer_def get_uptime_eq Let_def same rt_send_grecphello)
        (rule exI, rule conjI [OF refl], simp add: keeps_identity_def)
  next
    case other: False
    from True show ?thesis
      by (simp add: hello_timer_def get_uptime_eq Let_def other rt_send_grecphello)
        (rule exI, rule conjI [OF refl], simp add: keeps_identity_def)
  qed
qed

lemma rt_bypass_timer: "\<exists>f. rt (bypass_timer w s) = dsl_update f (rt s) \<and> keeps_identity f"
proof (cases "tunnel_established (dsl (rt s)) \<and> last_bypass_traffic_sent (dsl (rt s)) <
    fst (env_clock w (tick s)) - uint (bypass_bandwidth_check_interval (haap (rt s)))")
  case False
  then have "rt (bypass_timer w s) = rt s"
    by (auto simp: bypass_timer_def get_uptime_eq Let_def)
  then show ?thesis by (intro exI [of _ id]) simp
next
  case True
  obtain t where "rt (snd (send_grecpnotify_bypasstraffic w 1000 (s\<lparr>tick := Suc (tick s)\<rparr>))) =
      dsl_update (last_bypass_traffic_sent_update (\<lambda>_. t)) (rt s)"
    using rt_send_bypass [of w 1000 "s\<lparr>tick := Suc (tick s)\<rparr>"] by auto
  with True show ?thesis
    by (intro exI [of _ "last_bypass_traffic_sent_update (\<lambda>_. t)"])
      (simp add: bypass_timer_def get_uptime_eq Let_def keeps_identity_def)
qed

lemma rt_open_gre_socket: "open_gre_socket w s = Inr s' \<Longrightarrow> rt s' = rt s"
  by (rule open_gre_socket_rt)

lemma rt_cancel_threads [simp]: "rt (cancel_threads s) = rt s"
  by (simp add: cancel_threads_def Let_def)

lemma rt_stop_threads [simp]: "rt (stop_threads s) = rt s"
  by (simp add: stop_threads_def)

lemma rt_shutdown [simp]: "rt (shutdown w s) = rt s"
  by (simp add: shutdown_def Let_def)

subsection \<open>The sections in a row\<close>

definition tunnel_sections :: "env \<Rightarrow> sys \<Rightarrow> sys" where
  "tunnel_sections w s =
     reset_session w (reset_dsl (reset_lte (bypass_timer w
       (hello_verification dsl dsl_update (hello_verification lte lte_update
         (hello_timer dsl dsl_update GRECP_TUNTYPE_DSL w (hello_timer lte lte_update GRECP_TUNTYPE_LTE w
           (verify_tunnel w (ack_filter_list w (connect_tunnels w s))))))))))"

definition after_threads :: "env \<Rightarrow> sys \<Rightarrow> sys" where
  "after_threads w s =
     lease6_expiry w (lease_expiry w (dhcp6_client w (dhcp_client w (stop_threads s))))"

lemma execute_timers_sections:
  "execute_timers w s =
     bind_res (update_ips w s) (\<lambda>s. bind_res (start_threads w (tunnel_device w (tunnel_sections w s)))
       (\<lambda>s. Inr (handle_pending_signal w (after_threads w s))))"
  by (simp add: execute_timers_def tunnel_sections_def after_threads_def Let_def)

lemma execute_timersE:
  assumes "execute_timers w s = Inr s'"
  obtains s1 s2 where "update_ips w s = Inr s1"
    and "start_threads w (tunnel_device w (tunnel_sections w s1)) = Inr s2"
    and "s' = handle_pending_signal w (after_threads w s2)"
  using assms by (auto simp: execute_timers_sections bind_res_eq_Inr)

subsection \<open>The contract of an invariant\<close>

text \<open>
  The sections behind the tunnel structures only touch the device flag, the thread handles, the
  signal and the DHCP data; \<open>late_invariant\<close> is what an invariant owes them. A \<open>timer_invariant\<close>
  also has to survive the changes to the tunnels and to the server record.
\<close>

locale late_invariant =
  fixes inv :: "runtime \<Rightarrow> bool"
  assumes created: "inv r \<Longrightarrow> inv (tunnel_interface_created_update (\<lambda>_. b) r)"
    and threads: "inv r \<Longrightarrow> inv (gre2tun_thread_update (\<lambda>_. i) r)"
      "inv r \<Longrightarrow> inv (tun2gre_thread_update (\<lambda>_. i) r)"
    and signalled: "inv r \<Longrightarrow> inv (signal_update (\<lambda>_. i) r)"
    and dhcp4: "inv r \<Longrightarrow> (length (dhcp_ip (dhcp r)) = 4 \<Longrightarrow> length (dhcp_ip (d (dhcp r))) = 4) \<Longrightarrow>
      inv (dhcp_update d r)"
    and dhcp6: "inv r \<Longrightarrow> (length (prefix_address (dhcp6 r)) = 16 \<Longrightarrow>
      length (prefix_address (d6 (dhcp6 r))) = 16) \<Longrightarrow> inv (dhcp6_update d6 r)"
begin

lemma reset_dhcp_keeps: "inv (rt s) \<Longrightarrow> inv (rt (reset_dhcp w s))"
  by (simp add: reset_dhcp_def Let_def inaddr_any_def dhcp4)

lemma reset_dhcp6_keeps: "inv (rt s) \<Longrightarrow> inv (rt (reset_dhcp6 w s))"
  by (simp add: reset_dhcp6_def Let_def in6addr_any_def dhcp6)

lemma tunnel_device_keeps: "inv (rt s) \<Longrightarrow> inv (rt (tunnel_device w s))"
  by (auto simp: tunnel_device_def Let_def case_prod_beta intro!: created)

lemma start_threads_keeps: "inv (rt s) \<Longrightarrow> start_threads w s = Inr s' \<Longrightarrow> inv (rt s')"
  by (auto simp: start_threads_def Let_def case_prod_beta bind_res_eq_Inr split: if_splits
      dest!: rt_open_gre_socket intro!: threads)

lemma dhcp_client_keeps:
  assumes "inv (rt s)"
  shows "inv (rt (dhcp_client w s))"
proof -
  have out: "inv (rt (process_udhcpc_output w t))" if "inv (rt t)" for t
    using process_udhcpc_output_frame [of w t] that by (auto intro!: dhcp4)
  have set: "inv (dhcp_update (udhcpc_pid_update (\<lambda>_. i)) r)" if "inv r" for r i
    using that by (simp add: dhcp4)
  have "inv (rt (start_dhcp_client w s))"
    using assms by (simp add: start_dhcp_client_def Let_def case_prod_beta set)
  moreover have "inv (rt (reap_dhcp_client w t))" if "inv (rt t)" for t
    unfolding reap_dhcp_client_def Let_def case_prod_beta using that by (auto intro!: out set)
  ultimately show ?thesis by (simp add: dhcp_client_def)
qed

lemma dhcp6_client_keeps:
  assumes "inv (rt s)"
  shows "inv (rt (dhcp6_client w s))"
proof -
  have out: "inv (rt (process_udhcpc6_output w t))" if "inv (rt t)" for t
    using process_udhcpc6_output_frame [of w t] that by (auto intro!: dhcp6)
  have set: "inv (dhcp6_update (udhcpc6_pid_update (\<lambda>_. i)) r)" if "inv r" for r i
    using that by (simp add: dhcp6)
  have "inv (rt (start_dhcp6_client w s))"
    using assms by (simp add: start_dhcp6_client_def Let_def case_prod_beta set)
  moreover have "inv (rt (reap_dhcp6_client w t))" if "inv (rt t)" for t
    unfolding reap_dhcp6_client_def Let_def case_prod_beta using that by (auto intro!: out set)
  ultimately show ?thesis by (simp add: dhcp6_client_def)
qed

lemma leases_keep:
  assumes "inv (rt s)"
  shows "inv (rt (lease_expiry w s))" "inv (rt (lease6_expiry w s))"
  using assms by (simp_all add: lease_expiry_def lease6_expiry_def get_uptime_eq Let_def inaddr_any_def dhcp4)

lemma signal_keeps: "inv (rt s) \<Longrightarrow> inv (rt (handle_pending_signal w s))"
  by (simp add: handle_pending_signal_def signalled)

lemma after_threads_keeps: "inv (rt s) \<Longrightarrow> inv (rt (after_threads w s))"
  unfolding after_threads_def by (intro leases_keep dhcp6_client_keeps dhcp_client_keeps) simp

lemma final_sections_keep:
  assumes "inv (rt s)" and "start_threads w (tunnel_device w s) = Inr s'"
  shows "inv (rt (handle_pending_signal w (after_threads w s')))"
  using start_threads_keeps [OF tunnel_device_keeps [OF assms(1)] assms(2)]
  by (intro signal_keeps after_threads_keeps)

end

locale timer_invariant = late_invariant inv
  for inv :: "runtime \<Rightarrow> bool" +
  assumes lte_ip: "inv r \<Longrightarrow> length a = 16 \<Longrightarrow> inv (lte_update (interface_ip_update (\<lambda>_. a)) r)"
    and dsl_ip: "inv r \<Longrightarrow> length a = 16 \<Longrightarrow> inv (dsl_update (interface_ip_update (\<lambda>_. a)) r)"
    and lte_other: "inv r \<Longrightarrow> keeps_identity f \<Longrightarrow> inv (lte_update f r)"
    and dsl_other: "inv r \<Longrightarrow> keeps_identity g \<Longrightarrow> inv (dsl_update g r)"
    and haap_other: "inv r \<Longrightarrow> keeps_anycast h \<Longrightarrow> inv (haap_update h r)"
    and acked: "inv r \<Longrightarrow> inv (filter_list_acked_update (\<lambda>_. b) r)"
begin

lemma update_ips_keeps:
  assumes "inv (rt s)" and "update_ips w s = Inr s'"
  shows "inv (rt s')"
proof -
  let ?set = "\<lambda>ip s. set_lte (interface_ip_update (\<lambda>_. ip)) s"
  obtain ip s1 where g1: "get_primary_ip6 w (interface_name (lte (rt s))) s = Inr (ip, s1)"
    and rest: "(if bonding (rt (?set ip s1))
       then bind_res (get_primary_ip6 w (interface_name (dsl (rt (?set ip s1)))) (?set ip s1))
         (\<lambda>(ip, s). Inr (set_dsl (interface_ip_update (\<lambda>_. ip)) s))
       else Inr (?set ip s1)) = Inr s'"
    using assms(2) unfolding update_ips_def bind_res_eq_Inr Let_def by auto
  have one: "inv (rt (?set ip s1))"
    using get_primary_ip6_frame [OF g1] lte_ip [OF assms(1)] by simp
  show ?thesis
  proof (cases "bonding (rt (?set ip s1))")
    case True
    with rest obtain ip2 s2 where g2: "get_primary_ip6 w (interface_name (dsl (rt (?set ip s1)))) (?set ip s1) =
        Inr (ip2, s2)" and s': "s' = set_dsl (interface_ip_update (\<lambda>_. ip2)) s2"
      by (auto simp: bind_res_eq_Inr)
    show ?thesis using get_primary_ip6_frame [OF g2] dsl_ip [OF one] s' by simp
  next
    case False
    with rest have "s' = ?set ip s1" by simp
    with one show ?thesis by simp
  qed
qed

lemma sends_keep:
  assumes "inv (rt s)"
  shows "inv (rt (connect_tunnels w s))" "inv (rt (ack_filter_list w s))" "inv (rt (verify_tunnel w s))"
  using assms
  by (auto simp: connect_tunnels_def ack_filter_list_def verify_tunnel_def Let_def case_prod_beta
      keeps_identity_def intro!: acked lte_other)

lemma hellos_keep:
  assumes "inv (rt s)"
  shows "inv (rt (hello_timer lte lte_update GRECP_TUNTYPE_LTE w s))"
    "inv (rt (hello_timer dsl dsl_update GRECP_TUNTYPE_DSL w s))"
    "inv (rt (hello_verification lte lte_update s))" "inv (rt (hello_verification dsl dsl_update s))"
    "inv (rt (bypass_timer w s))"
proof -
  show "inv (rt (hello_timer lte lte_update GRECP_TUNTYPE_LTE w s))"
    using rt_hello_timer_lte [of w s] lte_other [OF assms] by metis
  show "inv (rt (hello_timer dsl dsl_update GRECP_TUNTYPE_DSL w s))"
    using rt_hello_timer_dsl [of w s] dsl_other [OF assms] by metis
  show "inv (rt (bypass_timer w s))"
    using rt_bypass_timer [of w s] dsl_other [OF assms] by metis
  show "inv (rt (hello_verification lte lte_update s))" "inv (rt (hello_verification dsl dsl_update s))"
    using assms by (auto simp: hello_verification_def keeps_identity_def intro!: lte_other dsl_other)
qed

lemma resets_keep:
  assumes "inv (rt s)"
  shows "inv (rt (reset_lte s))" "inv (rt (reset_dsl s))"
  using assms by (auto simp: reset_lte_def reset_dsl_def keeps_identity_def intro!: lte_other dsl_other)

lemma reset_session_keeps: "inv (rt s) \<Longrightarrow> inv (rt (reset_session w s))"
  by (auto simp: reset_session_def Let_def keeps_anycast_def
      intro!: reset_dhcp_keeps reset_dhcp6_keeps acked haap_other)

lemma execute_timers_keeps:
  assumes "inv (rt s)" and "execute_timers w s = Inr s'"
  shows "inv (rt s')"
proof -
  obtain s1 s2 where s1: "update_ips w s = Inr s1"
    and s2: "start_threads w (tunnel_device w (tunnel_sections w s1)) = Inr s2"
    and s': "s' = handle_pending_signal w (after_threads w s2)"
    using execute_timersE [OF assms(2)] .
  have "inv (rt s1)" by (rule update_ips_keeps [OF assms(1) s1])
  then have "inv (rt (tunnel_sections w s1))"
    unfolding tunnel_sections_def by (intro reset_session_keeps resets_keep hellos_keep sends_keep)
  then show ?thesis unfolding s' using s2 by (rule final_sections_keep)
qed

end

subsection \<open>Its instances\<close>

interpretation wf_timers: timer_invariant wf_runtime
proof unfold_locales
  show "wf_runtime (haap_update h r)" if "wf_runtime r" "keeps_anycast h" for r h
  proof -
    have "anycast_ip (h (haap r)) = anycast_ip (haap r)"
      "haap_ip (h (haap r)) = haap_ip (haap r) \<or> haap_ip (h (haap r)) = anycast_ip (haap r)"
      using that(2) by (auto simp: keeps_anycast_def)
    with that(1) show ?thesis by (auto simp: wf_runtime_def)
  qed
qed (auto simp: wf_runtime_def keeps_identity_def)

interpretation names_timers: timer_invariant names_fit
  by unfold_locales (auto simp: names_fit_def keeps_identity_def)

text \<open>What the configuration fixed once and for all.\<close>

definition configured :: "runtime \<Rightarrow> runtime \<Rightarrow> bool" where
  "configured r0 r \<longleftrightarrow> bonding r = bonding r0 \<and> tunnel_interface_mtu r = tunnel_interface_mtu r0 \<and>
     tunnel_interface_name r = tunnel_interface_name r0 \<and> log_level r = log_level r0 \<and>
     event_script_path r = event_script_path r0 \<and> reorder_buffer_timeout r = reorder_buffer_timeout r0 \<and>
     anycast_ip (haap r) = anycast_ip (haap r0) \<and>
     interface_name (lte r) = interface_name (lte r0) \<and> interface_name (dsl r) = interface_name (dsl r0)"

interpretation configured_timers: timer_invariant "configured r0" for r0
  by unfold_locales (auto simp: configured_def keeps_identity_def keeps_anycast_def)

text \<open>The later sections change neither the tunnels nor the session.\<close>

interpretation session_late: late_invariant
    "\<lambda>r. lte r = l \<and> dsl r = d \<and> haap r = h \<and> filter_list_acked r = a \<and> bonding r = b" for l d h a b
  by unfold_locales auto

lemma session_after_timers:
  assumes "start_threads w (tunnel_device w s) = Inr s'"
  shows "lte (rt (handle_pending_signal w (after_threads w s'))) = lte (rt s)"
    "dsl (rt (handle_pending_signal w (after_threads w s'))) = dsl (rt s)"
    "haap (rt (handle_pending_signal w (after_threads w s'))) = haap (rt s)"
    "filter_list_acked (rt (handle_pending_signal w (after_threads w s'))) = filter_list_acked (rt s)"
  using session_late.final_sections_keep [OF _ assms, of "lte (rt s)" "dsl (rt s)" "haap (rt s)"
      "filter_list_acked (rt s)" "bonding (rt s)"] by simp_all

end
