(* ===== verification/Sessions.thy ===== *)
theory Sessions
  imports Timer_Invariants
begin

text \<open>
  What the timers do to the tunnels and to the session. The locale \<open>hello_slot\<close> extends the
  interface of one tunnel by the hello message that is sent for it; the life and death of a tunnel
  under unanswered hellos is proved in it once for both tunnels.
\<close>

subsection \<open>The hellos of one tunnel\<close>

definition hello_stamp :: "env \<Rightarrow> nat \<Rightarrow> int" where
  "hello_stamp w k = uint (word_of_int (fst (env_clock w k)) :: u32)"

text \<open>What a round does to the hello data of a tunnel, given the reading of the clock and the stamp.\<close>

definition hello_round :: "u32 \<Rightarrow> u32 \<Rightarrow> int \<Rightarrow> int \<Rightarrow> 'a tunnel_scheme \<Rightarrow> 'a tunnel_scheme" where
  "hello_round interval retry now stamp t =
     (let t = (if tunnel_established t \<and> hello_due (last_hello_sent t) interval now
               then last_hello_sent_update (\<lambda>_. stamp)
                 (missed_hellos_update (\<lambda>m. if last_hello_received t \<noteq> last_hello_sent t then m + 1 else m) t)
               else t)
      in tunnel_established_update (\<lambda>e. e \<and> unat (missed_hellos t) < unat retry) t)"

locale hello_slot = tunnel_slot sel upd
  for sel :: "runtime \<Rightarrow> 'a tunnel_scheme"
    and upd :: "('a tunnel_scheme \<Rightarrow> 'a tunnel_scheme) \<Rightarrow> runtime \<Rightarrow> runtime" +
  fixes tuntype :: u8
  assumes sent: "rt (snd (send_grecphello w tuntype s)) =
    upd (last_hello_sent_update (\<lambda>_. hello_stamp w (tick s))) (rt s)"
begin

lemma hello_timer_down: "\<not> tunnel_established (sel (rt s)) \<Longrightarrow> hello_timer sel upd tuntype w s = s"
  by (simp add: hello_timer_def)

lemma hello_timer_due:
  assumes "tunnel_established (sel (rt s))"
    and "hello_due (last_hello_sent (sel (rt s))) (active_hello_interval (haap (rt s))) (fst (env_clock w (tick s)))"
  shows "sel (rt (hello_timer sel upd tuntype w s)) =
    last_hello_sent_update (\<lambda>_. hello_stamp w (Suc (tick s)))
      (missed_hellos_update (\<lambda>m. if last_hello_received (sel (rt s)) \<noteq> last_hello_sent (sel (rt s)) then m + 1 else m)
        (sel (rt s)))"
  using assms by (simp add: hello_timer_def get_uptime_eq Let_def sent sel_upd)

lemma hello_timer_haap: "haap (rt (hello_timer sel upd tuntype w s)) = haap (rt s)"
  by (simp add: hello_timer_def get_uptime_eq Let_def sent haap_upd)

lemma hello_timer_established:
  "tunnel_established (sel (rt (hello_timer sel upd tuntype w s))) = tunnel_established (sel (rt s))"
  by (simp add: hello_timer_def get_uptime_eq Let_def sent sel_upd)

lemma verification_sel:
  "sel (rt (hello_verification sel upd s)) =
    tunnel_established_update (\<lambda>e. e \<and> unat (missed_hellos (sel (rt s))) < unat (hello_retry_times (haap (rt s))))
      (sel (rt s))"
  by (auto simp: hello_verification_def sel_upd)

lemma verification_haap: "haap (rt (hello_verification sel upd s)) = haap (rt s)"
  by (simp add: hello_verification_def haap_upd)

lemma verification_after_timer:
  assumes "sel (rt s2) = sel (rt (hello_timer sel upd tuntype w s))" and "haap (rt s2) = haap (rt s)"
  shows "sel (rt (hello_verification sel upd s2)) =
    hello_round (active_hello_interval (haap (rt s))) (hello_retry_times (haap (rt s)))
      (fst (env_clock w (tick s))) (hello_stamp w (Suc (tick s))) (sel (rt s))"
proof -
  have "sel (rt (hello_timer sel upd tuntype w s)) = (if tunnel_established (sel (rt s)) \<and>
        hello_due (last_hello_sent (sel (rt s))) (active_hello_interval (haap (rt s))) (fst (env_clock w (tick s)))
      then last_hello_sent_update (\<lambda>_. hello_stamp w (Suc (tick s)))
        (missed_hellos_update (\<lambda>m. if last_hello_received (sel (rt s)) \<noteq> last_hello_sent (sel (rt s)) then m + 1 else m)
          (sel (rt s))) else sel (rt s))"
    by (auto simp: hello_timer_due) (auto simp: hello_timer_def get_uptime_eq Let_def)
  then show ?thesis by (simp only: verification_sel assms hello_round_def Let_def)
qed

end

interpretation lte_hello: hello_slot lte lte_update GRECP_TUNTYPE_LTE
  by unfold_locales (simp add: rt_send_grecphello hello_stamp_def)

interpretation dsl_hello: hello_slot dsl dsl_update GRECP_TUNTYPE_DSL
  by unfold_locales (simp add: rt_send_grecphello hello_stamp_def)

text \<open>The sections of one tunnel do not touch the other one.\<close>

lemma other_tunnel [simp]:
  "lte (rt (hello_timer dsl dsl_update GRECP_TUNTYPE_DSL w s)) = lte (rt s)"
  "dsl (rt (hello_timer lte lte_update GRECP_TUNTYPE_LTE w s)) = dsl (rt s)"
  "lte (rt (hello_verification dsl dsl_update s)) = lte (rt s)"
  "dsl (rt (hello_verification lte lte_update s)) = dsl (rt s)"
  "lte (rt (bypass_timer w s)) = lte (rt s)" "haap (rt (bypass_timer w s)) = haap (rt s)"
  "lte (rt (reset_dsl s)) = lte (rt s)" "dsl (rt (reset_lte s)) = dsl (rt s)"
  "haap (rt (reset_lte s)) = haap (rt s)" "haap (rt (reset_dsl s)) = haap (rt s)"
proof -
  show "lte (rt (hello_timer dsl dsl_update GRECP_TUNTYPE_DSL w s)) = lte (rt s)"
    using rt_hello_timer_dsl [of w s] by auto
  show "dsl (rt (hello_timer lte lte_update GRECP_TUNTYPE_LTE w s)) = dsl (rt s)"
    using rt_hello_timer_lte [of w s] by auto
  show "lte (rt (bypass_timer w s)) = lte (rt s)" "haap (rt (bypass_timer w s)) = haap (rt s)"
    using rt_bypass_timer [of w s] by auto
qed (simp_all add: hello_verification_def reset_dsl_def reset_lte_def)

lemma reset_dhcp_session [simp]:
  "lte (rt (reset_dhcp w s)) = lte (rt s)" "dsl (rt (reset_dhcp w s)) = dsl (rt s)"
  "haap (rt (reset_dhcp w s)) = haap (rt s)" "filter_list_acked (rt (reset_dhcp w s)) = filter_list_acked (rt s)"
  "lte (rt (reset_dhcp6 w s)) = lte (rt s)" "dsl (rt (reset_dhcp6 w s)) = dsl (rt s)"
  "haap (rt (reset_dhcp6 w s)) = haap (rt s)" "filter_list_acked (rt (reset_dhcp6 w s)) = filter_list_acked (rt s)"
  using session_late.reset_dhcp_keeps [of s "lte (rt s)" "dsl (rt s)" "haap (rt s)"
      "filter_list_acked (rt s)" "bonding (rt s)" w]
    session_late.reset_dhcp6_keeps [of s "lte (rt s)" "dsl (rt s)" "haap (rt s)"
      "filter_list_acked (rt s)" "bonding (rt s)" w]
  by simp_all

lemma reset_session_tunnels [simp]:
  "lte (rt (reset_session w s)) = lte (rt s)" "dsl (rt (reset_session w s)) = dsl (rt s)"
  by (simp_all add: reset_session_def Let_def)

lemma reset_session_haap:
  "haap (rt (reset_session w s)) =
     (if \<not> tunnel_established (lte (rt s)) \<and> \<not> tunnel_established (dsl (rt s))
      then (haap (rt s))\<lparr>haap_ip := anycast_ip (haap (rt s)), bonding_key := 0, session_id := 0, commit_count := 0\<rparr>
      else haap (rt s))"
  by (simp add: reset_session_def Let_def)

lemma sends_session [simp]:
  "lte (rt (connect_tunnels w s)) = lte (rt s)" "dsl (rt (connect_tunnels w s)) = dsl (rt s)"
  "haap (rt (connect_tunnels w s)) = haap (rt s)"
  "lte (rt (ack_filter_list w s)) = lte (rt s)" "dsl (rt (ack_filter_list w s)) = dsl (rt s)"
  "haap (rt (ack_filter_list w s)) = haap (rt s)"
  "dsl (rt (verify_tunnel w s)) = dsl (rt s)" "haap (rt (verify_tunnel w s)) = haap (rt s)"
  by (simp_all add: connect_tunnels_def ack_filter_list_def verify_tunnel_def Let_def case_prod_beta)

lemma verify_tunnel_lte: "\<exists>b. lte (rt (verify_tunnel w s)) = (lte (rt s))\<lparr>tunnel_verification_required := b\<rparr>"
proof (cases "tunnel_established (lte (rt s)) \<and> tunnel_verification_required (lte (rt s))")
  case True
  then show ?thesis by (auto simp: verify_tunnel_def Let_def case_prod_beta)
next
  case False
  then have "lte (rt (verify_tunnel w s)) = lte (rt s)" by (auto simp: verify_tunnel_def)
  then show ?thesis by (intro exI [of _ "tunnel_verification_required (lte (rt s))"]) simp
qed

subsection \<open>The tunnels after one round\<close>

text \<open>The addresses are all that \<open>update_ips\<close> changes, the reset of a dead tunnel all that follows.\<close>

lemma dsl_tunnel_ip_same: "t = t\<lparr>interface_ip := interface_ip t\<rparr>" for t :: dsl_tunnel
  by simp

lemma rt_update_ips:
  assumes "update_ips w s = Inr s'"
  obtains a f b where "rt s' = dsl_update f (lte_update (interface_ip_update (\<lambda>_. a)) (rt s))"
    and "f (dsl (rt s)) = (dsl (rt s))\<lparr>interface_ip := b\<rparr>"
proof -
  let ?set = "\<lambda>ip s. set_lte (interface_ip_update (\<lambda>_. ip)) s"
  obtain ip s1 where g1: "get_primary_ip6 w (interface_name (lte (rt s))) s = Inr (ip, s1)"
    and rest: "(if bonding (rt (?set ip s1))
       then bind_res (get_primary_ip6 w (interface_name (dsl (rt (?set ip s1)))) (?set ip s1))
         (\<lambda>(ip, s). Inr (set_dsl (interface_ip_update (\<lambda>_. ip)) s))
       else Inr (?set ip s1)) = Inr s'"
    using assms unfolding update_ips_def bind_res_eq_Inr Let_def by auto
  have one: "rt (?set ip s1) = lte_update (interface_ip_update (\<lambda>_. ip)) (rt s)"
    using get_primary_ip6_frame [OF g1] by simp
  have "rt s' = rt (?set ip s1) \<or> (\<exists>a. rt s' = dsl_update (interface_ip_update (\<lambda>_. a)) (rt (?set ip s1)))"
    using rest by (auto simp: bind_res_eq_Inr split: if_splits dest!: get_primary_ip6_frame)
  then show thesis
  proof
    assume "rt s' = rt (?set ip s1)"
    then show thesis
      by (intro that [of "\<lambda>t. t" ip "interface_ip (dsl (rt s))"]) (simp_all only: one update_id dsl_tunnel_ip_same)
  next
    assume "\<exists>a. rt s' = dsl_update (interface_ip_update (\<lambda>_. a)) (rt (?set ip s1))"
    then obtain a where "rt s' = dsl_update (interface_ip_update (\<lambda>_. a)) (rt (?set ip s1))" by blast
    then show thesis by (intro that [of "interface_ip_update (\<lambda>_. a)" ip a]) (simp_all add: one)
  qed
qed

lemma update_ips_session:
  assumes "update_ips w s = Inr s'"
  shows "\<exists>a. lte (rt s') = (lte (rt s))\<lparr>interface_ip := a\<rparr>" "\<exists>a. dsl (rt s') = (dsl (rt s))\<lparr>interface_ip := a\<rparr>"
    "haap (rt s') = haap (rt s)" "bonding (rt s') = bonding (rt s)"
    "tunnel_interface_created (rt s') = tunnel_interface_created (rt s)"
  by (rule rt_update_ips [OF assms]; auto)+

lemma reset_lte_sel:
  "lte (rt (reset_lte s)) =
    (if tunnel_established (lte (rt s)) \<or> \<not> tunnel_interface_created (rt s) then lte (rt s)
     else (lte (rt s))\<lparr>tunnel_established := False, missed_hellos := 0, last_hello_sent := 0,
       last_hello_received := 0, tunnel_verification_required := False\<rparr>)"
  by (simp add: reset_lte_def)

lemma hello_round_established:
  "tunnel_established (hello_round i r now stamp t) \<Longrightarrow> tunnel_established t"
  by (simp add: hello_round_def Let_def split: if_splits)

text \<open>What a round does to the record of the server.\<close>

lemma timers_haap:
  assumes "execute_timers w s = Inr s'"
  shows "haap (rt s') =
     (if \<not> tunnel_established (lte (rt s')) \<and> \<not> tunnel_established (dsl (rt s'))
      then (haap (rt s))\<lparr>haap_ip := anycast_ip (haap (rt s)), bonding_key := 0, session_id := 0, commit_count := 0\<rparr>
      else haap (rt s))"
proof -
  obtain s1 s2 where s1: "update_ips w s = Inr s1"
    and s2: "start_threads w (tunnel_device w (tunnel_sections w s1)) = Inr s2"
    and s': "s' = handle_pending_signal w (after_threads w s2)"
    using execute_timersE [OF assms] .
  define p where "p = reset_dsl (reset_lte (bypass_timer w
       (hello_verification dsl dsl_update (hello_verification lte lte_update
         (hello_timer dsl dsl_update GRECP_TUNTYPE_DSL w (hello_timer lte lte_update GRECP_TUNTYPE_LTE w
           (verify_tunnel w (ack_filter_list w (connect_tunnels w s1)))))))))"
  have sec: "tunnel_sections w s1 = reset_session w p" by (simp add: tunnel_sections_def p_def)
  have h: "haap (rt p) = haap (rt s)"
    unfolding p_def by (simp add: lte_hello.hello_timer_haap dsl_hello.hello_timer_haap
        lte_hello.verification_haap dsl_hello.verification_haap update_ips_session(3) [OF s1])
  have "haap (rt s') = haap (rt (reset_session w p))" "lte (rt s') = lte (rt p)" "dsl (rt s') = dsl (rt p)"
    unfolding s' using session_after_timers [OF s2] by (simp_all add: sec)
  then show ?thesis by (simp add: reset_session_haap h)
qed

lemma timers_hello_parameters:
  assumes "execute_timers w s = Inr s'"
  shows "active_hello_interval (haap (rt s')) = active_hello_interval (haap (rt s))"
    "hello_retry_times (haap (rt s')) = hello_retry_times (haap (rt s))"
  using timers_haap [OF assms] by (simp_all split: if_splits)

end
