(* ===== verification/Devices.thy ===== *)
theory Devices
  imports Sessions
begin

text \<open>
  What becomes of the devices of a session: which effects create a device, a data socket or a thread,
  and which sections of the timers cause them. Behind it stands the question whether a session
  that is set up for the second time gets its devices again.
\<close>

subsection \<open>Kinds of effects\<close>

fun device_effect :: "effect \<Rightarrow> bool" where
  "device_effect (Open_Gre_Socket _) = True"
| "device_effect (Ioctl request _ _) \<longleftrightarrow> request = TUNSETIFF"
| "device_effect (Netlink type _ _ _ _) \<longleftrightarrow> type = RTM_NEWLINK"
| "device_effect (Create_Thread _) = True"
| "device_effect _ = False"

text \<open>A packet of the sending thread.\<close>

fun data_effect :: "effect \<Rightarrow> bool" where
  "data_effect (Sendmsg_Gre _ _ _ _) = True"
| "data_effect _ = False"

subsection \<open>Sections without such effects\<close>

text \<open>
  What one sees of a state who only looks at some kind of effects. The contract is that these are effects of
  devices and data packets: then most sections of the timers cannot be seen.
\<close>

definition log_of :: "(effect \<Rightarrow> bool) \<Rightarrow> sys \<Rightarrow> int \<times> int \<times> effect list" where
  "log_of seen s = (sockfd_gre s, sockfd_tun s, filter seen (trace s))"

definition observed :: "(effect \<Rightarrow> bool) \<Rightarrow> sys \<Rightarrow> (int \<times> int \<times> effect list) \<times> int option \<times> string" where
  "observed seen s = (log_of seen s, exited s, dhcp_script_path s)"

lemma log_of_observed: "observed seen s = observed seen t \<Longrightarrow> log_of seen s = log_of seen t"
  by (simp add: observed_def)

lemma log_of_exited [simp]: "log_of seen (s\<lparr>exited := x\<rparr>) = log_of seen s"
  by (simp add: log_of_def)

locale effect_observer =
  fixes seen :: "effect \<Rightarrow> bool"
  assumes hidden: "\<not> device_effect e \<Longrightarrow> \<not> data_effect e \<Longrightarrow> \<not> seen e"
begin

lemma observed_basic [simp]:
  "observed seen (rt_update f s) = observed seen s"
  "\<not> device_effect e \<Longrightarrow> \<not> data_effect e \<Longrightarrow> observed seen (emit e s) = observed seen s"
  "observed seen (s\<lparr>tick := k\<rparr>) = observed seen s" "observed seen (s\<lparr>udhcpc_pipe := p\<rparr>) = observed seen s"
  "observed seen (s\<lparr>udhcpc6_pipe := p\<rparr>) = observed seen s"
  "observed seen (snd (ask_ok w s)) = observed seen s" "observed seen (snd (ask_int w s)) = observed seen s"
  "observed seen (snd (ask_text w s)) = observed seen s" "observed seen (snd (ask_status w s)) = observed seen s"
  "observed seen (snd (ask_output w s)) = observed seen s" "observed seen (snd (get_uptime w s)) = observed seen s"
  by (simp_all add: observed_def log_of_def emit_def call_defs hidden)

lemma observed_event [simp]: "observed seen (trigger_event w name s) = observed seen s"
  by (simp add: trigger_event_def Let_def case_prod_beta)

lemma observed_send [simp]: "observed seen (snd (send_grecpmessage w m t a s)) = observed seen s"
  by (simp add: send_grecpmessage_def Let_def case_prod_beta)

lemma observed_sends [simp]:
  "observed seen (snd (send_grecprequest w t s)) = observed seen s"
  "observed seen (snd (send_grecpnotify_filterlistpackageack w c s)) = observed seen s"
  "observed seen (snd (send_grecpnotify_tunnelverify w s)) = observed seen s"
  "observed seen (snd (send_grecpnotify_linkfailure w t s)) = observed seen s"
  "observed seen (snd (send_grecpnotify_bypasstraffic w k s)) = observed seen s"
  "observed seen (snd (send_grecphello w t s)) = observed seen s"
  by (simp_all add: send_grecprequest_def send_grecpnotify_filterlistpackageack_def
      send_grecpnotify_tunnelverify_def send_grecpnotify_linkfailure_def
      send_grecpnotify_bypasstraffic_def send_grecphello_def Let_def case_prod_beta)

lemma observed_dhcp [simp]:
  "observed seen (snd (start_udhcpc w s)) = observed seen s" "observed seen (snd (start_udhcpc6 w s)) = observed seen s"
  "observed seen (snd (kill_udhcpc w s)) = observed seen s" "observed seen (snd (kill_udhcpc6 w s)) = observed seen s"
  "observed seen (process_udhcpc_output w s) = observed seen s" "observed seen (process_udhcpc6_output w s) = observed seen s"
  "observed seen (snd (delete_dhcp_script w s)) = observed seen s"
  by (simp_all add: start_udhcpc_def start_udhcpc6_def open_pipe_def kill_udhcpc_def kill_udhcpc6_def
      process_udhcpc_output_def process_udhcpc6_output_def delete_dhcp_script_def Let_def case_prod_beta)

lemma observed_get_primary_ip6: "get_primary_ip6 w ifname s = Inr (ip, s') \<Longrightarrow> observed seen s' = observed seen s"
  by (auto simp: get_primary_ip6_def Let_def case_prod_beta bind_res_eq_Inr split: option.splits)

lemma observed_update_ips: "update_ips w s = Inr s' \<Longrightarrow> observed seen s' = observed seen s"
  by (auto simp: update_ips_def Let_def bind_res_eq_Inr split: if_splits dest!: observed_get_primary_ip6)

lemma observed_tunnel_section [simp]:
  "observed seen (connect_tunnels w s) = observed seen s" "observed seen (ack_filter_list w s) = observed seen s"
  "observed seen (verify_tunnel w s) = observed seen s" "observed seen (hello_timer sel upd t w s) = observed seen s"
  "observed seen (hello_verification sel upd s) = observed seen s" "observed seen (bypass_timer w s) = observed seen s"
  "observed seen (reset_lte s) = observed seen s" "observed seen (reset_dsl s) = observed seen s"
  "observed seen (reset_dhcp w s) = observed seen s" "observed seen (reset_dhcp6 w s) = observed seen s"
  by (simp_all add: connect_tunnels_def ack_filter_list_def verify_tunnel_def hello_timer_def
      hello_verification_def bypass_timer_def reset_lte_def reset_dsl_def reset_dhcp_def reset_dhcp6_def
      Let_def case_prod_beta)

lemma observed_tunnel_sections [simp]: "observed seen (tunnel_sections w s) = observed seen s"
  by (simp add: tunnel_sections_def reset_session_def Let_def)

lemma observed_destroy [simp]: "observed seen (snd (destroy_tunnel_dev w s)) = observed seen s"
  by (simp add: destroy_tunnel_dev_def destroy_tun_tunnel_dev_def destroy_gre_tunnel_dev_def Let_def case_prod_beta)

lemma observed_cancel [simp]: "observed seen (cancel_threads s) = observed seen s"
  by (simp add: cancel_threads_def close_gre_socket_def Let_def)

lemma observed_late_section [simp]:
  "observed seen (stop_threads s) = observed seen s" "observed seen (start_dhcp_client w s) = observed seen s"
  "observed seen (reap_dhcp_client w s) = observed seen s" "observed seen (start_dhcp6_client w s) = observed seen s"
  "observed seen (reap_dhcp6_client w s) = observed seen s" "observed seen (lease_expiry w s) = observed seen s"
  "observed seen (lease6_expiry w s) = observed seen s"
  by (simp_all add: stop_threads_def start_dhcp_client_def reap_dhcp_client_def start_dhcp6_client_def
      reap_dhcp6_client_def lease_expiry_def lease6_expiry_def Let_def case_prod_beta)

lemma observed_after_threads [simp]: "observed seen (after_threads w s) = observed seen s"
  by (simp add: after_threads_def dhcp_client_def dhcp6_client_def)

lemma log_of_signal: "log_of seen (handle_pending_signal w s) = log_of seen s"
  by (simp add: handle_pending_signal_def shutdown_def Let_def)
    (intro conjI impI log_of_observed; simp)

end

interpretation devices: effect_observer device_effect
  by unfold_locales

interpretation data: effect_observer data_effect
  by unfold_locales

abbreviation device_log :: "sys \<Rightarrow> int \<times> int \<times> effect list" where
  "device_log \<equiv> log_of device_effect"

abbreviation process_log :: "sys \<Rightarrow> (int \<times> int \<times> effect list) \<times> int option \<times> string" where
  "process_log \<equiv> observed device_effect"

lemmas device_log_def = log_of_def [of device_effect]
  and process_log_def = observed_def [of device_effect]
  and device_log_of_process = log_of_observed [of device_effect]
  and process_log_update_ips = devices.observed_update_ips
  and process_log_tunnel_sections = devices.observed_tunnel_sections
  and process_log_after_threads = devices.observed_after_threads
  and device_log_signal = devices.log_of_signal

text \<open>The devices themselves carry no data.\<close>

lemma data_log_devices:
  "filter data_effect (trace (tunnel_device w s)) = filter data_effect (trace s)"
  "start_threads w s = Inr s' \<Longrightarrow> filter data_effect (trace s') = filter data_effect (trace s)"
proof -
  have t: "filter data_effect (trace (trigger_event w name s)) = filter data_effect (trace s)" for name s
    using data.observed_event [of w name s] by (simp add: observed_def log_of_def)
  show "filter data_effect (trace (tunnel_device w s)) = filter data_effect (trace s)"
    by (simp add: tunnel_device_def create_tunnel_dev_def create_tun_tunnel_dev_def create_gre_tunnel_dev_def
        destroy_tunnel_dev_def destroy_tun_tunnel_dev_def destroy_gre_tunnel_dev_def t
        ask_ok_def ask_int_def Let_def case_prod_beta)
  show "start_threads w s = Inr s' \<Longrightarrow> filter data_effect (trace s') = filter data_effect (trace s)"
    by (auto simp: start_threads_def open_gre_socket_def ask_ok_def ask_int_def Let_def case_prod_beta
        bind_res_eq_Inr split: if_splits)
qed

lemma timers_send_no_data:
  assumes "execute_timers w s = Inr s'"
  shows "filter data_effect (trace s') = filter data_effect (trace s)"
proof -
  obtain s1 s2 where s1: "update_ips w s = Inr s1"
    and s2: "start_threads w (tunnel_device w (tunnel_sections w s1)) = Inr s2"
    and s': "s' = handle_pending_signal w (after_threads w s2)"
    using execute_timersE [OF assms] .
  have "filter data_effect (trace s') = filter data_effect (trace s2)"
    using data.log_of_signal [of w "after_threads w s2"] data.observed_after_threads [of w s2]
    by (simp add: s' log_of_def observed_def)
  also have "\<dots> = filter data_effect (trace s1)"
    using data_log_devices(2) [OF s2] data_log_devices(1) [of w "tunnel_sections w s1"]
      data.observed_tunnel_sections [of w s1] by (simp add: log_of_def observed_def)
  also have "\<dots> = filter data_effect (trace s)"
    using data.observed_update_ips [OF s1] by (simp add: log_of_def observed_def)
  finally show ?thesis .
qed

subsection \<open>The flags and handles\<close>

definition device_state :: "runtime \<Rightarrow> bool \<times> bool \<times> int \<times> int" where
  "device_state r = (bonding r, tunnel_interface_created r, gre2tun_thread r, tun2gre_thread r)"

definition flag_state :: "runtime \<Rightarrow> (bool \<times> bool \<times> int \<times> int) \<times> int" where
  "flag_state r = (device_state r, runtime.signal r)"

lemma flag_state_updates [simp]:
  "flag_state (lte_update f r) = flag_state r" "flag_state (dsl_update g r) = flag_state r"
  "flag_state (haap_update h r) = flag_state r" "flag_state (dhcp_update d r) = flag_state r"
  "flag_state (dhcp6_update e r) = flag_state r"
  "flag_state (filter_list_acked_update a r) = flag_state r"
  by (simp_all add: flag_state_def device_state_def)

lemma flag_state_update_ips:
  "update_ips w s = Inr s' \<Longrightarrow> flag_state (rt s') = flag_state (rt s)"
  by (erule rt_update_ips) simp

lemma flag_state_sections [simp]:
  "flag_state (rt (connect_tunnels w s)) = flag_state (rt s)"
  "flag_state (rt (ack_filter_list w s)) = flag_state (rt s)"
  "flag_state (rt (verify_tunnel w s)) = flag_state (rt s)"
  "flag_state (rt (hello_timer lte lte_update GRECP_TUNTYPE_LTE w s)) = flag_state (rt s)"
  "flag_state (rt (hello_timer dsl dsl_update GRECP_TUNTYPE_DSL w s)) = flag_state (rt s)"
  "flag_state (rt (hello_verification lte lte_update s)) = flag_state (rt s)"
  "flag_state (rt (hello_verification dsl dsl_update s)) = flag_state (rt s)"
  "flag_state (rt (bypass_timer w s)) = flag_state (rt s)"
  "flag_state (rt (reset_lte s)) = flag_state (rt s)" "flag_state (rt (reset_dsl s)) = flag_state (rt s)"
  "flag_state (rt (reset_dhcp w s)) = flag_state (rt s)" "flag_state (rt (reset_dhcp6 w s)) = flag_state (rt s)"
proof -
  show "flag_state (rt (hello_timer lte lte_update GRECP_TUNTYPE_LTE w s)) = flag_state (rt s)"
    using rt_hello_timer_lte [of w s] by auto
  show "flag_state (rt (hello_timer dsl dsl_update GRECP_TUNTYPE_DSL w s)) = flag_state (rt s)"
    using rt_hello_timer_dsl [of w s] by auto
  show "flag_state (rt (bypass_timer w s)) = flag_state (rt s)"
    using rt_bypass_timer [of w s] by auto
qed (simp_all add: connect_tunnels_def ack_filter_list_def verify_tunnel_def hello_verification_def
    reset_lte_def reset_dsl_def reset_dhcp_def reset_dhcp6_def Let_def case_prod_beta)

lemma flag_state_tunnel_sections [simp]: "flag_state (rt (tunnel_sections w s)) = flag_state (rt s)"
  by (simp add: tunnel_sections_def reset_session_def Let_def)

lemma flag_state_process [simp]:
  "flag_state (rt (process_udhcpc_output w s)) = flag_state (rt s)"
  "flag_state (rt (process_udhcpc6_output w s)) = flag_state (rt s)"
  using process_udhcpc_output_frame [of w s] process_udhcpc6_output_frame [of w s] by auto

lemma flag_state_late [simp]:
  "flag_state (rt (start_dhcp_client w s)) = flag_state (rt s)"
  "flag_state (rt (reap_dhcp_client w s)) = flag_state (rt s)"
  "flag_state (rt (start_dhcp6_client w s)) = flag_state (rt s)"
  "flag_state (rt (reap_dhcp6_client w s)) = flag_state (rt s)"
  "flag_state (rt (lease_expiry w s)) = flag_state (rt s)"
  "flag_state (rt (lease6_expiry w s)) = flag_state (rt s)"
  by (simp_all add: start_dhcp_client_def reap_dhcp_client_def start_dhcp6_client_def reap_dhcp6_client_def
      lease_expiry_def lease6_expiry_def Let_def case_prod_beta get_uptime_eq)

lemma flag_state_after_threads [simp]: "flag_state (rt (after_threads w s)) = flag_state (rt s)"
  by (simp add: after_threads_def dhcp_client_def dhcp6_client_def)

lemma device_state_signal: "device_state (rt (handle_pending_signal w s)) = device_state (rt s)"
  by (simp add: handle_pending_signal_def device_state_def)

lemma device_state_of_flags: "flag_state r = flag_state r' \<Longrightarrow> device_state r = device_state r'"
  by (simp add: flag_state_def)

subsection \<open>A round of the timers\<close>

text \<open>A complete set of devices: what a bonding session has after its first round.\<close>

definition devices_up :: "sys \<Rightarrow> bool" where
  "devices_up s \<longleftrightarrow> bonding (rt s) \<and> tunnel_interface_created (rt s) \<and> gre2tun_thread (rt s) \<noteq> 0 \<and>
     tun2gre_thread (rt s) \<noteq> 0 \<and> sockfd_gre s \<noteq> 0"

lemma devices_up_cong:
  "device_state (rt t) = device_state (rt s) \<Longrightarrow> device_log t = device_log s \<Longrightarrow> devices_up t \<longleftrightarrow> devices_up s"
  by (auto simp: devices_up_def device_state_def device_log_def)

lemma tunnel_device_bonding:
  assumes "bonding (rt s)" and "tunnel_interface_created (rt s)"
  shows "flag_state (rt (tunnel_device w s)) = flag_state (rt s)"
    and "process_log (tunnel_device w s) = process_log s"
  using assms by (simp_all add: tunnel_device_def Let_def case_prod_beta flag_state_def device_state_def
      destroy_tunnel_dev_bonding)

lemma start_threads_up: "devices_up s \<Longrightarrow> start_threads w s = Inr s"
  by (simp add: devices_up_def start_threads_def)

lemma timers_keep_devices:
  assumes "execute_timers w s = Inr s'" and "devices_up s"
  shows "devices_up s'" and "device_log s' = device_log s" and "device_state (rt s') = device_state (rt s)"
proof -
  obtain s1 s2 where s1: "update_ips w s = Inr s1"
    and s2: "start_threads w (tunnel_device w (tunnel_sections w s1)) = Inr s2"
    and s': "s' = handle_pending_signal w (after_threads w s2)"
    using execute_timersE [OF assms(1)] .
  let ?t = "tunnel_sections w s1"
  have t: "flag_state (rt ?t) = flag_state (rt s)" "process_log ?t = process_log s"
    using flag_state_update_ips [OF s1] process_log_update_ips [OF s1] by simp_all
  note up = devices_up_cong [OF device_state_of_flags device_log_of_process]
  have "devices_up ?t" using up [OF t] assms(2) by simp
  then have "bonding (rt ?t)" "tunnel_interface_created (rt ?t)" by (simp_all add: devices_up_def)
  note d = tunnel_device_bonding [OF this, of w, unfolded t]
  have s2': "s2 = tunnel_device w ?t" using s2 start_threads_up up [OF d] assms(2) by simp
  have a: "flag_state (rt (after_threads w s2)) = flag_state (rt s)"
    "process_log (after_threads w s2) = process_log s"
    unfolding s2' by (simp_all add: d)
  show "device_log s' = device_log s" "device_state (rt s') = device_state (rt s)"
    using device_log_of_process [OF a(2)] device_state_of_flags [OF a(1)]
    by (simp_all add: s' device_log_signal device_state_signal)
  then show "devices_up s'" using devices_up_cong assms(2) by blast
qed

end
