(* ===== verification/Dispatch.thy ===== *)
theory Dispatch
  imports Handlers
begin

text \<open>
  What \<open>process_grecpmessage\<close> and the handlers behind it guarantee: the meaning of an accept
  message, which messages are ignored, the memory the handlers touch, the effect of a hello that
  comes back, and the well-formedness of the state afterwards.
\<close>

subsection \<open>The meaning of an accept message\<close>

text \<open>The abstract effect of one attribute whose value has the size of its field.\<close>

definition accept_tlv :: "u8 \<times> bytes \<Rightarrow> haap \<Rightarrow> haap" where
  "accept_tlv x h =
     (let i = fst x; v = snd x; n = word_of_bytes (rev v) in
      if i = GRECP_MSGATTR_H_IPV6_ADDRESS then h\<lparr>haap_ip := v\<rparr>
      else if i = GRECP_MSGATTR_SESSION_ID then h\<lparr>session_id := n\<rparr>
      else if i = GRECP_MSGATTR_ACTIVE_HELLO_INTERVAL then
        (if active_hello_interval h = 0 then h\<lparr>active_hello_interval := n\<rparr> else h)
      else if i = GRECP_MSGATTR_HELLO_RETRY_TIMES then
        (if hello_retry_times h = 0 then h\<lparr>hello_retry_times := n\<rparr> else h)
      else if i = GRECP_MSGATTR_BONDING_KEY_VALUE then h\<lparr>bonding_key := n\<rparr>
      else if i = GRECP_MSGATTR_BYPASS_BANDWIDTH_CHECK_INTERVAL then
        h\<lparr>bypass_bandwidth_check_interval := n\<rparr>
      else h)"

definition word_attribute :: "u8 \<Rightarrow> bool" where
  "word_attribute i \<longleftrightarrow> i \<in> {GRECP_MSGATTR_SESSION_ID, GRECP_MSGATTR_ACTIVE_HELLO_INTERVAL,
     GRECP_MSGATTR_HELLO_RETRY_TIMES, GRECP_MSGATTR_BONDING_KEY_VALUE,
     GRECP_MSGATTR_BYPASS_BANDWIDTH_CHECK_INTERVAL}"

definition exact_tlv :: "u8 \<times> bytes \<Rightarrow> bool" where
  "exact_tlv x \<longleftrightarrow> length (snd x) < 2 ^ 16 \<and>
     (fst x = GRECP_MSGATTR_H_IPV6_ADDRESS \<longrightarrow> length (snd x) = 16) \<and>
     (word_attribute (fst x) \<longrightarrow> length (snd x) = 4)"

lemma ntohl_of_bytes: "length v = 4 \<Longrightarrow> ntohl (word_of_bytes v) = word_of_bytes (rev v)"
  by (simp add: ntohl_def bytes_of_u32_of_bytes)

lemma accept_attribute_exact:
  assumes "exact_tlv (attr_view buf a)" and "length (haap_ip h) = 16"
  shows "accept_attribute buf a h = Inr (accept_tlv (attr_view buf a) h)"
  using assms
  by (simp add: accept_attribute_def accept_tlv_def exact_tlv_def attr_view_def word_attribute_def
      memcpy_into_def ntohl_of_bytes Let_def)

lemma accept_tlv_ip: "exact_tlv x \<Longrightarrow> length (haap_ip h) = 16 \<Longrightarrow> length (haap_ip (accept_tlv x h)) = 16"
  by (simp add: accept_tlv_def exact_tlv_def Let_def)

lemma fold_accept_exact:
  assumes "\<And>a. a \<in> set as \<Longrightarrow> exact_tlv (attr_view buf a)" and "length (haap_ip h) = 16"
  shows "fold_res (accept_attribute buf) as h = Inr (fold accept_tlv (map (attr_view buf) as) h)"
  using assms
proof (induction as arbitrary: h)
  case (Cons a as)
  have a: "exact_tlv (attr_view buf a)" by (simp add: Cons.prems(1))
  have "length (haap_ip (accept_tlv (attr_view buf a) h)) = 16"
    by (rule accept_tlv_ip [OF a Cons.prems(2)])
  with Cons.IH Cons.prems show ?case
    by (simp add: accept_attribute_exact [OF a Cons.prems(2)])
qed simp

text \<open>A message as it sits in the receive array: header, attributes, left-over bytes.\<close>

definition message_in :: "u32 \<Rightarrow> u8 \<Rightarrow> u8 \<Rightarrow> (u8 \<times> bytes) list \<Rightarrow> bytes \<Rightarrow> bytes" where
  "message_in key typ tun xs stale = grecp_header key typ tun @ concat (map encode_attr xs) @ stale"

definition message_size :: "(u8 \<times> bytes) list \<Rightarrow> int" where
  "message_size xs = 9 + int (length (concat (map encode_attr xs)))"

lemma parse_message_in:
  assumes "\<And>x. x \<in> set xs \<Longrightarrow> length (snd x) < 2 ^ 16"
  shows "map (attr_view (message_in key typ tun xs stale))
    (parse_attrs (message_in key typ tun xs stale) 9 (message_size xs - 9)) = xs"
  using parse_attrs_encoded [OF assms, of xs "grecp_header key typ tun" stale]
  by (simp add: message_in_def message_size_def)

lemma message_in_bound: "9 + (message_size xs - 9) \<le> int (length (message_in key typ tun xs stale))"
  by (simp add: message_in_def message_size_def)

lemma message_in_fields:
  "ntohs (greh_flags_and_version (message_in key typ tun xs stale)) = GRECP_FLAGSANDVERSION"
  "ntohl (greh_key (message_in key typ tun xs stale)) = key"
  "msgtype_and_tuntype (message_in key typ tun xs stale) = push_bit 4 typ OR tun"
  by (simp_all add: message_in_def header_fields)

lemma process_message_in:
  assumes "typ \<in> {1, 2, 3, 4, 5, 6}" and "tun \<in> {GRECP_TUNTYPE_LTE, GRECP_TUNTYPE_DSL}"
    and "typ = GRECP_MSGTYPE_ACCEPT \<or> key = bonding_key (haap (rt s))"
    and "buf = message_in key typ tun xs stale"
  shows "process_grecpmessage w buf sz s =
    (if typ = GRECP_MSGTYPE_ACCEPT then handle_grecpaccept w tun buf 9 (sz - 9) s
     else if typ = GRECP_MSGTYPE_DENY then handle_grecpdeny tun buf 9 (sz - 9) s
     else if typ = GRECP_MSGTYPE_HELLO then handle_grecphello w tun buf 9 (sz - 9) s
     else if typ = GRECP_MSGTYPE_TEARDOWN then handle_grecpteardown buf 9 (sz - 9) s
     else if typ = GRECP_MSGTYPE_NOTIFY then handle_grecpnotify tun buf 9 (sz - 9) s
     else Inr s)"
proof -
  have fields: "drop_bit 4 (msgtype_and_tuntype buf) = typ" "msgtype_and_tuntype buf AND 0x0f = tun"
    using type_nibbles [OF assms(1,2)] by (simp_all add: assms(4) message_in_fields)
  have tun: "\<not> (tun \<noteq> GRECP_TUNTYPE_LTE \<and> tun \<noteq> GRECP_TUNTYPE_DSL)" using assms(2) by blast
  have key: "\<not> (ntohl (greh_key buf) \<noteq> bonding_key (haap (rt s)) \<and> typ \<noteq> GRECP_MSGTYPE_ACCEPT)"
    using assms(3) by (auto simp: assms(4) message_in_fields)
  have flags: "\<not> ntohs (greh_flags_and_version buf) \<noteq> GRECP_FLAGSANDVERSION"
    by (simp add: assms(4) message_in_fields)
  show ?thesis
    by (simp only: process_grecpmessage_def Let_def fields if_not_P [OF flags] if_not_P [OF key]
        if_not_P [OF tun])
qed

lemma process_accept:
  assumes "tun \<in> {GRECP_TUNTYPE_LTE, GRECP_TUNTYPE_DSL}"
    and "\<And>x. x \<in> set xs \<Longrightarrow> exact_tlv x" and "wf_sys s"
  shows "process_grecpmessage w (message_in key GRECP_MSGTYPE_ACCEPT tun xs stale) (message_size xs) s =
    Inr (establish_tunnel w tun (set_haap (fold accept_tlv xs) s))"
proof -
  let ?buf = "message_in key GRECP_MSGTYPE_ACCEPT tun xs stale"
  have "attr_loop accept_attribute ?buf 9 (message_size xs - 9) (haap (rt s)) =
      fold_res (accept_attribute ?buf) (parse_attrs ?buf 9 (message_size xs - 9)) (haap (rt s))"
    using message_in_bound by (intro attr_loop_eq_fold) simp
  also have "\<dots> = Inr (fold accept_tlv xs (haap (rt s)))"
  proof -
    have xs: "map (attr_view ?buf) (parse_attrs ?buf 9 (message_size xs - 9)) = xs"
      by (rule parse_message_in) (use assms(2) in \<open>simp add: exact_tlv_def\<close>)
    have "exact_tlv (attr_view ?buf a)" if "a \<in> set (parse_attrs ?buf 9 (message_size xs - 9))" for a
      using assms(2) xs that by (metis image_eqI list.set_map)
    then show ?thesis
      using fold_accept_exact [of "parse_attrs ?buf 9 (message_size xs - 9)" ?buf] xs assms(3)
      by (simp add: wf_sys_def wf_runtime_def)
  qed
  finally have "handle_grecpaccept w tun ?buf 9 (message_size xs - 9) s =
      Inr (establish_tunnel w tun (set_haap (\<lambda>_. fold accept_tlv xs (haap (rt s))) s))"
    by (simp add: handle_grecpaccept_def)
  moreover have "set_haap (\<lambda>_. fold accept_tlv xs (haap (rt s))) s = set_haap (fold accept_tlv xs) s"
    by simp
  ultimately show ?thesis
    using assms(1) by (subst process_message_in [OF _ _ _ refl]) auto
qed

text \<open>C10: an accept message whose attributes have the sizes of their fields is taken whatever its
  GRE key is: the server record becomes the fold of the attributes' meanings (the hello settings only
  where none is set yet) and the tunnel of the message's type comes up, with both hello stamps
  at the current time. Bytes left behind the message do not matter.\<close>
theorem process_accept_refines:
  assumes "tun \<in> {GRECP_TUNTYPE_LTE, GRECP_TUNTYPE_DSL}"
    and "\<And>x. x \<in> set xs \<Longrightarrow> exact_tlv x" and "wf_sys s"
  shows "process_grecpmessage w (message_in key GRECP_MSGTYPE_ACCEPT tun xs stale) (message_size xs) s =
    Inr (establish_tunnel w tun (set_haap (fold accept_tlv xs) s))"
  using assms by (rule process_accept)

definition example_sys :: sys where
  "example_sys = set_lte (interface_ip_update (\<lambda>_. replicate 16 3)) init_sys"

lemma wf_example_sys: "wf_sys example_sys"
  using wf_init_sys by (simp add: example_sys_def wf_sys_def wf_runtime_def)

theorem process_accept_refines_witness:
  "session_id (fold accept_tlv [(4, [0, 0, 1, 2]), (255, [])] (haap (rt example_sys))) = 258 \<and>
   process_grecpmessage example_env
     (message_in 77 GRECP_MSGTYPE_ACCEPT 0 [(4, [0, 0, 1, 2]), (255, [])] [])
     (message_size [(4, [0, 0, 1, 2]), (255, [])]) example_sys =
   Inr (establish_tunnel example_env 0
     (set_haap (fold accept_tlv [(4, [0, 0, 1, 2]), (255, [])]) example_sys))"
proof
  show "session_id (fold accept_tlv [(4, [0, 0, 1, 2]), (255, [])] (haap (rt example_sys))) = 258"
    by (simp add: accept_tlv_def Let_def)
  show "process_grecpmessage example_env
     (message_in 77 GRECP_MSGTYPE_ACCEPT 0 [(4, [0, 0, 1, 2]), (255, [])] [])
     (message_size [(4, [0, 0, 1, 2]), (255, [])]) example_sys =
   Inr (establish_tunnel example_env 0
     (set_haap (fold accept_tlv [(4, [0, 0, 1, 2]), (255, [])]) example_sys))"
    by (rule process_accept_refines)
      (auto simp: exact_tlv_def word_attribute_def wf_example_sys)
qed

subsection \<open>Messages that are ignored\<close>

text \<open>A packet with other GRE flags, a packet with another key that is not an accept message, and a
  packet whose tunnel type is neither LTE nor DSL change nothing.\<close>
theorem process_unauthenticated:
  assumes "ntohs (greh_flags_and_version buf) \<noteq> GRECP_FLAGSANDVERSION \<or>
    (ntohl (greh_key buf) \<noteq> bonding_key (haap (rt s)) \<and>
     drop_bit 4 (msgtype_and_tuntype buf) \<noteq> GRECP_MSGTYPE_ACCEPT) \<or>
    msgtype_and_tuntype buf AND 0x0f \<notin> {GRECP_TUNTYPE_LTE, GRECP_TUNTYPE_DSL}"
  shows "process_grecpmessage w buf sz s = Inr s"
  using assms by (auto simp: process_grecpmessage_def Let_def)

theorem process_unauthenticated_witness:
  "process_grecpmessage example_env (grecp_header 5 GRECP_MSGTYPE_TEARDOWN 0) 9 example_sys =
   Inr example_sys"
proof (rule process_unauthenticated)
  have "ntohl (greh_key (grecp_header 5 GRECP_MSGTYPE_TEARDOWN 0)) = 5"
    and "msgtype_and_tuntype (grecp_header 5 GRECP_MSGTYPE_TEARDOWN 0) = push_bit 4 5 OR 0"
    using header_fields(3,4) [of 5 GRECP_MSGTYPE_TEARDOWN 0 "[]"] by simp_all
  then show "ntohs (greh_flags_and_version (grecp_header 5 GRECP_MSGTYPE_TEARDOWN 0)) \<noteq> GRECP_FLAGSANDVERSION \<or>
    (ntohl (greh_key (grecp_header 5 GRECP_MSGTYPE_TEARDOWN 0)) \<noteq> bonding_key (haap (rt example_sys)) \<and>
     drop_bit 4 (msgtype_and_tuntype (grecp_header 5 GRECP_MSGTYPE_TEARDOWN 0)) \<noteq> GRECP_MSGTYPE_ACCEPT) \<or>
    msgtype_and_tuntype (grecp_header 5 GRECP_MSGTYPE_TEARDOWN 0) AND 0x0f
      \<notin> {GRECP_TUNTYPE_LTE, GRECP_TUNTYPE_DSL}"
    by (simp add: example_sys_def init_sys_def zero_runtime_def zero_haap_def)
qed

subsection \<open>Memory the handlers touch\<close>

lemmas process_defs = process_grecpmessage_def handle_grecpaccept_def handle_grecpdeny_def
  handle_grecphello_def handle_grecpteardown_def handle_grecpnotify_def

text \<open>C21: no handler reads outside the receive array while the received bytes end at least eight
  bytes before its end. (The time stamp of a hello is read as eight bytes, the error codes
  and the filter list as four, whatever the length of their attribute.)\<close>
theorem process_reads_in_bounds:
  assumes "sz + 8 \<le> int (length buf)"
  shows "process_grecpmessage w buf sz s \<noteq> Inl Out_Of_Bounds_Read"
proof -
  have b: "int 9 + (sz - 9) + int n \<le> int (length buf)" if "n \<le> 8" for n
    using assms that by simp
  have "attr_loop accept_attribute buf 9 (sz - 9) h \<noteq> Inl Out_Of_Bounds_Read" for h
    by (rule accept_body.loop_reads [OF b]) simp
  moreover have "attr_loop error_code_attribute buf 9 (sz - 9) e \<noteq> Inl Out_Of_Bounds_Read" for e
    by (rule error_code_body.loop_reads [OF b]) simp
  moreover have "attr_loop (hello_attribute w t) buf 9 (sz - 9) s \<noteq> Inl Out_Of_Bounds_Read" for t
    by (rule hello_body.loop_reads [OF b]) simp
  moreover have "attr_loop notify_attribute buf 9 (sz - 9) s \<noteq> Inl Out_Of_Bounds_Read"
    by (rule notify_body.loop_reads [OF b]) simp
  ultimately show ?thesis
    by (auto simp: process_defs Let_def bind_res_eq_Inl)
qed

theorem process_reads_in_bounds_witness:
  "process_grecpmessage example_env (replicate 1500 0) 1492 example_sys \<noteq> Inl Out_Of_Bounds_Read"
  by (rule process_reads_in_bounds) simp

text \<open>
  What an attribute of any size does. A value that is shorter than its field is put over the first bytes of it, and the
  word that results is swapped as a whole. The two hello settings are only written while they are zero.
\<close>

definition merged :: "u32 \<Rightarrow> bytes \<Rightarrow> u32" where
  "merged old v = word_of_bytes (rev (v @ drop (length v) (bytes_of_u32 old)))"

definition store_field :: "u8 \<times> bytes \<Rightarrow> haap \<Rightarrow> haap" where
  "store_field x h =
     (let i = fst x; v = snd x in
      if i = GRECP_MSGATTR_H_IPV6_ADDRESS then h\<lparr>haap_ip := v @ drop (length v) (haap_ip h)\<rparr>
      else if i = GRECP_MSGATTR_SESSION_ID then h\<lparr>session_id := merged (session_id h) v\<rparr>
      else if i = GRECP_MSGATTR_ACTIVE_HELLO_INTERVAL then
        (if active_hello_interval h = 0 then h\<lparr>active_hello_interval := merged 0 v\<rparr> else h)
      else if i = GRECP_MSGATTR_HELLO_RETRY_TIMES then
        (if hello_retry_times h = 0 then h\<lparr>hello_retry_times := merged 0 v\<rparr> else h)
      else if i = GRECP_MSGATTR_BONDING_KEY_VALUE then h\<lparr>bonding_key := merged (bonding_key h) v\<rparr>
      else if i = GRECP_MSGATTR_BYPASS_BANDWIDTH_CHECK_INTERVAL then
        h\<lparr>bypass_bandwidth_check_interval := merged (bypass_bandwidth_check_interval h) v\<rparr>
      else h)"

text \<open>The room for the value of an attribute, if it is copied at all.\<close>

definition field_room :: "u8 \<Rightarrow> haap \<Rightarrow> nat option" where
  "field_room i h =
     (if i = GRECP_MSGATTR_H_IPV6_ADDRESS then Some 16
      else if i \<in> {GRECP_MSGATTR_SESSION_ID, GRECP_MSGATTR_BONDING_KEY_VALUE, GRECP_MSGATTR_BYPASS_BANDWIDTH_CHECK_INTERVAL}
        \<or> i = GRECP_MSGATTR_ACTIVE_HELLO_INTERVAL \<and> active_hello_interval h = 0
        \<or> i = GRECP_MSGATTR_HELLO_RETRY_TIMES \<and> hello_retry_times h = 0 then Some 4
      else None)"

definition oversized :: "u8 \<times> bytes \<Rightarrow> haap \<Rightarrow> bool" where
  "oversized x h \<longleftrightarrow> (case field_room (fst x) h of None \<Rightarrow> False | Some n \<Rightarrow> n < length (snd x))"

text \<open>Some attribute of the list is too long for its field, in the state that the ones before it leave.\<close>

fun some_oversized :: "(u8 \<times> bytes) list \<Rightarrow> haap \<Rightarrow> bool" where
  "some_oversized [] h \<longleftrightarrow> False"
| "some_oversized (x # xs) h \<longleftrightarrow> oversized x h \<or> some_oversized xs (store_field x h)"

definition fitting :: "u8 \<times> bytes \<Rightarrow> bool" where
  "fitting x \<longleftrightarrow> (fst x = GRECP_MSGATTR_H_IPV6_ADDRESS \<longrightarrow> length (snd x) \<le> 16) \<and>
     (word_attribute (fst x) \<longrightarrow> length (snd x) \<le> 4)"

lemma accept_attribute_fitting:
  assumes "fitting (attr_view buf a)" and "length (haap_ip h) = 16"
  shows "\<exists>h'. accept_attribute buf a h = Inr h' \<and> length (haap_ip h') = 16"
  using assms
  by (auto simp: fitting_def word_attribute_def attr_view_def accept_attribute_def Let_def
      memcpy_u32_def memcpy_into_def)

lemma merged_word:
  assumes "length v \<le> 4"
  shows "ntohl (word_of_bytes (v @ drop (length v) (bytes_of_u32 old))) = merged old v"
  unfolding merged_def using assms by (intro ntohl_of_bytes) simp

lemma accept_attribute_stores:
  assumes "length (haap_ip h) = 16"
  shows "accept_attribute buf a h =
    (if oversized (attr_view buf a) h then Inl Buffer_Overflow else Inr (store_field (attr_view buf a) h))"
  using assms
  by (auto simp: accept_attribute_def oversized_def field_room_def store_field_def attr_view_def Let_def
      merged_word memcpy_into_def memcpy_u32_def)

lemma store_field_ip:
  "length (haap_ip h) = 16 \<Longrightarrow> \<not> oversized x h \<Longrightarrow> length (haap_ip (store_field x h)) = 16"
  by (auto simp: store_field_def oversized_def field_room_def Let_def)

lemma fold_accept_stores:
  assumes "length (haap_ip h) = 16"
  shows "fold_res (accept_attribute buf) as h =
    (if some_oversized (map (attr_view buf) as) h then Inl Buffer_Overflow
     else Inr (fold store_field (map (attr_view buf) as) h))"
  using assms by (induction as arbitrary: h) (simp_all add: accept_attribute_stores store_field_ip)

text \<open>C22: An accept message writes outside a field of the server record exactly when one of its attributes claims a
  value that is longer than the field, the two hello settings included as long as they are zero. Otherwise
  every attribute is taken, also one that is shorter than its field, and the tunnel comes up.\<close>
theorem accept_overflow_iff_oversized:
  assumes "int p + sz \<le> int (length buf)" and "wf_sys s" and "xs = map (attr_view buf) (parse_attrs buf p sz)"
  shows "handle_grecpaccept w tun buf p sz s =
    (if some_oversized xs (haap (rt s)) then Inl Buffer_Overflow
     else Inr (establish_tunnel w tun (set_haap (fold store_field xs) s)))"
proof -
  have "length (haap_ip (haap (rt s))) = 16"
    using assms(2) by (simp add: wf_sys_def wf_runtime_def)
  note f = fold_accept_stores [OF this]
  have same: "set_haap (\<lambda>_. fold store_field xs (haap (rt s))) s = set_haap (fold store_field xs) s" by simp
  have "handle_grecpaccept w tun buf p sz s =
    (if some_oversized xs (haap (rt s)) then Inl Buffer_Overflow
     else Inr (establish_tunnel w tun (set_haap (\<lambda>_. fold store_field xs (haap (rt s))) s)))"
    by (simp add: handle_grecpaccept_def attr_loop_eq_fold [OF assms(1)] f flip: assms(3))
  then show ?thesis by (simp only: same)
qed

theorem accept_overflow_iff_oversized_witness:
  "handle_grecpaccept example_env 0 (encode_attr (14, [1, 2, 3, 4, 5])) 0 8 example_sys = Inl Buffer_Overflow"
proof -
  let ?v = "[1, 2, 3, 4, 5] :: bytes"
  let ?buf = "encode_attr (14, ?v)"
  have "map (attr_view ([] @ concat (map encode_attr [(14, ?v)]) @ []))
      (parse_attrs ([] @ concat (map encode_attr [(14, ?v)]) @ []) (length ([] :: bytes))
        (int (length (concat (map encode_attr [(14, ?v)]))))) = [(14, ?v)]"
    by (rule parse_attrs_encoded) simp
  then have xs: "[(14, ?v)] = map (attr_view ?buf) (parse_attrs ?buf 0 8)"
    by (simp add: length_encode_attr)
  have "some_oversized [(14, ?v)] (haap (rt example_sys))"
    by (simp add: oversized_def field_room_def example_sys_def init_sys_def zero_runtime_def zero_haap_def)
  then show ?thesis
    using accept_overflow_iff_oversized [OF _ wf_example_sys xs, of example_env 0]
    by (simp add: length_encode_attr)
qed

subsection \<open>Left-over bytes\<close>

text \<open>A packet of at most nine bytes is handled by what an earlier packet left in the array: if
  an accept message is still there, the tunnel of its type comes up again although nothing of
  the kind was received.\<close>
theorem process_stale_header:
  assumes "sz \<le> 9" and "ntohs (greh_flags_and_version buf) = GRECP_FLAGSANDVERSION"
    and "drop_bit 4 (msgtype_and_tuntype buf) = GRECP_MSGTYPE_ACCEPT"
    and "msgtype_and_tuntype buf AND 0x0f = tun"
    and "tun \<in> {GRECP_TUNTYPE_LTE, GRECP_TUNTYPE_DSL}"
  shows "process_grecpmessage w buf sz s = Inr (establish_tunnel w tun s)"
  using assms by (auto simp: process_grecpmessage_def handle_grecpaccept_def Let_def)

theorem process_stale_header_witness:
  "process_grecpmessage example_env (grecp_header 5 GRECP_MSGTYPE_ACCEPT 8) 4 example_sys =
   Inr (establish_tunnel example_env 8 example_sys)"
proof -
  note f = header_fields [of 5 GRECP_MSGTYPE_ACCEPT 8 "[]"]
  show ?thesis
    by (rule process_stale_header) (use f(1,4) in simp_all)
qed

subsection \<open>A hello that comes back\<close>

text \<open>A hello in the receive array is handed to the tunnel of its type as sent.\<close>

lemma process_hello_echo:
  assumes "tun \<in> {GRECP_TUNTYPE_LTE, GRECP_TUNTYPE_DSL}"
    and "key = bonding_key (haap (rt s))"
  shows "process_grecpmessage w
      (message_in key GRECP_MSGTYPE_HELLO tun (message_tlvs tun (Hello sec ms)) stale)
      (message_size (message_tlvs tun (Hello sec ms))) s =
    Inr (hello_received w tun sec ms s)"
proof -
  let ?xs = "message_tlvs tun (Hello sec ms)"
  define buf where "buf = message_in key GRECP_MSGTYPE_HELLO tun ?xs stale"
  let ?as = "parse_attrs buf 9 (message_size ?xs - 9)"
  have xs: "map (attr_view buf) ?as = [(GRECP_MSGATTR_TIMESTAMP, be32 sec @ be32 ms), (GRECP_MSGATTR_PADDING, [])]"
    using parse_message_in [of ?xs key GRECP_MSGTYPE_HELLO tun stale] unfolding buf_def by fastforce
  then obtain a b where as: "?as = [a, b]"
    and a: "attr_id a = GRECP_MSGATTR_TIMESTAMP" "attr_payload buf a = be32 sec @ be32 ms"
    and b: "attr_id b = GRECP_MSGATTR_PADDING"
    by (auto simp: attr_view_def map_eq_Cons_conv)
  have "length (take (unat (attr_length a)) (drop (attr_value a) buf)) = 8"
    using a(2) by (simp add: attr_payload_def)
  then have len: "8 \<le> unat (attr_length a)" and fits: "attr_value a + 8 \<le> length buf"
    by auto
  have p8: "take 8 (drop (attr_value a) buf) = be32 sec @ be32 ms"
  proof -
    have "take 8 (drop (attr_value a) buf) = take 8 (attr_payload buf a)"
      using len by (simp add: attr_payload_def min_def)
    also have "\<dots> = take 8 (be32 sec @ be32 ms)" by (simp only: a(2))
    finally show ?thesis by simp
  qed
  have halves: "take 4 (drop (attr_value a) buf) = be32 sec"
    "take 4 (drop (attr_value a + 4) buf) = be32 ms"
    using take_two_halves [of 4 4 "attr_value a" buf "be32 sec" "be32 ms"] p8 by simp_all
  have "hello_attribute w tun buf a s = Inr (hello_received w tun sec ms s)"
    using fits by (simp add: hello_attribute_def a(1) mem_read_def halves ntohl_of_bytes)
  moreover have "hello_attribute w tun buf b t = Inr t" for t
    by (simp add: hello_attribute_def b)
  ultimately have "handle_grecphello w tun buf 9 (message_size ?xs - 9) s = Inr (hello_received w tun sec ms s)"
    using message_in_bound [of ?xs key GRECP_MSGTYPE_HELLO tun stale, folded buf_def]
    by (simp add: handle_grecphello_def attr_loop_eq_fold as del: message_tlvs.simps)
  then show ?thesis
    using assms process_message_in [OF _ _ _ buf_def, of s w "message_size ?xs"]
    unfolding buf_def by auto
qed

lemma send_grecphello_sent:
  assumes "send_grecphello w tun s = (True, s1)"
  obtains src sec ms where
    "trace s1 = trace s @ [Sendmsg src (haap_ip (haap (rt s)))
        (grecp_header (bonding_key (haap (rt s))) GRECP_MSGTYPE_HELLO tun @ hello_attributes sec ms) True]"
    "rt s1 = (if tun = GRECP_TUNTYPE_LTE then lte_update (last_hello_sent_update (\<lambda>_. uint sec)) (rt s)
       else dsl_update (last_hello_sent_update (\<lambda>_. uint sec)) (rt s))"
proof -
  let ?sec = "word_of_int (fst (env_clock w (tick s))) :: u32"
  let ?ms = "word_of_int (snd (env_clock w (Suc (tick s))) div 1000 div 1000) :: u32"
  let ?s0 = "s\<lparr>tick := Suc (Suc (tick s))\<rparr>"
  have eq: "send_grecphello w tun s =
      (let (res, s') = send_grecpmessage w GRECP_MSGTYPE_HELLO tun (hello_attributes ?sec ?ms) ?s0
       in (res, if tun = GRECP_TUNTYPE_LTE then set_lte (last_hello_sent_update (\<lambda>_. uint ?sec)) s'
                else set_dsl (last_hello_sent_update (\<lambda>_. uint ?sec)) s'))"
    by (simp add: send_grecphello_def get_uptime_eq Let_def case_prod_beta)
  show thesis
    using send_grecpmessage_cases [of tun ?s0 w GRECP_MSGTYPE_HELLO "hello_attributes ?sec ?ms"]
  proof cases
    case no_source
    with eq assms show thesis by simp
  next
    case (sent src ok)
    with eq assms show thesis
      by (intro that [of src ?sec ?ms]) auto
  qed
qed

text \<open>C24: when the server echoes the bytes of a hello that was sent, the receive stamp of the
  tunnel equals its send stamp and its miss counter is zero, whatever lies behind the
  message in the receive array.\<close>
theorem hello_round_trip:
  assumes "tun \<in> {GRECP_TUNTYPE_LTE, GRECP_TUNTYPE_DSL}"
    and "send_grecphello w tun s = (True, s1)"
    and "trace s1 = trace s @ [Sendmsg src dst msg ok]"
  shows "\<exists>s2. process_grecpmessage w' (msg @ stale) (int (length msg)) s1 = Inr s2 \<and>
    (if tun = GRECP_TUNTYPE_LTE
     then last_hello_received (lte (rt s2)) = last_hello_sent (lte (rt s2)) \<and> missed_hellos (lte (rt s2)) = 0
     else last_hello_received (dsl (rt s2)) = last_hello_sent (dsl (rt s2)) \<and> missed_hellos (dsl (rt s2)) = 0)"
proof -
  let ?key = "bonding_key (haap (rt s))"
  obtain src' sec ms where tr: "trace s1 = trace s @ [Sendmsg src' (haap_ip (haap (rt s)))
        (grecp_header ?key GRECP_MSGTYPE_HELLO tun @ hello_attributes sec ms) True]"
    and rt: "rt s1 = (if tun = GRECP_TUNTYPE_LTE then lte_update (last_hello_sent_update (\<lambda>_. uint sec)) (rt s)
       else dsl_update (last_hello_sent_update (\<lambda>_. uint sec)) (rt s))"
    using send_grecphello_sent [OF assms(2)] by blast
  let ?xs = "message_tlvs tun (Hello sec ms)"
  have attrs: "hello_attributes sec ms = concat (map encode_attr ?xs)"
    using attribute_bytes_eq_tlvs [of tun "Hello sec ms"] by simp
  have msg: "msg = grecp_header ?key GRECP_MSGTYPE_HELLO tun @ concat (map encode_attr ?xs)"
    using assms(3) tr attrs by simp
  have "process_grecpmessage w' (message_in ?key GRECP_MSGTYPE_HELLO tun ?xs stale) (message_size ?xs) s1 =
      Inr (hello_received w' tun sec ms s1)"
    by (rule process_hello_echo [OF assms(1)]) (simp add: rt)
  moreover have "message_in ?key GRECP_MSGTYPE_HELLO tun ?xs stale = msg @ stale"
    and "message_size ?xs = int (length msg)"
    by (simp_all add: msg message_in_def message_size_def del: message_tlvs.simps)
  ultimately show ?thesis
    by (auto simp: hello_received_def get_uptime_eq Let_def rt)
qed

theorem hello_round_trip_witness:
  "\<exists>s1 src dst msg s2. send_grecphello example_env 0 example_sys = (True, s1) \<and>
    process_grecpmessage example_env (msg @ []) (int (length msg)) s1 = Inr s2 \<and>
    last_hello_received (lte (rt s2)) = last_hello_sent (lte (rt s2))"
proof -
  have sent: "fst (send_grecphello example_env 0 example_sys) = True"
    by (simp add: send_grecphello_def send_grecpmessage_def example_sys_def example_env_def
        get_uptime_eq ask_ok_def emit_def Let_def init_sys_def zero_runtime_def zero_lte_def
        in6addr_any_def)
  let ?s1 = "snd (send_grecphello example_env 0 example_sys)"
  have eq: "send_grecphello example_env 0 example_sys = (True, ?s1)"
    using sent by (metis prod.collapse)
  then obtain src dst msg where "trace ?s1 = trace example_sys @ [Sendmsg src dst msg True]"
    by (metis send_grecphello_sent)
  from hello_round_trip [OF _ eq this, of example_env "[]"] eq show ?thesis by auto
qed

end
