(* ===== verification/Rounds.thy ===== *)
theory Rounds
  imports Devices Dispatch
begin

text \<open>
  Properties of whole rounds of \<open>execute_timers\<close>: that a round runs through, what
  is left of a session, what is sent, and how the process stops.
\<close>

subsection \<open>A round runs through\<close>

lemma update_ips_total:
  assumes "printed_table (env_text w (tick s))" and "printed_table (env_text w (Suc (tick s)))"
  shows "\<exists>s'. update_ips w s = Inr s'"
proof -
  obtain ip where one: "get_primary_ip6 w (interface_name (lte (rt s))) s = Inr (ip, s\<lparr>tick := Suc (tick s)\<rparr>)"
    using get_primary_ip6_total [OF assms(1)] by blast
  let ?s = "set_lte (interface_ip_update (\<lambda>_. ip)) (s\<lparr>tick := Suc (tick s)\<rparr>)"
  obtain ip2 where "get_primary_ip6 w (interface_name (dsl (rt ?s))) ?s = Inr (ip2, ?s\<lparr>tick := Suc (tick ?s)\<rparr>)"
    using get_primary_ip6_total [of w ?s] assms(2) by auto
  with one show ?thesis by (simp add: update_ips_def Let_def)
qed

lemma start_threads_total:
  assumes "bonding (rt s) \<longrightarrow> sockfd_gre s \<noteq> 0 \<or> (\<forall>k. 0 \<le> env_int w k \<and> env_ok w k)"
  shows "\<exists>s'. start_threads w s = Inr s'"
proof (cases "bonding (rt s) \<and> tunnel_interface_created (rt s) \<and> sockfd_gre s = 0")
  case True
  then have "\<exists>s'. open_gre_socket w s = Inr s'"
    using assms by (auto simp: open_gre_socket_def ask_int_def ask_ok_def Let_def not_less)
  then obtain s1 where "open_gre_socket w s = Inr s1" ..
  with True show ?thesis by (simp add: start_threads_def Let_def case_prod_beta)
qed (auto simp: start_threads_def Let_def case_prod_beta)

lemma tunnel_device_gre: "sockfd_gre (tunnel_device w s) = sockfd_gre s" "bonding (rt (tunnel_device w s)) = bonding (rt s)"
  by (auto simp: tunnel_device_def create_tunnel_dev_def create_tun_tunnel_dev_def create_gre_tunnel_dev_def
      destroy_tunnel_dev_def destroy_tun_tunnel_dev_def destroy_gre_tunnel_dev_def call_defs Let_def case_prod_beta)

lemma execute_timers_total:
  assumes "printed_table (env_text w (tick s))" and "printed_table (env_text w (Suc (tick s)))"
    and "bonding (rt s) \<longrightarrow> sockfd_gre s \<noteq> 0 \<or> (\<forall>k. 0 \<le> env_int w k \<and> env_ok w k)"
  shows "\<exists>s'. execute_timers w s = Inr s'"
proof -
  obtain s1 where s1: "update_ips w s = Inr s1" using update_ips_total [OF assms(1,2)] ..
  let ?t = "tunnel_sections w s1"
  have "sockfd_gre ?t = sockfd_gre s" "bonding (rt ?t) = bonding (rt s)"
    using process_log_update_ips [OF s1] flag_state_update_ips [OF s1]
      process_log_tunnel_sections [of w s1] flag_state_tunnel_sections [of w s1]
    by (simp_all add: process_log_def device_log_def flag_state_def device_state_def)
  then have "\<exists>s2. start_threads w (tunnel_device w ?t) = Inr s2"
    using assms(3) by (intro start_threads_total) (simp add: tunnel_device_gre)
  with s1 show ?thesis by (auto simp: execute_timers_sections)
qed

text \<open>
  C27: The timers come to an end without a fault, whatever else the state of the process is, if each of the two
  readings of the interface table gives a table that the kernel prints (or no file), and, with bonding, the data
  socket is open or all system calls of the round succeed. The two readings may differ. A line that the kernel does not print can overflow
  the name array, and a data socket that cannot be opened ends the process.
\<close>

theorem execute_timers_runs_through:
  assumes "printed_table (env_text w (tick s))" and "printed_table (env_text w (Suc (tick s)))"
    and "bonding (rt s) \<longrightarrow> sockfd_gre s \<noteq> 0 \<or> (\<forall>k. 0 \<le> env_int w k \<and> env_ok w k)"
  shows "\<exists>s'. execute_timers w s = Inr s'"
  using assms by (rule execute_timers_total)

theorem execute_timers_runs_through_witness:
  "\<exists>s'. execute_timers (example_env\<lparr>env_text := \<lambda>_. Some (concat (map kernel_text kernel_example))\<rparr>)
     (init_sys\<lparr>rt := zero_runtime\<lparr>bonding := True\<rparr>\<rparr>) = Inr s'"
proof -
  have "\<forall>l \<in> set kernel_example. kernel_line_ok l"
    by (simp add: kernel_example_def kernel_line_ok_def isspace_def)
  then have "printed_table (Some (concat (map kernel_text kernel_example)))"
    by (auto simp: printed_table_def table_answer_def)
  then show ?thesis by (intro execute_timers_runs_through) (simp_all add: example_env_def)
qed

subsection \<open>Calls without an answer\<close>

text \<open>An environment in which no call succeeds, at a fixed time, and a process with an LTE tunnel in it.\<close>

definition silent_env :: "int \<Rightarrow> env" where
  "silent_env now = \<lparr>env_clock = (\<lambda>_. (now, 0)), env_ok = (\<lambda>_. False), env_int = (\<lambda>_. -1), env_text = (\<lambda>_. None),
     env_status = (\<lambda>_. 1), env_output = (\<lambda>_. None)\<rparr>"

definition silent_sys :: sys where
  "silent_sys = init_sys\<lparr>rt := zero_runtime\<lparr>
     haap := zero_haap\<lparr>active_hello_interval := 5, hello_retry_times := 2\<rparr>,
     lte := zero_lte\<lparr>tunnel_established := True, last_hello_sent := 100, last_hello_received := 100\<rparr>\<rparr>\<rparr>"

lemma execute_timers_bonding: "execute_timers w s = Inr s' \<Longrightarrow> bonding (rt s') = bonding (rt s)"
  using configured_timers.execute_timers_keeps [of "rt s" s w s'] by (simp add: configured_def)

subsection \<open>The end of a session\<close>

lemma reset_session_acked:
  "\<not> tunnel_established (lte (rt s)) \<Longrightarrow> \<not> tunnel_established (dsl (rt s)) \<Longrightarrow>
     \<not> filter_list_acked (rt (reset_session w s))"
  by (simp add: reset_session_def Let_def)

text \<open>
  C15: The session ends with its tunnels. After a round in which no tunnel is up any more, the server is
  forgotten: messages go to the anycast address again, with key and session 0. As long as a tunnel
  is up a round changes nothing of the record of the server.
\<close>

theorem session_ends_with_tunnels:
  assumes "execute_timers w s = Inr s'"
  shows "if tunnel_established (lte (rt s')) \<or> tunnel_established (dsl (rt s'))
    then haap (rt s') = haap (rt s)
    else haap_ip (haap (rt s')) = anycast_ip (haap (rt s)) \<and> bonding_key (haap (rt s')) = 0 \<and>
      session_id (haap (rt s')) = 0 \<and> commit_count (haap (rt s')) = 0 \<and> \<not> filter_list_acked (rt s')"
proof (cases "tunnel_established (lte (rt s')) \<or> tunnel_established (dsl (rt s'))")
  case True
  then show ?thesis using timers_haap [OF assms] by auto
next
  case False
  obtain s1 s2 where s1: "update_ips w s = Inr s1"
    and s2: "start_threads w (tunnel_device w (tunnel_sections w s1)) = Inr s2"
    and s': "s' = handle_pending_signal w (after_threads w s2)"
    using execute_timersE [OF assms] .
  note late = session_after_timers [OF s2, folded s']
  have "\<not> filter_list_acked (rt s')"
    using False unfolding late tunnel_sections_def by (intro reset_session_acked) simp_all
  then show ?thesis using False timers_haap [OF assms] by simp
qed

theorem session_ends_with_tunnels_witness:
  "\<exists>s'. execute_timers (silent_env 106) silent_sys = Inr s' \<and>
    (tunnel_established (lte (rt s')) \<or> bonding_key (haap (rt s')) = 0)"
proof -
  obtain s' where s': "execute_timers (silent_env 106) silent_sys = Inr s'"
    using execute_timers_total [of "silent_env 106" silent_sys]
    by (auto simp: silent_env_def silent_sys_def zero_runtime_def)
  with session_ends_with_tunnels [OF s']
  have "haap (rt s') = haap (rt silent_sys) \<or> bonding_key (haap (rt s')) = 0"
    by (auto split: if_splits)
  then have "bonding_key (haap (rt s')) = 0"
    by (auto simp: silent_sys_def zero_runtime_def zero_haap_def)
  with s' show ?thesis by blast
qed

subsection \<open>Leases\<close>

text \<open>
  The expiry of the prefix is booked on the wrong lease. When the lease of the prefix has run out
  the section clears the IPv4 address and its lease and keeps the prefix with its lease, so that it expires again
  in every later round.
\<close>

theorem prefix_expiry_clears_other_lease:
  assumes "dhcp6_lease_time (dhcp6 (rt s)) \<noteq> 0"
    and "dhcp6_lease_obtained (dhcp6 (rt s)) + uint (dhcp6_lease_time (dhcp6 (rt s))) \<le> fst (env_clock w (tick s))"
  shows "dhcp6 (rt (lease6_expiry w s)) = dhcp6 (rt s) \<and>
    dhcp_ip (dhcp (rt (lease6_expiry w s))) = inaddr_any \<and> dhcp_lease_time (dhcp (rt (lease6_expiry w s))) = 0"
  using assms by (simp add: lease6_expiry_def get_uptime_eq Let_def)

theorem prefix_expiry_clears_other_lease_witness:
  "dhcp_lease_time (dhcp (rt (lease6_expiry (silent_env 500)
     (set_dhcp (dhcp_lease_time_update (\<lambda>_. 7200))
       (set_dhcp6 (\<lambda>d. d\<lparr>dhcp6_lease_time := 300, dhcp6_lease_obtained := 200\<rparr>) init_sys))))) = 0"
  by (rule conjunct2 [OF conjunct2 [OF prefix_expiry_clears_other_lease]])
    (simp_all add: silent_env_def)

subsection \<open>Signals\<close>

lemma trace_trigger_event: "set (trace s) \<subseteq> set (trace (trigger_event w name s))"
  by (auto simp: trigger_event_def Let_def case_prod_beta)

lemma delete_dhcp_script_trace:
  "trace (snd (delete_dhcp_script w s)) = trace s @ [Unlink_Script (dhcp_script_path s)]"
  by (simp add: delete_dhcp_script_def ask_ok_def)

text \<open>What \<open>shutdown\<close> did before the control socket is closed.\<close>

definition shutdown_devices :: "env \<Rightarrow> sys \<Rightarrow> sys" where
  "shutdown_devices w s =
     (let s = (if udhcpc_pid (dhcp (rt s)) \<noteq> 0 then snd (kill_udhcpc w s) else s);
          s = (if udhcpc6_pid (dhcp6 (rt s)) \<noteq> 0 then snd (kill_udhcpc6 w s) else s);
          s = (if dhcp_lease_time (dhcp (rt s)) \<noteq> 0 then trigger_event w ''dhcpdown_ip'' s else s);
          s = (if dhcp6_lease_time (dhcp6 (rt s)) \<noteq> 0 then trigger_event w ''dhcpdown_ip6'' s else s);
          s = (if bonding (rt s) then cancel_threads s else s);
          s = (if tunnel_interface_created (rt s) then snd (destroy_tunnel_dev w s) else s)
      in if tunnel_established (lte (rt s)) \<and> tunnel_established (dsl (rt s))
         then snd (send_grecpnotify_linkfailure w GRECP_TUNTYPE_DSL
                (snd (send_grecpnotify_linkfailure w GRECP_TUNTYPE_LTE s)))
         else s)"

lemma shutdown_ends:
  "shutdown w s = (trigger_event w ''shutdown''
     (snd (delete_dhcp_script w (emit Close_Grecp_Socket (shutdown_devices w s)))))\<lparr>exited := Some 0\<rparr>"
  by (simp add: shutdown_def shutdown_devices_def Let_def)

lemma shutdown_devices_path: "dhcp_script_path (shutdown_devices w s) = dhcp_script_path s"
proof -
  have "process_log (shutdown_devices w s) = process_log s"
    by (simp add: shutdown_devices_def Let_def)
  then show ?thesis by (simp add: process_log_def)
qed

lemma shutdown_effects:
  "exited (shutdown w s) = Some 0"
  "{Close_Grecp_Socket, Unlink_Script (dhcp_script_path s)} \<subseteq> set (trace (shutdown w s))"
proof -
  let ?t = "emit Close_Grecp_Socket (shutdown_devices w s)"
  have "{Close_Grecp_Socket, Unlink_Script (dhcp_script_path s)} \<subseteq> set (trace (snd (delete_dhcp_script w ?t)))"
    by (simp add: delete_dhcp_script_trace emit_def shutdown_devices_path)
  also have "\<dots> \<subseteq> set (trace (trigger_event w ''shutdown'' (snd (delete_dhcp_script w ?t))))"
    by (rule trace_trigger_event)
  finally show "{Close_Grecp_Socket, Unlink_Script (dhcp_script_path s)} \<subseteq> set (trace (shutdown w s))"
    by (simp add: shutdown_ends)
qed (simp add: shutdown_ends)

lemma device_sections_process:
  "runtime.signal (rt (tunnel_device w s)) = runtime.signal (rt s)"
  "exited (tunnel_device w s) = exited s" "dhcp_script_path (tunnel_device w s) = dhcp_script_path s"
  by (simp_all add: tunnel_device_def create_tunnel_dev_def create_tun_tunnel_dev_def create_gre_tunnel_dev_def
      destroy_tunnel_dev_def destroy_tun_tunnel_dev_def destroy_gre_tunnel_dev_def trigger_event_def
      call_defs Let_def case_prod_beta)

lemma start_threads_process:
  assumes "start_threads w s = Inr s'"
  shows "runtime.signal (rt s') = runtime.signal (rt s)" "exited s' = exited s"
    "dhcp_script_path s' = dhcp_script_path s"
  using assms by (auto simp: start_threads_def open_gre_socket_def call_defs Let_def case_prod_beta
      bind_res_eq_Inr split: if_splits)

lemma process_before_signal:
  assumes "update_ips w s = Inr s1" and "start_threads w (tunnel_device w (tunnel_sections w s1)) = Inr s2"
  shows "runtime.signal (rt (after_threads w s2)) = runtime.signal (rt s)"
    "exited (after_threads w s2) = exited s" "dhcp_script_path (after_threads w s2) = dhcp_script_path s"
  using flag_state_update_ips [OF assms(1)] process_log_update_ips [OF assms(1)] start_threads_process [OF assms(2)]
    flag_state_tunnel_sections [of w s1] process_log_tunnel_sections [of w s1]
    flag_state_after_threads process_log_after_threads device_sections_process
  by (simp_all add: flag_state_def process_log_def)

lemma signal_outcome:
  assumes "execute_timers w s = Inr s'"
  shows "if runtime.signal (rt s) \<in> {SIGINT, SIGTERM}
    then exited s' = Some 0 \<and> Close_Grecp_Socket \<in> set (trace s') \<and>
      Unlink_Script (dhcp_script_path s) \<in> set (trace s')
    else exited s' = exited s \<and> runtime.signal (rt s') = 0"
proof -
  obtain s1 s2 where s1: "update_ips w s = Inr s1"
    and s2: "start_threads w (tunnel_device w (tunnel_sections w s1)) = Inr s2"
    and s': "s' = handle_pending_signal w (after_threads w s2)"
    using execute_timersE [OF assms] .
  note before = process_before_signal [OF s1 s2]
  show ?thesis
  proof (cases "runtime.signal (rt s) \<in> {SIGINT, SIGTERM}")
    case True
    then have "s' = shutdown w (after_threads w s2)" by (auto simp: s' handle_pending_signal_def before)
    with True show ?thesis using shutdown_effects [where w = w and s = "after_threads w s2"] by (simp add: before)
  next
    case False
    then have "s' = (if runtime.signal (rt s) = 0 then after_threads w s2
        else rt_update (signal_update (\<lambda>_. 0)) (after_threads w s2))"
      by (simp add: s' handle_pending_signal_def before)
    with False show ?thesis by (simp add: before)
  qed
qed

text \<open>
  C26: A signal is handled in the next round of the timers. After \<open>SIGINT\<close> or \<open>SIGTERM\<close> the process has
  exited with success, the control socket is closed and the script of the DHCP clients is
  removed; any other signal is forgotten and does not end the process.
\<close>

theorem signal_is_handled:
  assumes "execute_timers w s = Inr s'"
  shows "if runtime.signal (rt s) \<in> {SIGINT, SIGTERM}
    then exited s' = Some 0 \<and> Close_Grecp_Socket \<in> set (trace s') \<and>
      Unlink_Script (dhcp_script_path s) \<in> set (trace s')
    else exited s' = exited s \<and> runtime.signal (rt s') = 0"
  using assms by (rule signal_outcome)

theorem signal_is_handled_witness:
  "\<exists>s'. execute_timers (silent_env 106) (rt_update (signal_update (\<lambda>_. 15)) silent_sys) = Inr s' \<and>
     exited s' = Some 0"
proof -
  let ?s = "rt_update (signal_update (\<lambda>_. 15)) silent_sys"
  obtain s' where s': "execute_timers (silent_env 106) ?s = Inr s'"
    using execute_timers_total [of "silent_env 106" ?s]
    by (auto simp: silent_env_def silent_sys_def zero_runtime_def)
  have "exited s' = Some 0" using signal_is_handled [OF s'] by simp
  with s' show ?thesis by blast
qed

subsection \<open>What is sent\<close>

lemma request_trace:
  assumes "t \<in> {GRECP_TUNTYPE_LTE, GRECP_TUNTYPE_DSL}"
    and "src = (if t = GRECP_TUNTYPE_LTE then interface_ip (lte (rt s)) else interface_ip (dsl (rt s)))"
    and "src \<noteq> in6addr_any"
  shows "\<exists>msg ok. trace (snd (send_grecprequest w t s)) = trace s @ [Sendmsg src (haap_ip (haap (rt s))) msg ok] \<and>
    message_view msg = Some (bonding_key (haap (rt s)), GRECP_MSGTYPE_REQUEST, t,
      message_tlvs t (Request (session_id (haap (rt s)))))"
  using assms(3) message_view_sent [OF assms(1), of "bonding_key (haap (rt s))" "Request (session_id (haap (rt s)))"]
  unfolding assms(2) send_grecprequest_def
  by (intro exI conjI) (auto simp: send_grecpmessage_def ask_ok_def Let_def)

lemma request_without_source:
  "(if t = GRECP_TUNTYPE_LTE then interface_ip (lte (rt s)) else interface_ip (dsl (rt s))) = in6addr_any \<Longrightarrow>
     snd (send_grecprequest w t s) = s"
  by (simp add: send_grecprequest_def send_grecpmessage_def)

text \<open>The tunnel to set up next.\<close>

definition missing_tunnel :: "runtime \<Rightarrow> (u8 \<times> in6_addr) option" where
  "missing_tunnel r =
     (if \<not> tunnel_established (lte r) then Some (GRECP_TUNTYPE_LTE, interface_ip (lte r))
      else if bonding r \<and> \<not> tunnel_established (dsl r) then Some (GRECP_TUNTYPE_DSL, interface_ip (dsl r))
      else None)"

text \<open>
  C25: The section of a round that asks for tunnels, \<open>connect_tunnels\<close>, asks for a missing one, the LTE tunnel first. If the
  interface of that tunnel has an address, exactly one
  message leaves for the server; a receiver reads a request from it with the bonding key, the
  tunnel type, the client name on the LTE tunnel, and the session if there is one. Otherwise nothing is sent.
\<close>

theorem missing_tunnel_is_requested:
  "case missing_tunnel (rt s) of
     None \<Rightarrow> connect_tunnels w s = s
   | Some (t, src) \<Rightarrow>
       if src = in6addr_any then connect_tunnels w s = s
       else \<exists>msg ok. trace (connect_tunnels w s) = trace s @ [Sendmsg src (haap_ip (haap (rt s))) msg ok] \<and>
         message_view msg = Some (bonding_key (haap (rt s)), GRECP_MSGTYPE_REQUEST, t,
           message_tlvs t (Request (session_id (haap (rt s)))))"
proof (cases "tunnel_established (lte (rt s))")
  case False
  then show ?thesis
    using request_without_source [of GRECP_TUNTYPE_LTE s w] request_trace [of GRECP_TUNTYPE_LTE _ s w]
    by (auto simp: missing_tunnel_def connect_tunnels_def)
next
  case True
  then show ?thesis
    using request_without_source [of GRECP_TUNTYPE_DSL s w] request_trace [of GRECP_TUNTYPE_DSL _ s w]
    by (auto simp: missing_tunnel_def connect_tunnels_def)
qed

text \<open>
  C23: Every message the client sends can be read back. If \<open>send_grecpmessage\<close> hands a message to the socket, the
  header and the attributes that a receiver reads from its bytes are the bonding key, the message type, the
  tunnel type and the attributes of the message that was meant.
\<close>

theorem sent_message_is_readable:
  assumes "t \<in> {GRECP_TUNTYPE_LTE, GRECP_TUNTYPE_DSL}"
    and "send_grecpmessage w (message_type m) t (attribute_bytes t m) s = (ok, s')"
  shows "trace s' = trace s \<and> s' = s \<and> \<not> ok \<or>
    (\<exists>src msg. trace s' = trace s @ [Sendmsg src (haap_ip (haap (rt s))) msg ok] \<and>
      message_view msg = Some (bonding_key (haap (rt s)), message_type m, t, message_tlvs t m))"
  using assms(2) message_view_sent [OF assms(1), of "bonding_key (haap (rt s))" m]
  by (auto simp: send_grecpmessage_def ask_ok_def Let_def split: if_splits)

theorem sent_message_is_readable_witness:
  "\<exists>src msg s'. send_grecpmessage example_env (message_type Tunnel_Verify) GRECP_TUNTYPE_LTE
       (attribute_bytes GRECP_TUNTYPE_LTE Tunnel_Verify) example_sys = (True, s') \<and>
     trace s' = trace example_sys @ [Sendmsg src (haap_ip (haap (rt example_sys))) msg True] \<and>
     message_view msg = Some (0, GRECP_MSGTYPE_NOTIFY, GRECP_TUNTYPE_LTE, [(35, []), (255, [])])"
proof -
  obtain ok s' where s': "send_grecpmessage example_env (message_type Tunnel_Verify) GRECP_TUNTYPE_LTE
       (attribute_bytes GRECP_TUNTYPE_LTE Tunnel_Verify) example_sys = (ok, s')" by fastforce
  then have ok
    by (auto simp: send_grecpmessage_def example_sys_def init_sys_def zero_runtime_def zero_lte_def
        in6addr_any_def ask_ok_def example_env_def Let_def)
  moreover have "bonding_key (haap (rt example_sys)) = 0"
    by (simp add: example_sys_def init_sys_def zero_runtime_def zero_haap_def)
  ultimately show ?thesis
    using s' sent_message_is_readable [OF _ s'] by auto
qed

end
