(* ===== verification/Messages.thy ===== *)
theory Messages
  imports Devices Dispatch
begin

text \<open>
  What a control message can change at all. \<open>message_change\<close> bounds the effect of every handler, and the
  locale \<open>loop_invariant\<close> extends the contract of the timers so that an invariant of the whole
  main loop only has to be checked once against the updates that happen.
\<close>

subsection \<open>The part of the state no message changes\<close>

definition message_rest where
  "message_rest s =
     ((sockfd s, sockfd_gre s, sockfd_tun s, udhcpc_pipe s, udhcpc6_pipe s),
      (dhcp_script_path s, trace s, exited s),
      (bonding (rt s), log_level (rt s), tunnel_interface_mtu (rt s), tunnel_interface_created (rt s)),
      (tunnel_interface_name (rt s), gre2tun_thread (rt s), tun2gre_thread (rt s), runtime.signal (rt s)),
      (event_script_path (rt s), reorder_buffer_timeout (rt s), dhcp (rt s), dhcp6 (rt s)),
      (interface_name (lte (rt s)), interface_ip (lte (rt s)), interface_name (dsl (rt s)),
       interface_ip (dsl (rt s)), anycast_ip (haap (rt s))))"

definition message_change :: "sys \<Rightarrow> sys \<Rightarrow> bool" where
  "message_change s s' \<longleftrightarrow> message_rest s' = message_rest s \<and>
     (length (haap_ip (haap (rt s))) = 16 \<longrightarrow> length (haap_ip (haap (rt s'))) = 16)"

lemma message_change_refl [simp]: "message_change s s"
  by (simp add: message_change_def)

lemma message_change_hello: "message_change s0 s \<Longrightarrow> message_change s0 (hello_received w t sec ms s)"
  by (simp add: message_change_def hello_received_def get_uptime_eq Let_def message_rest_def)

lemma message_change_establish: "message_change s0 s \<Longrightarrow> message_change s0 (establish_tunnel w t s)"
  by (simp add: message_change_def establish_tunnel_def get_uptime_eq message_rest_def)

interpretation hello_change: attribute_body "hello_attribute w t" "message_change s0" 8 for w t s0
proof
  fix s a buf s'
  assume "message_change s0 s" and "hello_attribute w t buf a s = Inr s'"
  then show "message_change s0 s'"
    by (auto simp: hello_attribute_def bind_res_eq_Inr message_change_hello split: if_splits)
qed (rule hello_body.reads_near)

lemma message_change_notify:
  assumes "message_change s0 s" and "notify_attribute buf a s = Inr s'"
  shows "message_change s0 s'"
proof -
  have "message_rest s' = message_rest s \<and> haap_ip (haap (rt s')) = haap_ip (haap (rt s))"
    using assms(2) by (auto simp: notify_attribute_def bind_res_eq_Inr message_rest_def split: if_splits)
  with assms(1) show ?thesis by (simp add: message_change_def)
qed

interpretation notify_change: attribute_body notify_attribute "message_change s0" 4 for s0
  by unfold_locales (erule (1) message_change_notify, rule notify_body.reads_near)

lemma accept_change:
  assumes "handle_grecpaccept w t buf p sz s = Inr s'"
  shows "message_change s s'"
proof -
  obtain h where s': "s' = establish_tunnel w t (set_haap (\<lambda>_. h) s)"
    and h: "anycast_ip h = anycast_ip (haap (rt s))"
      "length (haap_ip (haap (rt s))) = 16 \<longrightarrow> length (haap_ip h) = 16"
    using handle_grecpaccept_frame [OF assms] by blast
  then have "message_change s (set_haap (\<lambda>_. h) s)" by (simp add: message_change_def message_rest_def)
  then show ?thesis unfolding s' by (rule message_change_establish)
qed

lemma process_change:
  assumes "process_grecpmessage w buf sz s = Inr s'"
  shows "message_change s s'"
proof -
  have teardown: "message_change s s'" if "handle_grecpteardown buf 9 (sz - 9) s = Inr s'"
    using handle_grecpteardown_result [OF that] by (simp add: message_change_def message_rest_def)
  have deny: "message_change s s'" if "handle_grecpdeny t buf 9 (sz - 9) s = Inr s'" for t
    using handle_grecpdeny_unchanged [OF that] by simp
  show ?thesis
    using assms hello_change.loop_keeps [OF message_change_refl] notify_change.loop_keeps [OF message_change_refl]
    by (auto simp: process_grecpmessage_def handle_grecphello_def handle_grecpnotify_def Let_def
        intro: accept_change teardown deny split: if_splits)
qed

lemma message_change_device:
  assumes "message_change s s'"
  shows "device_log s' = device_log s" "device_state (rt s') = device_state (rt s)" "exited s' = exited s"
  using assms by (simp_all add: message_change_def message_rest_def device_log_def device_state_def)

lemma message_change_rt:
  assumes "message_change s s'"
  obtains h a f g where "rt s' = haap_update (\<lambda>_. h) (filter_list_acked_update (\<lambda>_. a) (lte_update f (dsl_update g (rt s))))"
    and "keeps_identity f" "keeps_identity g" "anycast_ip h = anycast_ip (haap (rt s))"
    and "length (haap_ip (haap (rt s))) = 16 \<longrightarrow> length (haap_ip h) = 16"
proof (rule that)
  let ?f = "\<lambda>t. if t = lte (rt s) then lte (rt s') else t" and ?g = "\<lambda>t. if t = dsl (rt s) then dsl (rt s') else t"
  note rest = assms [unfolded message_change_def message_rest_def, simplified]
  show "rt s' = haap_update (\<lambda>_. haap (rt s')) (filter_list_acked_update (\<lambda>_. filter_list_acked (rt s'))
      (lte_update ?f (dsl_update ?g (rt s))))"
    using rest by (intro runtime.equality) simp_all
  show "keeps_identity ?f" "keeps_identity ?g" "anycast_ip (haap (rt s')) = anycast_ip (haap (rt s))"
    "length (haap_ip (haap (rt s))) = 16 \<longrightarrow> length (haap_ip (haap (rt s'))) = 16"
    using rest by (auto simp: keeps_identity_def)
qed

subsection \<open>The contract of an invariant of the main loop\<close>

locale loop_invariant = timer_invariant inv
  for inv :: "runtime \<Rightarrow> bool" +
  assumes message_haap: "inv r \<Longrightarrow> anycast_ip h = anycast_ip (haap r) \<Longrightarrow>
      (length (haap_ip (haap r)) = 16 \<longrightarrow> length (haap_ip h) = 16) \<Longrightarrow> inv (haap_update (\<lambda>_. h) r)"
begin

lemma process_keeps:
  assumes "inv (rt s)" and "process_grecpmessage w buf sz s = Inr s'"
  shows "inv (rt s')"
proof -
  obtain h a f g where r: "rt s' = haap_update (\<lambda>_. h) (filter_list_acked_update (\<lambda>_. a) (lte_update f (dsl_update g (rt s))))"
    and id: "keeps_identity f" "keeps_identity g" and h: "anycast_ip h = anycast_ip (haap (rt s))"
      "length (haap_ip (haap (rt s))) = 16 \<longrightarrow> length (haap_ip h) = 16"
    using message_change_rt [OF process_change [OF assms(2)]] .
  have "inv (filter_list_acked_update (\<lambda>_. a) (lte_update f (dsl_update g (rt s))))"
    by (intro acked lte_other dsl_other assms(1) id)
  then show ?thesis unfolding r by (rule message_haap) (use h in simp_all)
qed

end

interpretation wf_loop: loop_invariant wf_runtime
  by unfold_locales (auto simp: wf_runtime_def)

interpretation names_loop: loop_invariant names_fit
  by unfold_locales (auto simp: names_fit_def)

interpretation configured_loop: loop_invariant "configured r0" for r0
  by unfold_locales (auto simp: configured_def)

end
