(* ===== verification/Config.thy ===== *)
theory Config
  imports Event "HOL-Library.Signed_Division"
begin

text \<open>
  \<open>read_config\<close> of \<open>config.c\<close>: defaults, one pass over the lines of the file, further defaults
  for what is still unset. The fatal errors of the source end the process and are the fault
  \<open>Fatal_Exit\<close>; warnings are only logged.
\<close>

subsection \<open>Lines\<close>

text \<open>\<open>getline\<close> with the newline cut off; a string ends at its first zero byte.\<close>

fun getlines :: "string \<Rightarrow> string \<Rightarrow> string list" where
  "getlines line [] = (if line = [] then [] else [line])"
| "getlines line (c # cs) =
     (if c = CHR 0x0A then line # getlines [] cs else getlines (line @ [c]) cs)"

definition c_string :: "string \<Rightarrow> string" where
  "c_string s = takeWhile (\<lambda>c. c \<noteq> CHR 0x00) s"

definition strstr_eq :: "string \<Rightarrow> string" where
  "strstr_eq line = dropWhile (\<lambda>c. c \<noteq> CHR ''='') line"

definition has_prefix :: "string \<Rightarrow> string \<Rightarrow> bool" where
  "has_prefix p line \<longleftrightarrow> take (length p) line = p"

subsection \<open>One setting\<close>

definition log_level_of :: "string \<Rightarrow> u8 \<Rightarrow> u8" where
  "log_level_of value old =
     (let l = (if value = ''none'' then LOG_NONE else old);
          l = (if value = ''error'' then LOG_ERROR else l)
      in if value = ''critical'' then LOG_FATAL
         else if value = ''warning'' then LOG_WARNING
         else if value = ''info'' then LOG_INFO
         else if value = ''debug'' then LOG_DEBUG
         else if value = ''crazydebug'' then LOG_CRAZYDEBUG
         else l)"

definition set_interface_name :: "string \<Rightarrow> (string \<Rightarrow> runtime \<Rightarrow> runtime) \<Rightarrow> runtime \<Rightarrow> fault + runtime" where
  "set_interface_name value upd r =
     (if length value \<ge> IF_NAMESIZE - 1 then Inl Fatal_Exit else Inr (upd value r))"

definition set_mtu :: "string \<Rightarrow> runtime \<Rightarrow> fault + runtime" where
  "set_mtu value r =
     (if atoi value < 1280 then Inl Fatal_Exit
      else if atoi value > 1448 then Inl Fatal_Exit
      else Inr (r\<lparr>tunnel_interface_mtu := word_of_int (atoi value)\<rparr>))"

text \<open>The path is copied into 128 bytes without a check. A path of exactly 128 characters fits its array, without a terminator; \<open>startup\<close> reads it.\<close>

definition set_event_script_path :: "string \<Rightarrow> runtime \<Rightarrow> fault + runtime" where
  "set_event_script_path value r =
     (if length value > 128 then Inl Buffer_Overflow else Inr (r\<lparr>event_script_path := value\<rparr>))"

text \<open>The source compares 19 characters of the key of the mtu, which is longer.\<close>

definition setting :: "string \<Rightarrow> string \<Rightarrow> runtime \<Rightarrow> fault + runtime" where
  "setting line value r =
     (if has_prefix ''haap anycast ip ='' line then
        (case inet_pton6 value of
           Some a \<Rightarrow> Inr (haap_update (anycast_ip_update (\<lambda>_. a)) r) | None \<Rightarrow> Inr r)
      else if has_prefix ''lte interface ='' line then
        set_interface_name value (\<lambda>v. lte_update (interface_name_update (\<lambda>_. v))) r
      else if has_prefix ''dsl interface ='' line then
        set_interface_name value (\<lambda>v. dsl_update (interface_name_update (\<lambda>_. v))) r
      else if has_prefix ''tunnel interface ='' line then
        set_interface_name value (\<lambda>v. tunnel_interface_name_update (\<lambda>_. v)) r
      else if has_prefix ''bonding ='' line then
        Inr (if value = ''true'' then r\<lparr>bonding := True\<rparr> else r)
      else if has_prefix ''log level ='' line then
        Inr (log_level_update (log_level_of value) r)
      else if has_prefix ''tunnel interface mt'' line then set_mtu value r
      else if has_prefix ''active hello interval ='' line then
        Inr (haap_update (active_hello_interval_update (\<lambda>_. word_of_int (atoi value))) r)
      else if has_prefix ''hello retry times ='' line then
        Inr (haap_update (hello_retry_times_update (\<lambda>_. word_of_int (atoi value))) r)
      else if has_prefix ''event script path ='' line then set_event_script_path value r
      else if has_prefix ''reorder buffer timeout ='' line then
        Inr (r\<lparr>reorder_buffer_timeout :=
          Timeval (atoi value sdiv 1000) (atoi value smod 1000 * 1000)\<rparr>)
      else Inr r)"

definition config_line :: "string \<Rightarrow> runtime \<Rightarrow> fault + runtime" where
  "config_line line r =
     (let line = c_string line;
          value = strstr_eq line
      in if line \<noteq> [] \<and> hd line = CHR ''#'' then Inr r
         else if length value > 2 then setting line (drop 2 value) r
         else Inr r)"

subsection \<open>The whole file\<close>

definition defaults_before :: "runtime \<Rightarrow> runtime" where
  "defaults_before r =
     r\<lparr>log_level := LOG_INFO,
       lte := (lte r)\<lparr>interface_name := ''wwan0'' @ drop 5 (interface_name (lte r))\<rparr>,
       dsl := (dsl r)\<lparr>interface_name := ''ppp0'' @ drop 4 (interface_name (dsl r))\<rparr>,
       reorder_buffer_timeout := Timeval (tv_sec (reorder_buffer_timeout r)) 250000\<rparr>"

definition default_anycast_ip :: in6_addr where
  "default_anycast_ip = [0x20, 0x03, 0, 6, 0, 0, 0, 0, 0, 0, 0, 0, 0, 0, 0, 1]"

definition defaults_after :: "runtime \<Rightarrow> runtime" where
  "defaults_after r =
     (let r = (if anycast_ip (haap r) = in6addr_any
               then haap_update (anycast_ip_update (\<lambda>_. default_anycast_ip)) r else r);
          r = (if tunnel_interface_name r = []
               then r\<lparr>tunnel_interface_name := (if bonding r then ''tun0'' else ''gre1'')\<rparr> else r);
          r = haap_update (haap_ip_update (\<lambda>_. anycast_ip (haap r))) r
      in if tunnel_interface_mtu r = 0
         then r\<lparr>tunnel_interface_mtu := (if bonding r then 1448 - 8 else 1448)\<rparr>
         else r)"

definition read_config_text :: "string \<Rightarrow> runtime \<Rightarrow> fault + runtime" where
  "read_config_text content r =
     bind_res (fold_res config_line (getlines [] content) (defaults_before r)) (\<lambda>r. Inr (defaults_after r))"

definition read_config :: "env \<Rightarrow> sys \<Rightarrow> fault + sys" where
  "read_config w s =
     (let (content, s) = ask_text w s
      in case content of
           None \<Rightarrow> Inl Fatal_Exit
         | Some t \<Rightarrow> bind_res (read_config_text t (rt s)) (\<lambda>r. Inr (s\<lparr>rt := r\<rparr>)))"

text \<open>The default address is what \<open>inet_pton\<close> makes of the literal in the source.\<close>

lemma default_anycast_ip_parsed: "inet_pton6 ''2003:6::1'' = Some default_anycast_ip"
  by code_simp

subsection \<open>What every configuration guarantees\<close>

definition config_inv :: "runtime \<Rightarrow> bool" where
  "config_inv r \<longleftrightarrow> wf_runtime r \<and> names_fit r \<and> log_level r \<le> 6 \<and>
     (tunnel_interface_mtu r = 0 \<or> 1280 \<le> tunnel_interface_mtu r \<and> tunnel_interface_mtu r \<le> 1448) \<and>
     length (event_script_path r) \<le> 128"

lemma config_inv_updates:
  assumes "config_inv r"
  shows "length a = 16 \<Longrightarrow> config_inv (haap_update (anycast_ip_update (\<lambda>_. a)) r)"
    "length v < 15 \<Longrightarrow> config_inv (lte_update (interface_name_update (\<lambda>_. v)) r)"
    "length v < 15 \<Longrightarrow> config_inv (dsl_update (interface_name_update (\<lambda>_. v)) r)"
    "length v < 15 \<Longrightarrow> config_inv (r\<lparr>tunnel_interface_name := v\<rparr>)"
    "config_inv (r\<lparr>bonding := b\<rparr>)"
    "l \<le> 6 \<Longrightarrow> config_inv (r\<lparr>log_level := l\<rparr>)"
    "1280 \<le> m \<Longrightarrow> m \<le> 1448 \<Longrightarrow> config_inv (r\<lparr>tunnel_interface_mtu := m\<rparr>)"
    "config_inv (haap_update (active_hello_interval_update (\<lambda>_. i)) r)"
    "config_inv (haap_update (hello_retry_times_update (\<lambda>_. i)) r)"
    "length v \<le> 128 \<Longrightarrow> config_inv (r\<lparr>event_script_path := v\<rparr>)"
    "config_inv (r\<lparr>reorder_buffer_timeout := t\<rparr>)"
  using assms by (simp_all add: config_inv_def wf_runtime_def names_fit_def)

lemma log_level_of_le: "l \<le> 6 \<Longrightarrow> log_level_of v l \<le> 6"
  by (simp add: log_level_of_def Let_def)

lemma mtu_word_bounds:
  assumes "1280 \<le> i" and "i \<le> 1448"
  shows "1280 \<le> (word_of_int i :: u16)" "(word_of_int i :: u16) \<le> 1448"
  using assms by (simp_all add: word_le_def uint_word_of_int)

lemma setting_inv:
  assumes "config_inv r" and "setting line value r = Inr r'"
  shows "config_inv r'"
proof -
  have lte: "config_inv x" if "set_interface_name value (\<lambda>v. lte_update (interface_name_update (\<lambda>_. v))) r = Inr x" for x
    using that config_inv_updates(2) [OF assms(1)] by (auto simp: set_interface_name_def split: if_splits)
  have dsl: "config_inv x" if "set_interface_name value (\<lambda>v. dsl_update (interface_name_update (\<lambda>_. v))) r = Inr x" for x
    using that config_inv_updates(3) [OF assms(1)] by (auto simp: set_interface_name_def split: if_splits)
  have tun: "config_inv x" if "set_interface_name value (\<lambda>v. tunnel_interface_name_update (\<lambda>_. v)) r = Inr x" for x
    using that config_inv_updates(4) [OF assms(1)] by (auto simp: set_interface_name_def split: if_splits)
  have mtu: "config_inv x" if "set_mtu value r = Inr x" for x
    using that config_inv_updates(7) [OF assms(1)] mtu_word_bounds [of "atoi value"]
    by (auto simp: set_mtu_def not_less split: if_splits)
  have path: "config_inv x" if "set_event_script_path value r = Inr x" for x
    using that config_inv_updates(10) [OF assms(1)] by (auto simp: set_event_script_path_def split: if_splits)
  have level: "config_inv (log_level_update (log_level_of value) r)"
    using assms(1) by (simp add: log_level_of_le config_inv_def wf_runtime_def names_fit_def)
  show ?thesis
    using assms(2) lte dsl tun mtu path level assms(1) config_inv_updates(1,5,8,9,11) [OF assms(1)]
    by (auto simp: setting_def inet_pton6_length split: if_splits option.splits)
qed

lemma config_line_inv: "config_inv r \<Longrightarrow> config_line line r = Inr r' \<Longrightarrow> config_inv r'"
  by (auto simp: config_line_def Let_def split: if_splits dest: setting_inv)

lemma config_inv_zero: "config_inv zero_runtime"
  using wf_init_sys
  by (simp add: config_inv_def wf_sys_def init_sys_def names_fit_def zero_runtime_def zero_lte_def zero_dsl_def)

lemma config_inv_defaults_before: "config_inv r \<Longrightarrow> interface_name (lte r) = [] \<Longrightarrow>
    interface_name (dsl r) = [] \<Longrightarrow> config_inv (defaults_before r)"
  by (simp add: config_inv_def defaults_before_def wf_runtime_def names_fit_def)

lemma read_config_text_lines:
  assumes "read_config_text content zero_runtime = Inr r'"
  shows "\<exists>r. config_inv r \<and> r' = defaults_after r"
proof -
  obtain r where f: "fold_res config_line (getlines [] content) (defaults_before zero_runtime) = Inr r"
    and r': "r' = defaults_after r"
    using assms by (auto simp: read_config_text_def bind_res_eq_Inr)
  have start: "config_inv (defaults_before zero_runtime)"
    using config_inv_zero by (intro config_inv_defaults_before) (simp_all add: zero_runtime_def zero_lte_def zero_dsl_def)
  have "config_inv r"
    by (rule fold_res_invariant [where P = config_inv, OF config_line_inv start f])
  with r' show ?thesis by blast
qed

lemma default_anycast_ip_length: "length default_anycast_ip = 16"
  by (simp add: default_anycast_ip_def)

lemma default_anycast_ip_nonzero: "default_anycast_ip \<noteq> in6addr_any"
  by (simp add: default_anycast_ip_def in6addr_any_def numeral_eq_Suc)

lemma defaults_after_inv:
  assumes "config_inv r"
  shows "wf_runtime (defaults_after r) \<and> names_fit (defaults_after r) \<and>
    1280 \<le> tunnel_interface_mtu (defaults_after r) \<and> tunnel_interface_mtu (defaults_after r) \<le> 1448 \<and>
    tunnel_interface_name (defaults_after r) \<noteq> [] \<and>
    haap_ip (haap (defaults_after r)) = anycast_ip (haap (defaults_after r)) \<and>
    anycast_ip (haap (defaults_after r)) \<noteq> in6addr_any \<and> log_level (defaults_after r) \<le> 6"
  using assms default_anycast_ip_length default_anycast_ip_nonzero
  by (auto simp: config_inv_def defaults_after_def Let_def wf_runtime_def names_fit_def)

lemma read_config_establishes:
  assumes "read_config w init_sys = Inr s"
  shows "wf_sys s \<and> names_fit (rt s) \<and> 1280 \<le> tunnel_interface_mtu (rt s) \<and>
    tunnel_interface_mtu (rt s) \<le> 1448 \<and> tunnel_interface_name (rt s) \<noteq> [] \<and>
    haap_ip (haap (rt s)) = anycast_ip (haap (rt s)) \<and> anycast_ip (haap (rt s)) \<noteq> in6addr_any"
proof -
  have "rt init_sys = zero_runtime" by (simp add: init_sys_def)
  with assms obtain t r where "read_config_text t zero_runtime = Inr r" and s: "rt s = r"
    by (auto simp: read_config_def ask_text_def bind_res_eq_Inr split: option.splits)
  from read_config_text_lines [OF this(1)] obtain r0 where "config_inv r0" "r = defaults_after r0" by blast
  with s defaults_after_inv [of r0] show ?thesis by (simp add: wf_sys_def)
qed

text \<open>Whatever the configuration file contains, a start that gets past it has addresses of the right
  size, interface names that are terminated, a tunnel name, an MTU between the
  IPv6 minimum and what fits a packet with its headers, and talks to the anycast address first.\<close>

theorem config_establishes_invariant:
  assumes "read_config w init_sys = Inr s"
  shows "wf_sys s \<and> names_fit (rt s) \<and> 1280 \<le> tunnel_interface_mtu (rt s) \<and>
    tunnel_interface_mtu (rt s) \<le> 1448 \<and> tunnel_interface_name (rt s) \<noteq> [] \<and>
    haap_ip (haap (rt s)) = anycast_ip (haap (rt s)) \<and> anycast_ip (haap (rt s)) \<noteq> in6addr_any"
  using assms by (rule read_config_establishes)

subsection \<open>The defaults\<close>

definition default_runtime :: runtime where
  "default_runtime = zero_runtime\<lparr>log_level := 4, tunnel_interface_mtu := 1448,
     tunnel_interface_name := ''gre1'', reorder_buffer_timeout := Timeval 0 250000,
     haap := zero_haap\<lparr>anycast_ip := default_anycast_ip, haap_ip := default_anycast_ip\<rparr>,
     lte := zero_lte\<lparr>interface_name := ''wwan0''\<rparr>, dsl := zero_dsl\<lparr>interface_name := ''ppp0''\<rparr>\<rparr>"

definition comment_or_blank :: "string \<Rightarrow> bool" where
  "comment_or_blank line \<longleftrightarrow> line = [] \<or> hd line = CHR ''#''"

lemma config_line_comment: "comment_or_blank line \<Longrightarrow> config_line line r = Inr r"
  by (cases line) (auto simp: comment_or_blank_def config_line_def c_string_def strstr_eq_def Let_def)

lemma fold_res_skip: "\<forall>x \<in> set xs. f x s = Inr s \<Longrightarrow> fold_res f xs s = Inr s"
  by (induction xs) simp_all

lemma defaults_of_zero: "defaults_after (defaults_before zero_runtime) = default_runtime"
  by (simp add: defaults_after_def defaults_before_def default_runtime_def zero_runtime_def zero_lte_def
      zero_dsl_def zero_haap_def Let_def)

text \<open>A file of comments and blank lines, like the example file of the repository, gives the values that
  the example file documents as the defaults.\<close>

theorem comments_give_defaults:
  assumes "\<forall>line \<in> set (getlines [] content). comment_or_blank line"
  shows "read_config_text content zero_runtime = Inr default_runtime"
proof -
  have "fold_res config_line (getlines [] content) (defaults_before zero_runtime) = Inr (defaults_before zero_runtime)"
    using assms by (intro fold_res_skip) (simp add: config_line_comment)
  then show ?thesis by (simp add: read_config_text_def defaults_of_zero)
qed

definition config_example :: string where
  "config_example = ''#log level = info'' @ [CHR 0x0A, CHR 0x0A] @ ''# end''"

lemma config_example_lines: "getlines [] config_example = [''#log level = info'', [], ''# end'']"
  by (simp add: config_example_def)

theorem comments_give_defaults_witness:
  "read_config_text config_example zero_runtime = Inr default_runtime"
  by (rule comments_give_defaults) (simp add: config_example_lines comment_or_blank_def)

theorem config_establishes_invariant_witness:
  "wf_sys (init_sys\<lparr>tick := 1, rt := default_runtime\<rparr>) \<and> names_fit default_runtime"
proof -
  have "read_config (example_env\<lparr>env_text := \<lambda>_. Some []\<rparr>) init_sys = Inr (init_sys\<lparr>tick := 1, rt := default_runtime\<rparr>)"
    using defaults_of_zero by (simp add: read_config_def read_config_text_def ask_text_def init_sys_def)
  from config_establishes_invariant [OF this] show ?thesis by simp
qed

text \<open>The copy of the event script path is not bounded: a longer path than the array has bytes overflows
  it.\<close>

theorem long_script_path_overflows:
  assumes "list_all (\<lambda>c. c \<noteq> CHR 0x00) path"
  shows "config_line (''event script path = '' @ path) r =
    (if 128 < length path then Inl Buffer_Overflow
     else if path = [] then Inr r else Inr (r\<lparr>event_script_path := path\<rparr>))"
proof -
  have c: "c_string (''event script path = '' @ path) = ''event script path = '' @ path"
    using assms by (simp add: c_string_def takeWhile_eq_all_conv list_all_iff)
  have v: "strstr_eq (''event script path = '' @ path) = ''= '' @ path"
    by (simp add: strstr_eq_def)
  have "setting (''event script path = '' @ path) path r = set_event_script_path path r"
    by (simp add: setting_def has_prefix_def)
  then show ?thesis
    unfolding config_line_def c Let_def v by (auto simp: set_event_script_path_def)
qed

theorem long_script_path_overflows_witness:
  "config_line (''event script path = '' @ replicate 129 (CHR ''x'')) zero_runtime = Inl Buffer_Overflow"
  by (subst long_script_path_overflows) (simp_all add: list_all_iff)

end
