(* ===== verification/Reorder.thy ===== *)
theory Reorder
  imports Sending
begin

text \<open>
  The receiving thread \<open>gre2tun_main\<close> of \<open>gre2tun.c\<close>: data packets of both tunnels arrive with a
  sequence number, wait in the reorder buffer until their turn comes or the oldest of them has
  waited too long, and are written to the tunnel device.

  The packet pointer of a buffer element is the copied payload together with the flag
  \<open>freed\<close>: an element stays in the array after its packet was freed until the prefix of the
  array it belongs to is removed, and freeing it again is a fault. Written packets carry their
  sequence number as an annotation. Allocation is taken to succeed.
\<close>

subsection \<open>The reorder buffer\<close>

record reorder_buffer_element =
  sequence :: u32
  timestamp :: timeval
  packet :: bytes
  psize :: u16
  freed :: bool

type_synonym written = "(u32 \<times> bytes) list"

definition flush_element :: "reorder_buffer_element \<Rightarrow> reorder_buffer_element" where
  "flush_element e = e\<lparr>psize := 0, freed := True\<rparr>"

text \<open>One run of the inner \<open>for\<close> loop: every element that is the next one when its turn comes.\<close>

fun flush_pass :: "reorder_buffer_element list \<Rightarrow> u32 \<Rightarrow>
    fault + (reorder_buffer_element list \<times> u32 \<times> written \<times> bool)" where
  "flush_pass [] f = Inr ([], f, [], False)"
| "flush_pass (e # es) f =
     (if sequence e = f + 1 then
        (if freed e then Inl Double_Free
         else bind_res (flush_pass es (f + 1)) (\<lambda>(es, f, out, _).
           Inr (flush_element e # es, f,
             (sequence e, take (unat (psize e)) (packet e)) # out, True)))
      else bind_res (flush_pass es f) (\<lambda>(es, f, out, flushed_something).
           Inr (e # es, f, out, flushed_something)))"

text \<open>\<open>while (flushed_something)\<close>: every further pass is paid for by a packet that was freed.\<close>

definition unfreed :: "reorder_buffer_element list \<Rightarrow> nat" where
  "unfreed es = length (filter (\<lambda>e. \<not> freed e) es)"

lemma unfreed_simps [simp]:
  "unfreed [] = 0" "unfreed (e # es) = (if freed e then 0 else 1) + unfreed es"
  by (simp_all add: unfreed_def)

lemma freed_flush_element [simp]: "freed (flush_element e)"
  by (simp add: flush_element_def)

lemma flush_pass_unfreed:
  "flush_pass es f = Inr (es', f', out, b) \<Longrightarrow>
     unfreed es' \<le> unfreed es \<and> (b \<longrightarrow> unfreed es' < unfreed es)"
proof (induction es f arbitrary: es' f' out b rule: flush_pass.induct)
  case (2 e es f)
  show ?case
  proof (cases "sequence e = f + 1")
    case True
    with "2.prems" show ?thesis
      using "2.IH"(1) by (auto simp: bind_res_eq_Inr split: if_splits)
  next
    case False
    with "2.prems" show ?thesis
      using "2.IH"(2) by (auto simp: bind_res_eq_Inr)
  qed
qed simp

lemma flush_pass_nothing:
  "flush_pass es f = Inr (es', f', out, False) \<Longrightarrow>
     es' = es \<and> f' = f \<and> out = [] \<and> (\<forall>e \<in> set es. sequence e \<noteq> f + 1)"
proof (induction es arbitrary: es')
  case (Cons e es)
  show ?case
  proof (cases "sequence e = f + 1")
    case True
    with Cons.prems show ?thesis by (cases "freed e") (auto simp: bind_res_eq_Inr)
  next
    case False
    with Cons.prems obtain es1 where "flush_pass es f = Inr (es1, f', out, False)" and "es' = e # es1"
      by (auto simp: bind_res_eq_Inr)
    with Cons.IH [of es1] False show ?thesis by simp
  qed
qed simp

function flush_all :: "reorder_buffer_element list \<Rightarrow> u32 \<Rightarrow>
    fault + (reorder_buffer_element list \<times> u32 \<times> written)" where
  "flush_all es f =
     bind_res (flush_pass es f) (\<lambda>(es, f, out, flushed_something).
       if flushed_something
       then bind_res (flush_all es f) (\<lambda>(es, f, out'). Inr (es, f, out @ out'))
       else Inr (es, f, out))"
  by pat_completeness auto
termination
  by (relation "measure (\<lambda>(es, f). unfreed es)") (auto dest!: flush_pass_unfreed)

declare flush_all.simps [simp del]

lemma flush_all_unfreed:
  "flush_all es f = Inr (es', f', out) \<Longrightarrow>
     (unfreed es' < unfreed es \<or> es' = es \<and> f' = f \<and> out = []) \<and>
     (\<forall>e \<in> set es'. sequence e \<noteq> f' + 1)"
proof (induction es f arbitrary: es' f' out rule: flush_all.induct)
  case (1 es f)
  from "1.prems" obtain es1 f1 out1 b where p: "flush_pass es f = Inr (es1, f1, out1, b)"
    by (subst (asm) flush_all.simps) (auto simp: bind_res_eq_Inr)
  show ?case
  proof (cases b)
    case True
    with "1.prems" p obtain out2 where rest: "flush_all es1 f1 = Inr (es', f', out2)"
      by (subst (asm) flush_all.simps) (auto simp: bind_res_eq_Inr)
    have "unfreed es1 < unfreed es" using flush_pass_unfreed [OF p] True by simp
    with "1.IH" [OF p refl refl refl True rest] show ?thesis by auto
  next
    case False
    with "1.prems" p have "es' = es1" "f' = f1" "out = out1"
      by (subst (asm) flush_all.simps, simp)+
    with p False show ?thesis by (auto dest!: flush_pass_nothing)
  qed
qed

text \<open>
  The time-out scan and the jump back to \<open>restartflushing\<close>. It ends because either a packet was
  freed in between or the distance from the counter to the first timed-out packet shrinks.
\<close>

definition timed_out :: "timeval \<Rightarrow> timeval \<Rightarrow> reorder_buffer_element \<Rightarrow> bool" where
  "timed_out now timeout e \<longleftrightarrow>
     psize e > 0 \<and> timercmp_ge (timersub now (timestamp e)) timeout"

definition distance :: "timeval \<Rightarrow> timeval \<Rightarrow> reorder_buffer_element list \<Rightarrow> u32 \<Rightarrow> nat" where
  "distance now timeout es f =
     (case find (timed_out now timeout) es of None \<Rightarrow> 0 | Some e \<Rightarrow> unat (sequence e - f - 1))"

lemma word_pred_less: "w \<noteq> 0 \<Longrightarrow> unat (w - 1) < unat (w :: 'a::len word)"
  by (metis measure_unat)

lemma distance_decreases:
  assumes "list_ex (timed_out now timeout) es" and "\<forall>e \<in> set es. sequence e \<noteq> f + 1"
  shows "distance now timeout es (f + 1) < distance now timeout es f"
proof -
  obtain e where e: "find (timed_out now timeout) es = Some e"
    using assms(1) by (cases "find (timed_out now timeout) es") (auto simp: find_None_iff list_ex_iff)
  then have "e \<in> set es" by (auto simp: find_Some_iff)
  with assms(2) have "sequence e \<noteq> f + 1" by blast
  then have "sequence e - f - 1 \<noteq> 0" by (simp only: diff_diff_eq right_minus_eq not_False_eq_True)
  then have "unat (sequence e - f - 1 - 1) < unat (sequence e - f - 1)" by (rule word_pred_less)
  with e show ?thesis by (simp add: distance_def algebra_simps)
qed

lemma restart_decreases:
  assumes "flush_all es f = Inr (es', f', out)" and "list_ex (timed_out now timeout) es'"
  shows "unfreed es' < unfreed es \<or>
    unfreed es' = unfreed es \<and> distance now timeout es' (f' + 1) < distance now timeout es f"
proof (cases "unfreed es' < unfreed es")
  case False
  with flush_all_unfreed [OF assms(1)] have "es' = es" "f' = f" "\<forall>e \<in> set es'. sequence e \<noteq> f' + 1"
    by auto
  with distance_decreases [OF assms(2), of f'] show ?thesis by simp
qed simp

function reorder_flush :: "timeval \<Rightarrow> timeval \<Rightarrow> reorder_buffer_element list \<Rightarrow> u32 \<Rightarrow>
    fault + (reorder_buffer_element list \<times> u32 \<times> written)" where
  "reorder_flush now timeout es f =
     bind_res (flush_all es f) (\<lambda>(es, f, out).
       if list_ex (timed_out now timeout) es
       then bind_res (reorder_flush now timeout es (f + 1)) (\<lambda>(es, f, out'). Inr (es, f, out @ out'))
       else Inr (es, f, out))"
  by pat_completeness auto
termination
proof (relation "measures [\<lambda>(now, timeout, es, f). unfreed es,
      \<lambda>(now, timeout, es, f). distance now timeout es f]", goal_cases)
  case (2 now timeout es f x es' y f' out)
  then have "flush_all es f = Inr (es', f', out)" by simp
  from restart_decreases [OF this "2"(4)] show ?case by simp
qed simp

declare reorder_flush.simps [simp del]

text \<open>Packets behind the counter are dropped; elements without a packet leave at the front.\<close>

definition drop_late :: "u32 \<Rightarrow> reorder_buffer_element list \<Rightarrow> reorder_buffer_element list" where
  "drop_late f es =
     map (\<lambda>e. if psize e > 0 \<and> sequence e \<le> f then flush_element e else e) es"

definition freeable :: "reorder_buffer_element list \<Rightarrow> u16" where
  "freeable es = of_nat (length (takeWhile (\<lambda>e. psize e = 0) es))"

definition compact :: "reorder_buffer_element list \<Rightarrow> reorder_buffer_element list" where
  "compact es =
     (if length es = unat (freeable es) then []
      else if freeable es > 0 then drop (unat (freeable es)) es
      else es)"

definition process_reorder_buffer :: "timeval \<Rightarrow> timeval \<Rightarrow> reorder_buffer_element list \<Rightarrow> u32 \<Rightarrow>
    fault + (reorder_buffer_element list \<times> u32 \<times> written)" where
  "process_reorder_buffer now timeout es f =
     bind_res (reorder_flush now timeout es f) (\<lambda>(es, f, out).
       Inr (compact (drop_late f es), f, out))"

subsection \<open>One turn of the receiving loop\<close>

text \<open>
  \<open>Received\<close> is a positive result of \<open>recvfrom\<close>, \<open>Nothing_Received again\<close> any other with
  \<open>again\<close> for \<open>errno == EAGAIN\<close>. \<open>stamp\<close> and \<open>now\<close> are the two readings of the clock.
\<close>

datatype gre_input = Received in6_addr bytes | Nothing_Received bool

record gre2tun =
  rxbuf :: bytes
  packets :: "reorder_buffer_element list"
  sequence_flushed :: u32

definition init_gre2tun :: "bytes \<Rightarrow> gre2tun" where
  "init_gre2tun buf = \<lparr>rxbuf = buf, packets = [], sequence_flushed = - 1\<rparr>"

definition flush_buffer :: "timeval \<Rightarrow> timeval \<Rightarrow> gre2tun \<Rightarrow> fault + (gre2tun \<times> bytes list)" where
  "flush_buffer now timeout st =
     bind_res (process_reorder_buffer now timeout (packets st) (sequence_flushed st))
       (\<lambda>(es, f, out). Inr (st\<lparr>packets := es, sequence_flushed := f\<rparr>, map snd out))"

definition gre2tun_iteration :: "in6_addr \<Rightarrow> timeval \<Rightarrow> gre_input \<Rightarrow> timeval \<Rightarrow> timeval \<Rightarrow> gre2tun \<Rightarrow>
    fault + (gre2tun \<times> bytes list)" where
  "gre2tun_iteration peer timeout inp stamp now st =
     (case inp of
        Nothing_Received again \<Rightarrow> if again then flush_buffer now timeout st else Inr (st, [])
      | Received src data \<Rightarrow>
          let buf = take MAX_PKT_SIZE data @ drop (length data) (rxbuf st);
              sz = min MAX_PKT_SIZE (length data);
              st = st\<lparr>rxbuf := buf\<rparr>;
              flags = greh_flags_and_version buf
          in if src \<noteq> peer then Inr (st, [])
             else if flags \<noteq> htons GRECP_FLAGSANDVERSION_WITH_SEQ \<and> flags \<noteq> htons GRECP_FLAGSANDVERSION
             then Inr (st, [])
             else let payload_offset = (if flags = htons GRECP_FLAGSANDVERSION_WITH_SEQ then 12 else 8);
                      seq = ntohl (word_of_bytes (take 4 (drop 8 buf)))
               in if payload_offset = 8 \<or> (tv_sec timeout = 0 \<and> tv_usec timeout = 0)
                  then bind_res (flush_buffer now timeout st) (\<lambda>(st, out).
                    Inr (st, (if payload_offset \<le> sz
                              then [take (sz - payload_offset) (drop payload_offset buf)] else []) @ out))
                  else let n = (of_int (int sz - int payload_offset) :: u16)
                    in bind_res (mem_read buf payload_offset (unat n)) (\<lambda>payload.
                      flush_buffer now timeout
                        (st\<lparr>packets := packets st @
                          [\<lparr>sequence = seq, timestamp = stamp, packet = payload, psize = n,
                            freed = False\<rparr>]\<rparr>)))"

end
