(* ===== verification/Threads.thy ===== *)
theory Threads
  imports Runtime
begin

text \<open>
  The names that \<open>gre2tun_main\<close> and \<open>tun2gre_main\<close> give their threads. The array \<open>trimifname\<close> is not
  initialised and \<open>strncpy\<close> fills at most nine of its ten bytes; the last one is an
  argument here. The name is printed into an array of \<open>IF_NAMESIZE\<close> bytes.
\<close>

definition trimifname :: "char \<Rightarrow> string \<Rightarrow> string" where
  "trimifname rest name = take 9 (name @ replicate 9 (CHR 0x00)) @ [rest]"

definition thread_name :: "string \<Rightarrow> char \<Rightarrow> string \<Rightarrow> fault + string" where
  "thread_name suffix rest name =
     (if CHR 0x00 \<in> set (trimifname rest name)
      then let s = takeWhile (\<lambda>c. c \<noteq> CHR 0x00) (trimifname rest name) @ suffix
           in if length s < 16 then Inr s else Inl Buffer_Overflow
      else Inl Out_Of_Bounds_Read)"

definition gre2tun_thread_name :: "char \<Rightarrow> string \<Rightarrow> fault + string" where
  "gre2tun_thread_name = thread_name ''-recv''"

definition tun2gre_thread_name :: "char \<Rightarrow> string \<Rightarrow> fault + string" where
  "tun2gre_thread_name = thread_name ''-send''"

lemma trimifname_short:
  assumes "CHR 0x00 \<notin> set name" and "length name < 9"
  shows "takeWhile (\<lambda>c. c \<noteq> CHR 0x00) (trimifname rest name) = name" "CHR 0x00 \<in> set (trimifname rest name)"
proof -
  obtain k where k: "9 - length name = Suc k" using assms(2) by (cases "9 - length name") simp_all
  have t: "trimifname rest name = name @ CHR 0x00 # replicate k (CHR 0x00) @ [rest]"
    using assms(2) k by (auto simp: trimifname_def min_def)
  show "takeWhile (\<lambda>c. c \<noteq> CHR 0x00) (trimifname rest name) = name"
    using assms(1) unfolding t by (subst takeWhile_append2) auto
  show "CHR 0x00 \<in> set (trimifname rest name)" by (simp add: t)
qed

text \<open>A thread gives itself its name once, before its loop; \<open>None\<close> stands for a thread that has not run yet.\<close>

definition enter_thread :: "(fault + string) \<Rightarrow> string option \<Rightarrow> fault + string" where
  "enter_thread prologue name = (case name of None \<Rightarrow> prologue | Some n \<Rightarrow> Inr n)"

lemma enter_thread_defined:
  assumes "length name < 9 \<or> rest = CHR 0x00"
  shows "\<exists>n. enter_thread (gre2tun_thread_name rest name) cur = Inr n"
    and "\<exists>n. enter_thread (tun2gre_thread_name rest name) cur = Inr n"
proof -
  have "CHR 0x00 \<in> set (trimifname rest name)"
  proof (cases "length name < 9")
    case True
    then obtain k where "9 - length name = Suc k" by (cases "9 - length name") simp_all
    then show ?thesis using True by (simp add: trimifname_def min_def)
  next
    case False
    with assms show ?thesis by (simp add: trimifname_def)
  qed
  moreover have "length (takeWhile P (trimifname rest name)) \<le> 10" for P
    by (rule order_trans [OF length_takeWhile_le]) (simp add: trimifname_def)
  moreover from calculation have "length (takeWhile (\<lambda>c. c \<noteq> CHR 0x00) (trimifname rest name)) < 10"
  proof -
    have len: "length (trimifname rest name) = 10" by (simp add: trimifname_def)
    have "takeWhile (\<lambda>c. c \<noteq> CHR 0x00) (trimifname rest name) \<noteq> trimifname rest name"
      using calculation(1) by (auto simp: takeWhile_eq_all_conv)
    then show ?thesis using calculation(2) len by (metis le_neq_implies_less takeWhile_eq_take take_all_iff nat_le_linear)
  qed
  ultimately show "\<exists>n. enter_thread (gre2tun_thread_name rest name) cur = Inr n"
    "\<exists>n. enter_thread (tun2gre_thread_name rest name) cur = Inr n"
    by (auto simp: enter_thread_def gre2tun_thread_name_def tun2gre_thread_name_def thread_name_def Let_def split: option.split)
qed

text \<open>
  The name is well-defined for tunnel names of at most eight characters; with a longer one, which
  the configuration accepts, only if the uninitialised byte happens to be zero.
\<close>

lemma thread_name_cases:
  assumes "CHR 0x00 \<notin> set name" and "length suffix = 5"
  shows "thread_name suffix rest name =
    (if length name < 9 \<or> rest = CHR 0x00 then Inr (take 9 name @ suffix) else Inl Out_Of_Bounds_Read)"
proof (cases "length name < 9")
  case True
  then show ?thesis using trimifname_short [OF assms(1) True, of rest] assms(2) by (simp add: thread_name_def)
next
  case False
  then have t: "trimifname r name = take 9 name @ [r]" for r by (simp add: trimifname_def)
  have n: "CHR 0x00 \<notin> set (take 9 name)" using assms(1) by (auto dest: in_set_takeD)
  then have "takeWhile (\<lambda>c. c \<noteq> CHR 0x00) (take 9 name @ [CHR 0x00]) = take 9 name"
    by (subst takeWhile_append2) auto
  with False n assms(2) show ?thesis by (cases "rest = CHR 0x00") (auto simp: thread_name_def t Let_def)
qed

end
