(* ===== verification/Main_Loop.thy ===== *)
theory Main_Loop
  imports Rounds Messages Config Reorder Tun2gre Threads
begin

text \<open>
  \<open>main\<close> of \<open>openhybrid.c\<close> and the process as a whole: the main loop, the signal handler and the two
  data threads as the events of one transition system, and what holds in every state that can be
  reached from the start.
\<close>

subsection \<open>The start\<close>

text \<open>A filter that cannot be attached is only logged.\<close>

definition open_grecp_socket :: "env \<Rightarrow> sys \<Rightarrow> fault + sys" where
  "open_grecp_socket w s =
     (let (fd, s) = ask_int w s;
          s = s\<lparr>sockfd := fd\<rparr>
      in if fd < 0 then Inl Fatal_Exit
         else let (ok, s) = ask_ok w s
              in if \<not> ok then Inl Fatal_Exit else Inr (emit (Open_Grecp_Socket fd) s))"

definition handle_signal :: "int \<Rightarrow> sys \<Rightarrow> sys" where
  "handle_signal sig s = rt_update (signal_update (\<lambda>_. sig)) s"

text \<open>
  The first event reads the path of the script with \<open>strlen\<close>. A path of 128 characters fills its array, and what
  follows the array is not the path. Nothing changes the path later.
\<close>

definition startup :: "env \<Rightarrow> int \<Rightarrow> sys \<Rightarrow> fault + sys" where
  "startup w argc s =
     (if argc \<noteq> 2 then Inr (s\<lparr>exited := Some 1\<rparr>)
      else bind_res (read_config w s) (\<lambda>s.
           bind_res (open_grecp_socket w (snd (create_dhcp_script w s))) (\<lambda>s.
             if length (event_script_path (rt s)) \<ge> 128 then Inl Out_Of_Bounds_Read
             else Inr (trigger_event w ''startup'' s))))"

subsection \<open>The main loop\<close>

text \<open>A failed \<open>recvfrom\<close>, by its time-out mostly, or a datagram with its source address.\<close>

datatype received = No_Datagram | Datagram in6_addr bytes

definition receive_into :: "bytes \<Rightarrow> bytes \<Rightarrow> bytes" where
  "receive_into buf data = take MAX_PKT_SIZE data @ drop (length (take MAX_PKT_SIZE data)) buf"

definition main_iteration :: "env \<Rightarrow> received \<Rightarrow> bytes \<times> sys \<Rightarrow> fault + (bytes \<times> sys)" where
  "main_iteration w inp st =
     (let (buffer, s) = st
      in bind_res
           (case inp of
              No_Datagram \<Rightarrow> Inr (buffer, s)
            | Datagram src data \<Rightarrow>
                let buffer = receive_into buffer data;
                    sz = int (length (take MAX_PKT_SIZE data))
                in if src \<noteq> haap_ip (haap (rt s)) then Inr (buffer, s)
                   else bind_res (process_grecpmessage w buffer sz s) (\<lambda>s. Inr (buffer, s)))
           (\<lambda>(buffer, s). bind_res (execute_timers w s) (\<lambda>s. Inr (buffer, s))))"

subsection \<open>The process\<close>

text \<open>
  The threads share the runtime structure with the main loop and only read it; they run from the round
  in which their handle is set. An event is one turn of one of the loops or the delivery of a signal; the first turn of a
  thread starts with the prologue of its function, which makes up the name of the thread. \<open>trim_rest\<close> is what the last byte
  of the array of either prologue holds. \<open>tunout\<close> are the packets that were handed to \<open>write\<close> for the tun device, in
  this order: the loop only logs a write that fails.
\<close>

record process =
  main_buffer :: bytes
  proc :: sys
  receiver :: gre2tun
  sender :: tun2gre
  trim_rest :: "char \<times> char"
  receiver_name :: "string option"
  sender_name :: "string option"
  tunout :: "bytes list"

datatype event =
    Control env received
  | Signal int
  | Download gre_input timeval timeval
  | Upload env bytes

fun process_step :: "event \<Rightarrow> process \<Rightarrow> fault + process" where
  "process_step (Control w inp) p =
     bind_res (main_iteration w inp (main_buffer p, proc p)) (\<lambda>(buffer, s).
       Inr (p\<lparr>main_buffer := buffer, proc := s\<rparr>))"
| "process_step (Signal sig) p = Inr (p\<lparr>proc := handle_signal sig (proc p)\<rparr>)"
| "process_step (Download inp stamp now) p =
     (if gre2tun_thread (rt (proc p)) = 0 then Inr p
      else bind_res (enter_thread (gre2tun_thread_name (fst (trim_rest p)) (tunnel_interface_name (rt (proc p))))
             (receiver_name p)) (\<lambda>name.
           bind_res (gre2tun_iteration (haap_ip (haap (rt (proc p)))) (reorder_buffer_timeout (rt (proc p)))
             inp stamp now (receiver p)) (\<lambda>(st, out).
        Inr (p\<lparr>receiver_name := Some name, receiver := st, tunout := tunout p @ out\<rparr>))))"
| "process_step (Upload w data) p =
     (if tun2gre_thread (rt (proc p)) = 0 then Inr p
      else bind_res (enter_thread (tun2gre_thread_name (snd (trim_rest p)) (tunnel_interface_name (rt (proc p))))
             (sender_name p)) (\<lambda>name.
           bind_res (tun2gre_iteration w data (sender p) (proc p)) (\<lambda>(t, s).
        Inr (p\<lparr>sender_name := Some name, sender := t, proc := s\<rparr>))))"

inductive steps :: "process \<Rightarrow> event list \<Rightarrow> process \<Rightarrow> bool" where
  steps_refl: "steps p [] p"
| steps_step: "exited (proc p) = None \<Longrightarrow> process_step e p = Inr q \<Longrightarrow> steps q es r \<Longrightarrow> steps p (e # es) r"

code_pred (modes: i \<Rightarrow> i \<Rightarrow> o \<Rightarrow> bool) steps .

inductive_simps steps_Nil: "steps p [] q"
inductive_simps steps_Cons: "steps p (e # es) r"

text \<open>The arrays of the loops and of the prologues are not initialised.\<close>

definition initial :: "bytes \<Rightarrow> bytes \<Rightarrow> bytes \<Rightarrow> char \<times> char \<Rightarrow> sys \<Rightarrow> process" where
  "initial b1 b2 b3 c s =
     \<lparr>main_buffer = b1, proc = s, receiver = init_gre2tun b2, sender = init_tun2gre b3, trim_rest = c,
      receiver_name = None, sender_name = None, tunout = []\<rparr>"

abbreviation zero_rest :: "char \<times> char" where
  "zero_rest \<equiv> (CHR 0x00, CHR 0x00)"

definition array_ok :: "bytes \<Rightarrow> bool" where
  "array_ok b \<longleftrightarrow> length b = MAX_PKT_SIZE"

inductive reachable :: "process \<Rightarrow> bool" where
  reachableI: "startup w 2 init_sys = Inr s \<Longrightarrow> array_ok b1 \<Longrightarrow> array_ok b2 \<Longrightarrow> array_ok b3 \<Longrightarrow>
     steps (initial b1 b2 b3 c s) es p \<Longrightarrow> reachable p"

inductive_cases reachableE: "reachable p"

subsection \<open>What one event keeps\<close>

lemma send_gre_frame:
  "send_gre w t proto sq b payload s = Inr s' \<Longrightarrow>
     rt s' = rt s \<and> device_log s' = device_log s \<and> exited s' = exited s"
  by (auto simp: send_gre_def Let_def ask_ok_def device_log_def split: if_splits)

lemma length_receive_into [simp]: "array_ok b \<Longrightarrow> array_ok (receive_into b data)"
  by (simp add: array_ok_def receive_into_def min_def)

lemma upload_frame:
  assumes "tun2gre_iteration w data t s = Inr (t', s')"
  shows "rt s' = rt s \<and> device_log s' = device_log s \<and> exited s' = exited s \<and>
    (array_ok (txbuf t) \<longrightarrow> array_ok (txbuf t'))"
  using assms
  by (auto simp: tun2gre_iteration_def Let_def bind_res_eq_Inr array_ok_def
      dest!: send_gre_frame split: if_splits option.splits)

lemma flush_buffer_rxbuf: "flush_buffer now timeout st = Inr (st', out) \<Longrightarrow> rxbuf st' = rxbuf st"
  by (auto simp: flush_buffer_def bind_res_eq_Inr)

lemma download_rxbuf:
  assumes "gre2tun_iteration peer timeout inp stamp now st = Inr (st', out)" and "array_ok (rxbuf st)"
  shows "array_ok (rxbuf st')"
proof (cases inp)
  case (Received src data)
  have "length (take MAX_PKT_SIZE data @ drop (length data) (rxbuf st)) = MAX_PKT_SIZE"
    using assms(2) by (simp add: array_ok_def min_def)
  then show ?thesis
    using assms(1) unfolding Received
    by (auto simp: gre2tun_iteration_def Let_def bind_res_eq_Inr array_ok_def
        dest!: flush_buffer_rxbuf split: if_splits)
next
  case (Nothing_Received again)
  then show ?thesis
    using assms by (auto simp: gre2tun_iteration_def dest!: flush_buffer_rxbuf split: if_splits)
qed

lemma main_iterationE:
  assumes "main_iteration w inp (buffer, s) = Inr (buffer', s')"
  obtains "buffer' \<in> {buffer} \<union> range (receive_into buffer)" "execute_timers w s = Inr s'"
  | src data s1 where "inp = Datagram src data" "src = haap_ip (haap (rt s))" "buffer' = receive_into buffer data"
    "process_grecpmessage w buffer' (int (length (take MAX_PKT_SIZE data))) s = Inr s1"
    "execute_timers w s1 = Inr s'"
proof (cases inp)
  case No_Datagram
  with assms that(1) show thesis by (auto simp: main_iteration_def bind_res_eq_Inr)
next
  case (Datagram src data)
  with assms that show thesis
    by (auto simp: main_iteration_def bind_res_eq_Inr Let_def split: if_splits)
qed

context loop_invariant begin

lemma main_iteration_keeps:
  assumes "main_iteration w inp (buffer, s) = Inr (buffer', s')" and "inv (rt s)"
  shows "inv (rt s')"
  using assms(1)
proof (cases rule: main_iterationE)
  case 1
  then show ?thesis using execute_timers_keeps assms(2) by blast
next
  case (2 src data s1)
  then show ?thesis using execute_timers_keeps process_keeps assms(2) by blast
qed

lemma process_step_keeps:
  assumes "process_step e p = Inr q" and "inv (rt (proc p))"
  shows "inv (rt (proc q))"
proof (cases e)
  case (Control w inp)
  then show ?thesis using assms main_iteration_keeps by (auto simp: bind_res_eq_Inr)
next
  case (Signal sig)
  then show ?thesis using assms signalled by (auto simp: handle_signal_def)
next
  case (Download inp stamp now)
  then show ?thesis using assms by (auto simp: bind_res_eq_Inr split: if_splits)
next
  case (Upload w data)
  then show ?thesis using assms upload_frame by (fastforce simp: bind_res_eq_Inr split: if_splits)
qed

lemma steps_keep: "steps p es q \<Longrightarrow> inv (rt (proc p)) \<Longrightarrow> inv (rt (proc q))"
  by (induction rule: steps.induct) (auto intro: process_step_keeps)

end

lemma process_step_rest: "process_step e p = Inr q \<Longrightarrow> trim_rest q = trim_rest p"
  by (cases e) (auto simp: bind_res_eq_Inr split: if_splits)

lemma steps_rest: "steps p es q \<Longrightarrow> trim_rest q = trim_rest p"
  by (induction rule: steps.induct) (simp_all add: process_step_rest)

subsection \<open>Every reachable state\<close>

lemma startup_rt:
  assumes "startup w 2 init_sys = Inr s"
  obtains s0 where "read_config w init_sys = Inr s0" and "rt s = rt s0" and "length (event_script_path (rt s)) < 128"
proof -
  obtain s0 s1 where s0: "read_config w init_sys = Inr s0"
    and s1: "open_grecp_socket w (snd (create_dhcp_script w s0)) = Inr s1" and s: "s = trigger_event w ''startup'' s1"
    and len: "length (event_script_path (rt s1)) < 128"
    using assms by (auto simp: startup_def bind_res_eq_Inr split: if_splits)
  have "rt s1 = rt s0"
    using s1 by (auto simp: open_grecp_socket_def call_defs Let_def split: if_splits)
  then show thesis using that s0 s len by simp
qed

definition buffers_ok :: "process \<Rightarrow> bool" where
  "buffers_ok p \<longleftrightarrow> array_ok (main_buffer p) \<and> array_ok (rxbuf (receiver p)) \<and> array_ok (txbuf (sender p))"

lemma main_iteration_buffer:
  "main_iteration w inp (buffer, s) = Inr (buffer', s') \<Longrightarrow> array_ok buffer \<Longrightarrow> array_ok buffer'"
  by (erule main_iterationE) auto

lemma process_step_buffers: "process_step e p = Inr q \<Longrightarrow> buffers_ok p \<Longrightarrow> buffers_ok q"
  by (cases e) (auto simp: buffers_ok_def bind_res_eq_Inr split: if_splits
      dest: main_iteration_buffer download_rxbuf upload_frame)

lemma steps_buffers: "steps p es q \<Longrightarrow> buffers_ok p \<Longrightarrow> buffers_ok q"
  by (induction rule: steps.induct) (auto intro: process_step_buffers)

text \<open>
  C4: In every state that the process can reach, after any sequence of datagrams, timers, signals and data
  packets, the addresses have their sizes and the names are terminated, the MTU of the tunnel is within its
  bounds, there is a server to fall back to, the receive arrays have their size, the path of the event script is terminated, and
  the environment strings of an event would all fit.
\<close>

theorem reachable_states_are_sound:
  assumes "reachable p"
  shows "wf_sys (proc p) \<and> names_fit (rt (proc p)) \<and>
    1280 \<le> tunnel_interface_mtu (rt (proc p)) \<and> tunnel_interface_mtu (rt (proc p)) \<le> 1448 \<and>
    anycast_ip (haap (rt (proc p))) \<noteq> in6addr_any \<and> buffers_ok p \<and>
    length (event_script_path (rt (proc p))) < 128 \<and>
    (\<forall>v \<in> set (event_environment (rt (proc p))). length v < MAX_ENV_VAR_LENGTH)"
  using assms
proof (cases rule: reachable.cases)
  case (reachableI w s b1 b2 b3 c es)
  obtain s0 where s0: "read_config w init_sys = Inr s0" and rt: "rt s = rt s0" and path: "length (event_script_path (rt s)) < 128"
    using startup_rt [OF reachableI(1)] .
  note conf0 = read_config_establishes [OF s0]
  have start: "rt (proc (initial b1 b2 b3 c s)) = rt s0" by (simp add: initial_def rt)
  have wf: "wf_runtime (rt (proc p))" and names: "names_fit (rt (proc p))"
    and conf: "configured (rt s0) (rt (proc p))"
    using wf_loop.steps_keep [OF reachableI(5)] names_loop.steps_keep [OF reachableI(5)]
      configured_loop.steps_keep [OF reachableI(5), of "rt s0"] conf0
    unfolding start by (auto simp: wf_sys_def configured_def)
  have "buffers_ok p"
    using steps_buffers [OF reachableI(5)] reachableI(2-4)
    by (simp add: buffers_ok_def initial_def init_gre2tun_def init_tun2gre_def)
  then show ?thesis
    using wf names conf conf0 path rt event_environment_lengths [OF wf names]
    by (simp add: wf_sys_def configured_def)
qed

definition start_env :: env where
  "start_env = example_env\<lparr>env_text := \<lambda>_. Some config_example\<rparr>"

lemma startup_example: "\<exists>s. startup start_env 2 init_sys = Inr s"
proof -
  have lines: "fold_res config_line (getlines [] config_example) r = Inr r" for r
    by (rule fold_res_skip) (simp add: config_example_lines comment_or_blank_def config_line_comment)
  have "\<exists>s. read_config start_env init_sys = Inr s \<and> event_script_path (rt s) = []"
    by (simp add: read_config_def ask_text_def start_env_def read_config_text_def lines defaults_after_def
        defaults_before_def init_sys_def zero_runtime_def)
  then obtain s where s: "read_config start_env init_sys = Inr s" and path: "event_script_path (rt s) = []" by blast
  have "\<exists>s'. open_grecp_socket start_env t = Inr s' \<and> rt s' = rt t" for t
    by (simp add: open_grecp_socket_def ask_int_def ask_ok_def start_env_def example_env_def)
  then obtain s' where "open_grecp_socket start_env (snd (create_dhcp_script start_env s)) = Inr s'" and "rt s' = rt s" by fastforce
  with s path show ?thesis by (simp add: startup_def)
qed


theorem reachable_states_are_sound_witness:
  "\<exists>p. reachable p \<and> runtime.signal (rt (proc p)) = 1 \<and> 1280 \<le> tunnel_interface_mtu (rt (proc p))"
proof -
  obtain s where s: "startup start_env 2 init_sys = Inr s" using startup_example ..
  let ?b = "replicate MAX_PKT_SIZE (0 :: u8)"
  let ?p = "initial ?b ?b ?b zero_rest s"
  let ?q = "?p\<lparr>proc := handle_signal 1 s\<rparr>"
  have "exited s = None"
    using s by (auto simp: startup_def bind_res_eq_Inr open_grecp_socket_def create_dhcp_script_def read_config_def
        call_defs Let_def case_prod_beta init_sys_def split: if_splits option.splits)
  then have "steps ?p [Signal 1] ?q" by (simp add: steps_Cons steps_Nil initial_def)
  then have r: "reachable ?q"
    using s by (intro reachable.intros [of start_env s ?b ?b ?b zero_rest "[Signal 1]"]) (simp_all add: array_ok_def)
  from reachable_states_are_sound [OF r] have "1280 \<le> tunnel_interface_mtu (rt (proc ?q))" by simp
  with r show ?thesis by (intro exI [of _ ?q]) (simp add: handle_signal_def)
qed

subsection \<open>Devices of a session\<close>

lemma main_iteration_devices:
  assumes "main_iteration w inp (buffer, s) = Inr (buffer', s')" and "devices_up s"
  shows "devices_up s' \<and> device_log s' = device_log s"
  using assms(1)
proof (cases rule: main_iterationE)
  case 1
  then show ?thesis using timers_keep_devices assms(2) by blast
next
  case (2 src data s1)
  note m = message_change_device [OF process_change [OF 2(4)]]
  have "devices_up s1" using devices_up_cong [OF m(2,1)] assms(2) by simp
  then show ?thesis using timers_keep_devices [OF 2(5)] m(1) by simp
qed

lemma process_step_devices:
  assumes "process_step e p = Inr q" and "devices_up (proc p)"
  shows "devices_up (proc q) \<and> device_log (proc q) = device_log (proc p)"
proof (cases e)
  case (Control w inp)
  then show ?thesis using assms main_iteration_devices by (auto simp: bind_res_eq_Inr)
next
  case (Signal sig)
  then show ?thesis using assms by (auto simp: handle_signal_def devices_up_def device_log_def)
next
  case (Download inp stamp now)
  then show ?thesis using assms by (auto simp: bind_res_eq_Inr split: if_splits)
next
  case (Upload w data)
  then have "proc q = proc p \<or> (\<exists>t. tun2gre_iteration w data (sender p) (proc p) = Inr (t, proc q))"
    using assms(1) by (auto simp: bind_res_eq_Inr split: if_splits)
  then show ?thesis
    using upload_frame [of w data "sender p" "proc p" _ "proc q"] assms(2)
    by (auto simp: devices_up_def device_log_def)
qed

lemma steps_devices:
  "steps p es q \<Longrightarrow> devices_up (proc p) \<Longrightarrow> devices_up (proc q) \<and> device_log (proc q) = device_log (proc p)"
proof (induction rule: steps.induct)
  case (steps_step p e q es r)
  then show ?case using process_step_devices [OF steps_step(2)] by simp
qed simp

text \<open>The bonding key in the filter of the data socket: the one of the last socket that was opened.\<close>

fun socket_keys :: "effect list \<Rightarrow> u32 list" where
  "socket_keys [] = []"
| "socket_keys (Open_Gre_Socket k # es) = k # socket_keys es"
| "socket_keys (e # es) = socket_keys es"

lemma socket_keys_devices: "socket_keys es = socket_keys (filter device_effect es)"
  by (induction es rule: socket_keys.induct) simp_all

text \<open>
  C16: The devices of a bonding session outlive it. Once device, threads and data socket exist, nothing that happens creates
  one of them again: whatever messages, rounds, signals and packets follow, the filter of the data socket stays the one of the
  first session, and when the server has assigned another bonding key since, the
  filter rejects every packet of the current session.
\<close>

theorem stale_filter_rejects_new_session:
  assumes "steps p es q" and "devices_up (proc p)"
    and "socket_keys (trace (proc p)) \<noteq> []" and "last (socket_keys (trace (proc p))) = old"
    and "bonding_key (haap (rt (proc q))) \<noteq> old"
  shows "device_log (proc q) = device_log (proc p) \<and> last (socket_keys (trace (proc q))) = old \<and>
    \<not> bpf_accepts (gre_filter (last (socket_keys (trace (proc q)))))
        (gre_packet (bonding_key (haap (rt (proc q)))) proto sq True payload)"
proof -
  have log: "device_log (proc q) = device_log (proc p)" using steps_devices [OF assms(1,2)] by simp
  then have "socket_keys (trace (proc q)) = socket_keys (trace (proc p))"
    by (simp add: device_log_def socket_keys_devices [of "trace (proc q)"] socket_keys_devices [of "trace (proc p)"])
  then have last: "last (socket_keys (trace (proc q))) = old" using assms(4) by simp
  have "greh_key (gre_packet (bonding_key (haap (rt (proc q)))) proto sq True payload) =
      htonl (bonding_key (haap (rt (proc q))))"
    using gre_packet_fields(4) [of _ proto sq payload "[]"] by simp
  then show ?thesis using log last assms(5) by (simp add: gre_filter_iff)
qed

definition second_session :: sys where
  "second_session = init_sys\<lparr>sockfd_gre := 9, trace := [Open_Gre_Socket 5],
     rt := zero_runtime\<lparr>bonding := True, tunnel_interface_created := True, gre2tun_thread := 3, tun2gre_thread := 4,
       haap := zero_haap\<lparr>bonding_key := 6\<rparr>, lte := zero_lte\<lparr>tunnel_established := True\<rparr>\<rparr>\<rparr>"

theorem stale_filter_rejects_new_session_witness:
  "\<exists>q. steps (initial [] [] [] zero_rest second_session) [Control (silent_env 106) No_Datagram] q \<and>
     \<not> bpf_accepts (gre_filter 5) (gre_packet (bonding_key (haap (rt (proc q)))) ETHERTYPE_IP 0 True [0x45])"
proof -
  let ?p = "initial [] [] [] zero_rest second_session"
  have sel: "bonding_key (haap (rt second_session)) = 6" "sockfd_gre second_session = 9" "exited second_session = None"
    "trace second_session = [Open_Gre_Socket 5]"
    by (simp_all add: second_session_def init_sys_def)
  obtain s' where s': "execute_timers (silent_env 106) second_session = Inr s'"
    using execute_timers_total [of "silent_env 106" second_session]
    by (auto simp: silent_env_def sel)
  let ?q = "?p\<lparr>proc := s'\<rparr>"
  have st: "steps ?p [Control (silent_env 106) No_Datagram] ?q"
    using s' by (simp add: steps_Cons steps_Nil initial_def main_iteration_def sel)
  have key: "bonding_key (haap (rt s')) \<noteq> 5"
    using timers_haap [OF s'] sel(1) by (auto split: if_splits)
  have up: "devices_up (proc ?p)" by (simp add: devices_up_def initial_def second_session_def)
  have "\<not> bpf_accepts (gre_filter 5) (gre_packet (bonding_key (haap (rt s'))) ETHERTYPE_IP 0 True [0x45])"
    using stale_filter_rejects_new_session [OF st up, where old = 5 and proto = ETHERTYPE_IP and sq = 0 and
        payload = "[0x45]"] key by (auto simp: initial_def sel)
  with st show ?thesis by (intro exI [of _ ?q]) simp
qed

subsection \<open>The first turn of a thread\<close>

text \<open>C39: The first turn of either thread takes the thread name from an array that \<open>strncpy\<close> does not terminate. With a tunnel interface
  of nine or more characters, which the configuration accepts, the thread reads behind the array, unless the byte
  left on its stack behind the name is zero; otherwise the prologue succeeds, and the turn is that of the loop.\<close>

theorem first_turn_names_thread:
  assumes "CHR 0x00 \<notin> set (tunnel_interface_name (rt (proc p)))"
  shows "(gre2tun_thread (rt (proc p)) \<noteq> 0 \<and> receiver_name p = None \<longrightarrow>
     process_step (Download inp stamp now) p =
       (if length (tunnel_interface_name (rt (proc p))) < 9 \<or> fst (trim_rest p) = CHR 0x00
        then bind_res (gre2tun_iteration (haap_ip (haap (rt (proc p)))) (reorder_buffer_timeout (rt (proc p)))
            inp stamp now (receiver p)) (\<lambda>(st, out).
          Inr (p\<lparr>receiver_name := Some (take 9 (tunnel_interface_name (rt (proc p))) @ ''-recv''), receiver := st,
            tunout := tunout p @ out\<rparr>))
        else Inl Out_Of_Bounds_Read)) \<and>
    (tun2gre_thread (rt (proc p)) \<noteq> 0 \<and> sender_name p = None \<longrightarrow>
     process_step (Upload w data) p =
       (if length (tunnel_interface_name (rt (proc p))) < 9 \<or> snd (trim_rest p) = CHR 0x00
        then bind_res (tun2gre_iteration w data (sender p) (proc p)) (\<lambda>(t, s).
          Inr (p\<lparr>sender_name := Some (take 9 (tunnel_interface_name (rt (proc p))) @ ''-send''), sender := t, proc := s\<rparr>))
        else Inl Out_Of_Bounds_Read))"
  using thread_name_cases [OF assms]
  by (auto simp: enter_thread_def gre2tun_thread_name_def tun2gre_thread_name_def)

theorem first_turn_names_thread_witness:
  "process_step (Download (Nothing_Received True) (Timeval 0 0) (Timeval 0 0))
     (initial [] [] [] (CHR ''x'', CHR ''x'') (second_session\<lparr>rt := (rt second_session)\<lparr>tunnel_interface_name := ''hybridtunnel''\<rparr>\<rparr>)) =
     Inl Out_Of_Bounds_Read"
proof -
  let ?p = "initial [] [] [] (CHR ''x'', CHR ''x'') (second_session\<lparr>rt := (rt second_session)\<lparr>tunnel_interface_name := ''hybridtunnel''\<rparr>\<rparr>)"
  have sel: "tunnel_interface_name (rt (proc ?p)) = ''hybridtunnel''" "gre2tun_thread (rt (proc ?p)) \<noteq> 0"
    "receiver_name ?p = None" "fst (trim_rest ?p) = CHR ''x''"
    by (simp_all add: initial_def second_session_def)
  have "CHR 0x00 \<notin> set (tunnel_interface_name (rt (proc ?p)))" by (simp add: sel(1))
  from first_turn_names_thread [OF this] sel show ?thesis by simp
qed

end
