(* ===== verification/Resequencing.thy ===== *)
theory Resequencing
  imports Reorder
begin

text \<open>
  What the reorder buffer delivers. The counter \<open>sequence_flushed\<close> is read as the next expected
  number \<open>next_expected f\<close>, a natural number; the buffer implements an abstract resequencer that maps the
  waiting numbers to payloads and releases them in order. The invariant \<open>buffer_inv\<close> says
  that no waiting packet is behind the counter and no number waits twice. Everything here
  holds below the wrap-around of the 32-bit sequence numbers, which is a bound of the invariant.
\<close>

subsection \<open>The counter as a natural number\<close>

definition next_expected :: "u32 \<Rightarrow> nat" where
  "next_expected f = unat (f + 1)"

lemma next_expected_eq_iff: "s = f + 1 \<longleftrightarrow> unat s = next_expected f"
  by (simp add: next_expected_def word_unat_eq_iff)

lemma unat_plus_one:
  assumes "unat (w :: u32) < 2 ^ 32 - 1"
  shows "unat (w + 1) = Suc (unat w)"
  using assms by (simp add: unat_plus_if')

lemma next_expected_Suc:
  assumes "next_expected f < 2 ^ 32 - 1"
  shows "next_expected (f + 1) = Suc (next_expected f)"
  using assms unfolding next_expected_def by (rule unat_plus_one)

lemma next_expected_le_iff:
  assumes "0 < next_expected f"
  shows "s \<le> f \<longleftrightarrow> unat s < next_expected f"
proof -
  have "f + 1 \<noteq> 0" using assms by (auto simp: next_expected_def)
  then have "next_expected f = Suc (unat f)"
    unfolding next_expected_def using unatSuc [of f] by (simp add: add.commute)
  then show ?thesis by (simp add: word_le_nat_alt less_Suc_eq_le)
qed

lemma next_expected_minus_one [simp]: "next_expected (- 1) = 0"
  by (simp add: next_expected_def)

subsection \<open>The invariant\<close>

abbreviation (input) live :: "reorder_buffer_element \<Rightarrow> bool" where
  "live e \<equiv> \<not> freed e"

definition element_inv :: "nat \<Rightarrow> reorder_buffer_element \<Rightarrow> bool" where
  "element_inv n e \<longleftrightarrow>
     (if freed e then unat (sequence e) < n \<and> psize e = 0
      else n \<le> unat (sequence e) \<and> unat (sequence e) < 2 ^ 32 - 1 \<and> psize e > 0 \<and>
        length (packet e) = unat (psize e))"

definition buffer_inv :: "reorder_buffer_element list \<Rightarrow> nat \<Rightarrow> bool" where
  "buffer_inv es n \<longleftrightarrow> (\<forall>e \<in> set es. element_inv n e) \<and> distinct (map sequence (filter live es))"

definition mark_below :: "nat \<Rightarrow> reorder_buffer_element \<Rightarrow> reorder_buffer_element" where
  "mark_below n e = (if live e \<and> unat (sequence e) < n then flush_element e else e)"

definition waiting_numbers :: "reorder_buffer_element list \<Rightarrow> nat set" where
  "waiting_numbers es = (\<lambda>e. unat (sequence e)) ` {e \<in> set es. live e}"

definition written_from :: "reorder_buffer_element list \<Rightarrow> written \<Rightarrow> bool" where
  "written_from es out \<longleftrightarrow>
     (\<forall>x \<in> set out. \<exists>e \<in> set es. live e \<and> sequence e = fst x \<and> packet e = snd x)"

lemma buffer_inv_Nil [simp]: "buffer_inv [] n"
  by (simp add: buffer_inv_def)

lemma flush_element_simps [simp]:
  "sequence (flush_element e) = sequence e" "packet (flush_element e) = packet e"
  "psize (flush_element e) = 0" "timestamp (flush_element e) = timestamp e"
  by (simp_all add: flush_element_def)

lemma mark_below_simps [simp]:
  "sequence (mark_below n e) = sequence e" "packet (mark_below n e) = packet e"
  "timestamp (mark_below n e) = timestamp e"
  "freed (mark_below n e) \<longleftrightarrow> freed e \<or> unat (sequence e) < n"
  by (auto simp: mark_below_def)

lemma mark_below_mark_below: "m \<le> n \<Longrightarrow> mark_below n (mark_below m e) = mark_below n e"
  by (auto simp: mark_below_def)

lemma mark_below_id: "element_inv n e \<Longrightarrow> mark_below n e = e"
  by (auto simp: mark_below_def element_inv_def split: if_splits)

lemma buffer_inv_mark:
  assumes "buffer_inv es m" and "m \<le> n"
  shows "buffer_inv (map (mark_below n) es) n"
proof -
  have "element_inv n (mark_below n e)" if "element_inv m e" for e
    using that assms(2) by (auto simp: element_inv_def mark_below_def split: if_splits)
  moreover have "map sequence (filter live (map (mark_below n) es)) =
      map sequence (filter (\<lambda>e. live e \<and> \<not> unat (sequence e) < n) es)"
    by (induction es) auto
  moreover have "distinct (map sequence (filter (\<lambda>e. live e \<and> \<not> unat (sequence e) < n) es))"
    using assms(1) distinct_map_filter [of sequence "filter live es"] by (simp add: buffer_inv_def)
  ultimately show ?thesis using assms(1) by (auto simp: buffer_inv_def)
qed

lemma buffer_inv_Suc:
  assumes "buffer_inv es n" and "n \<notin> waiting_numbers es"
  shows "buffer_inv es (Suc n)"
proof -
  have "element_inv (Suc n) e" if "e \<in> set es" for e
  proof -
    have "element_inv n e" and "live e \<longrightarrow> unat (sequence e) \<noteq> n"
      using assms that by (auto simp: buffer_inv_def waiting_numbers_def)
    then show ?thesis by (auto simp: element_inv_def split: if_splits)
  qed
  with assms(1) show ?thesis by (simp add: buffer_inv_def)
qed

lemma waiting_numbers_mark:
  "waiting_numbers (map (mark_below n) es) = {k \<in> waiting_numbers es. n \<le> k}"
  by (force simp: waiting_numbers_def image_iff)

lemma written_from_mark: "written_from (map (mark_below n) es) out \<Longrightarrow> written_from es out"
  by (fastforce simp: written_from_def)

lemma buffer_inv_ConsD:
  assumes "buffer_inv (e # es) n"
  shows "element_inv n e" "buffer_inv es n" "live e \<Longrightarrow> unat (sequence e) \<notin> waiting_numbers es"
  using assms by (auto simp: buffer_inv_def waiting_numbers_def word_unat_eq_iff image_iff
      split: if_splits)

subsection \<open>What the flushing loops do\<close>

text \<open>
  The result of flushing from \<open>f\<close> to \<open>f'\<close>: no fault, the packets below \<open>f'\<close> are freed, and
  exactly the numbers in between were written, in order, each with its own payload.
\<close>

definition flushed :: "reorder_buffer_element list \<Rightarrow> u32 \<Rightarrow> reorder_buffer_element list \<Rightarrow>
    u32 \<Rightarrow> written \<Rightarrow> bool" where
  "flushed es f es' f' out \<longleftrightarrow>
     next_expected f \<le> next_expected f' \<and>
     es' = map (mark_below (next_expected f')) es \<and>
     map (\<lambda>x. unat (fst x)) out =
       filter (\<lambda>n. n \<in> waiting_numbers es) [next_expected f..<next_expected f'] \<and>
     written_from es out"

text \<open>In a pass nothing is skipped: every number in between was waiting.\<close>

definition contiguous :: "reorder_buffer_element list \<Rightarrow> u32 \<Rightarrow> u32 \<Rightarrow> bool" where
  "contiguous es f f' \<longleftrightarrow> {next_expected f..<next_expected f'} \<subseteq> waiting_numbers es"

lemma element_inv_bound: "element_inv n e \<Longrightarrow> live e \<Longrightarrow> n < 2 ^ 32 - 1"
  by (simp add: element_inv_def)

lemma filter_upt_all: "{m..<n} \<subseteq> A \<Longrightarrow> filter (\<lambda>k. k \<in> A) [m..<n] = [m..<n]"
  by (rule filter_True) auto

lemma waiting_numbers_Cons [simp]:
  "waiting_numbers (e # es) = (if freed e then {} else {unat (sequence e)}) \<union> waiting_numbers es"
  by (auto simp: waiting_numbers_def)

text \<open>One element of the list: it was the next one, or it stays.\<close>

lemma flushed_Cons_next:
  assumes "live e" and n: "unat (sequence e) = next_expected f" and suc: "next_expected (f + 1) = Suc (next_expected f)"
    and fl: "flushed es (f + 1) es' f' out" and c: "contiguous es (f + 1) f'"
  shows "flushed (e # es) f (flush_element e # es') f' ((sequence e, packet e) # out)" "contiguous (e # es) f f'"
proof -
  have le: "Suc (next_expected f) \<le> next_expected f'" using fl suc by (simp add: flushed_def)
  have all: "{next_expected f..<next_expected f'} \<subseteq> waiting_numbers (e # es)"
  proof
    fix k assume k: "k \<in> {next_expected f..<next_expected f'}"
    show "k \<in> waiting_numbers (e # es)"
    proof (cases "k = next_expected f")
      case False
      with k suc have "k \<in> {next_expected (f + 1)..<next_expected f'}" by simp
      with c show ?thesis by (auto simp: contiguous_def)
    qed (simp add: assms(1) n)
  qed
  have out: "map (\<lambda>x. unat (fst x)) out = [Suc (next_expected f)..<next_expected f']"
    using fl c unfolding flushed_def contiguous_def suc by (simp only: filter_upt_all)
  have nums: "map (\<lambda>x. unat (fst x)) ((sequence e, packet e) # out) =
      filter (\<lambda>k. k \<in> waiting_numbers (e # es)) [next_expected f..<next_expected f']"
    using le by (simp only: filter_upt_all [OF all] list.map fst_conv n out) (simp add: upt_conv_Cons)
  show "flushed (e # es) f (flush_element e # es') f' ((sequence e, packet e) # out)"
    unfolding flushed_def nums
    using fl le n assms(1) by (auto simp: flushed_def mark_below_def written_from_def)
  show "contiguous (e # es) f f'" using all by (auto simp: contiguous_def)
qed

lemma flushed_Cons_other:
  assumes inv: "element_inv (next_expected f) e" "live e \<Longrightarrow> unat (sequence e) \<notin> waiting_numbers es"
    and fl: "flushed es f es' f' out" and c: "contiguous es f f'"
  shows "flushed (e # es) f (e # es') f' out" "contiguous (e # es) f f'"
proof -
  have out: "\<not> (next_expected f \<le> unat (sequence e) \<and> unat (sequence e) < next_expected f')" if "live e"
    using c inv(2) [OF that] by (auto simp: contiguous_def)
  have "mark_below (next_expected f') e = e"
    using out inv(1) by (auto simp: mark_below_def element_inv_def)
  moreover have "filter (\<lambda>n. n \<in> waiting_numbers (e # es)) [next_expected f..<next_expected f'] =
      filter (\<lambda>n. n \<in> waiting_numbers es) [next_expected f..<next_expected f']"
    using out by (intro filter_cong) auto
  ultimately show "flushed (e # es) f (e # es') f' out"
    using fl by (auto simp: flushed_def written_from_def)
  show "contiguous (e # es) f f'" using c by (auto simp: contiguous_def)
qed

lemma flush_pass_spec:
  assumes "buffer_inv es (next_expected f)"
  shows "\<exists>es' f' out b. flush_pass es f = Inr (es', f', out, b) \<and> flushed es f es' f' out \<and>
    contiguous es f f'"
  using assms
proof (induction es arbitrary: f)
  case Nil
  then show ?case by (auto simp: flushed_def contiguous_def written_from_def)
next
  case (Cons e es)
  note inv = buffer_inv_ConsD [OF Cons.prems]
  show ?case
  proof (cases "sequence e = f + 1")
    case True
    then have n: "unat (sequence e) = next_expected f" by (simp add: next_expected_eq_iff)
    with inv(1) have live: "live e" and size: "length (packet e) = unat (psize e)"
      by (auto simp: element_inv_def split: if_splits)
    have suc: "next_expected (f + 1) = Suc (next_expected f)"
      using element_inv_bound [OF inv(1) live] by (rule next_expected_Suc)
    have "buffer_inv es (next_expected (f + 1))"
      unfolding suc using inv(2,3) live n by (intro buffer_inv_Suc) auto
    then obtain es' f' out b where r: "flush_pass es (f + 1) = Inr (es', f', out, b)"
      and rest: "flushed es (f + 1) es' f' out" "contiguous es (f + 1) f'"
      using Cons.IH by blast
    then show ?thesis
      using True live size r flushed_Cons_next [OF live n suc rest] by auto
  next
    case False
    obtain es' f' out b where r: "flush_pass es f = Inr (es', f', out, b)"
      and rest: "flushed es f es' f' out" "contiguous es f f'"
      using Cons.IH [OF inv(2)] by blast
    then show ?thesis using False flushed_Cons_other [OF inv(1,3) rest] by simp
  qed
qed

lemma flushed_trans:
  assumes "flushed es f es1 f1 out1" and "flushed es1 f1 es2 f2 out2"
  shows "flushed es f es2 f2 (out1 @ out2)"
proof -
  let ?n = "next_expected f" and ?n1 = "next_expected f1" and ?n2 = "next_expected f2"
  have le: "?n \<le> ?n1" "?n1 \<le> ?n2" and es1: "es1 = map (mark_below ?n1) es"
    using assms by (auto simp: flushed_def)
  have "filter (\<lambda>n. n \<in> waiting_numbers es1) [?n1..<?n2] = filter (\<lambda>n. n \<in> waiting_numbers es) [?n1..<?n2]"
    by (intro filter_cong) (auto simp: es1 waiting_numbers_mark)
  moreover have "[?n..<?n2] = [?n..<?n1] @ [?n1..<?n2]"
    using le by (metis le_add_diff_inverse upt_add_eq_append)
  ultimately show ?thesis
    using assms le es1 written_from_mark [of ?n1 es out2]
    by (auto simp: flushed_def mark_below_mark_below written_from_def)
qed

lemma contiguous_trans:
  assumes "contiguous es f f1" and "flushed es f es1 f1 out" and "contiguous es1 f1 f2"
  shows "contiguous es f f2"
proof -
  have "waiting_numbers es1 \<subseteq> waiting_numbers es"
    using assms(2) by (auto simp: flushed_def waiting_numbers_mark)
  moreover have "{next_expected f..<next_expected f2} \<subseteq>
      {next_expected f..<next_expected f1} \<union> {next_expected f1..<next_expected f2}" by auto
  ultimately show ?thesis using assms(1,3) unfolding contiguous_def by blast
qed

lemma buffer_inv_flushed:
  "buffer_inv es (next_expected f) \<Longrightarrow> flushed es f es' f' out \<Longrightarrow> buffer_inv es' (next_expected f')"
  by (auto simp: flushed_def intro: buffer_inv_mark)

lemma flush_all_spec:
  assumes "buffer_inv es (next_expected f)"
  shows "\<exists>es' f' out. flush_all es f = Inr (es', f', out) \<and> flushed es f es' f' out \<and>
    contiguous es f f' \<and> next_expected f' \<notin> waiting_numbers es'"
  using assms
proof (induction es f rule: flush_all.induct)
  case (1 es f)
  obtain es1 f1 out1 b where p: "flush_pass es f = Inr (es1, f1, out1, b)"
    and fl: "flushed es f es1 f1 out1" and c: "contiguous es f f1"
    using flush_pass_spec [OF "1.prems"] by blast
  show ?case
  proof (cases b)
    case True
    from "1.IH" [OF p refl refl refl True] buffer_inv_flushed [OF "1.prems" fl]
    obtain es2 f2 out2 where r: "flush_all es1 f1 = Inr (es2, f2, out2)"
      and fl2: "flushed es1 f1 es2 f2 out2" "contiguous es1 f1 f2" "next_expected f2 \<notin> waiting_numbers es2"
      by blast
    have "flush_all es f = Inr (es2, f2, out1 @ out2)"
      by (subst flush_all.simps) (simp add: p True r)
    with flushed_trans [OF fl fl2(1)] contiguous_trans [OF c fl fl2(2)] fl2(3) show ?thesis by blast
  next
    case False
    have r: "flush_all es f = Inr (es1, f1, out1)"
      by (subst flush_all.simps) (simp add: p False)
    have "\<forall>e \<in> set es1. sequence e \<noteq> f1 + 1" using flush_all_unfreed [OF r] by blast
    then have "next_expected f1 \<notin> waiting_numbers es1"
      by (auto simp: waiting_numbers_def next_expected_eq_iff)
    with r fl c show ?thesis by blast
  qed
qed

subsection \<open>Time-outs\<close>

lemma timed_out_live: "element_inv n e \<Longrightarrow> timed_out now timeout e \<Longrightarrow> live e"
  by (auto simp: element_inv_def timed_out_def split: if_splits)

text \<open>A restart steps over one number that nobody waits for.\<close>

lemma flushed_skip:
  assumes "buffer_inv es (next_expected f)" and "next_expected f \<notin> waiting_numbers es"
    and "list_ex (timed_out now timeout) es"
  shows "buffer_inv es (next_expected (f + 1)) \<and> flushed es f es (f + 1) []"
proof -
  from assms(3) obtain e where e: "e \<in> set es" "timed_out now timeout e" by (auto simp: list_ex_iff)
  then have "element_inv (next_expected f) e" and live: "live e"
    using assms(1) by (auto simp: buffer_inv_def dest: timed_out_live)
  then have "next_expected f < 2 ^ 32 - 1" by (blast dest: element_inv_bound)
  then have suc: "next_expected (f + 1) = Suc (next_expected f)" by (rule next_expected_Suc)
  have inv: "buffer_inv es (next_expected (f + 1))"
    unfolding suc by (rule buffer_inv_Suc [OF assms(1,2)])
  then have "map (mark_below (next_expected (f + 1))) es = es"
    by (intro map_idI) (auto simp: buffer_inv_def mark_below_id)
  with inv show ?thesis
    using assms(2) suc by (auto simp: flushed_def written_from_def)
qed

lemma reorder_flush_spec:
  assumes "buffer_inv es (next_expected f)"
  shows "\<exists>es' f' out. reorder_flush now timeout es f = Inr (es', f', out) \<and> flushed es f es' f' out \<and>
    next_expected f' \<notin> waiting_numbers es' \<and> \<not> list_ex (timed_out now timeout) es' \<and>
    (contiguous es f f' \<or> list_ex (timed_out now timeout) es)"
  using assms
proof (induction now timeout es f rule: reorder_flush.induct)
  case (1 now timeout es f)
  obtain es1 f1 out1 where r1: "flush_all es f = Inr (es1, f1, out1)"
    and fl1: "flushed es f es1 f1 out1" and c1: "contiguous es f f1"
    and n1: "next_expected f1 \<notin> waiting_numbers es1"
    using flush_all_spec [OF "1.prems"] by blast
  have inv1: "buffer_inv es1 (next_expected f1)" by (rule buffer_inv_flushed [OF "1.prems" fl1])
  show ?case
  proof (cases "list_ex (timed_out now timeout) es1")
    case True
    note skip = flushed_skip [OF inv1 n1 True]
    from "1.IH" [OF r1 refl refl True] skip obtain es2 f2 out2
      where r2: "reorder_flush now timeout es1 (f1 + 1) = Inr (es2, f2, out2)"
        and fl2: "flushed es1 (f1 + 1) es2 f2 out2"
        and rest: "next_expected f2 \<notin> waiting_numbers es2" "\<not> list_ex (timed_out now timeout) es2"
      by blast
    have "flushed es1 f1 es2 f2 ([] @ out2)"
      using skip fl2 by (blast intro: flushed_trans)
    then have "flushed es f es2 f2 (out1 @ out2)"
      using flushed_trans [OF fl1] by simp
    moreover have "reorder_flush now timeout es f = Inr (es2, f2, out1 @ out2)"
      by (subst reorder_flush.simps) (simp add: r1 True r2)
    moreover have "list_ex (timed_out now timeout) es"
    proof -
      have "timed_out now timeout (mark_below n e) \<Longrightarrow> timed_out now timeout e" for n e
        by (auto simp: timed_out_def mark_below_def split: if_splits)
      with True fl1 show ?thesis by (auto simp: flushed_def list_ex_iff)
    qed
    ultimately show ?thesis using rest by blast
  next
    case False
    have "reorder_flush now timeout es f = Inr (es1, f1, out1)"
      by (subst reorder_flush.simps) (simp add: r1 False)
    with fl1 c1 n1 False show ?thesis by blast
  qed
qed

subsection \<open>Dropping and compaction keep what waits\<close>

lemma drop_late_id:
  assumes "buffer_inv es (next_expected f)" and "0 < next_expected f"
  shows "drop_late f es = es"
  unfolding drop_late_def
proof (rule map_idI)
  fix e assume "e \<in> set es"
  then have "element_inv (next_expected f) e" using assms(1) by (simp add: buffer_inv_def)
  then show "(if psize e > 0 \<and> sequence e \<le> f then flush_element e else e) = e"
    using next_expected_le_iff [OF assms(2), of "sequence e"]
    by (auto simp: element_inv_def split: if_splits)
qed

lemma unat_freeable_le: "unat (freeable es) \<le> length (takeWhile (\<lambda>e. psize e = 0) es)"
  by (simp add: freeable_def unat_of_nat)

lemma compact_suffix: "\<exists>k. compact es = drop k es \<and> k \<le> length (takeWhile (\<lambda>e. psize e = 0) es)"
proof (cases "length es = unat (freeable es)")
  case True
  then show ?thesis
    using unat_freeable_le [of es] by (intro exI [of _ "length es"]) (simp add: compact_def)
next
  case False
  then show ?thesis
    using unat_freeable_le [of es]
    by (cases "freeable es > 0") (auto simp: compact_def intro: exI [of _ 0])
qed

lemma live_suffix:
  assumes "\<forall>e \<in> set es. element_inv n e" and "k \<le> length (takeWhile (\<lambda>e. psize e = 0) es)"
  shows "filter live (drop k es) = filter live es"
proof -
  have "freed e" if "e \<in> set (take k es)" for e
  proof -
    have "take k es = take k (takeWhile (\<lambda>e. psize e = 0) es)"
      using assms(2) by (metis append_take_drop_id le_add_diff_inverse takeWhile_dropWhile_id take_append
          add_diff_cancel_left' append_self_conv diff_is_0_eq take0)
    with that have "psize e = 0" and "e \<in> set es"
      by (auto dest!: in_set_takeD dest: set_takeWhileD)
    with assms(1) show ?thesis by (fastforce simp: element_inv_def split: if_splits)
  qed
  then have "filter live (take k es) = []" by (simp add: filter_empty_conv)
  then show ?thesis by (metis append_take_drop_id filter_append self_append_conv2)
qed

lemma compact_live:
  assumes "buffer_inv es n"
  shows "filter live (compact es) = filter live es" "buffer_inv (compact es) n"
proof -
  obtain k where k: "compact es = drop k es" "k \<le> length (takeWhile (\<lambda>e. psize e = 0) es)"
    using compact_suffix by blast
  with assms live_suffix [of es n k] show live: "filter live (compact es) = filter live es"
    by (simp add: buffer_inv_def)
  from k(1) assms show "buffer_inv (compact es) n"
    using live by (auto simp: buffer_inv_def dest: in_set_dropD)
qed

subsection \<open>Refinement of an abstract resequencer\<close>

text \<open>
  The abstract resequencer knows the next expected number and the payloads that wait; releasing
  up to \<open>n'\<close> hands out the waiting payloads below \<open>n'\<close> in the order of their numbers.
\<close>

record resequencer =
  expected :: nat
  waiting :: "nat \<rightharpoonup> bytes"

definition release :: "nat \<Rightarrow> resequencer \<Rightarrow> bytes list \<times> resequencer" where
  "release n' r =
     (map (\<lambda>n. the (waiting r n)) (filter (\<lambda>n. n \<in> dom (waiting r)) [expected r..<n']),
      \<lparr>expected = n', waiting = waiting r |` {n'..}\<rparr>)"

definition pending :: "reorder_buffer_element list \<Rightarrow> nat \<rightharpoonup> bytes" where
  "pending es = map_of (map (\<lambda>e. (unat (sequence e), packet e)) (filter live es))"

definition abs_buffer :: "reorder_buffer_element list \<Rightarrow> u32 \<Rightarrow> resequencer" where
  "abs_buffer es f = \<lparr>expected = next_expected f, waiting = pending es\<rparr>"

lemma dom_pending: "dom (pending es) = waiting_numbers es"
  by (auto simp: pending_def dom_map_of_conv_image_fst waiting_numbers_def image_image)

lemma distinct_keys:
  assumes "buffer_inv es n"
  shows "distinct (map fst (map (\<lambda>e. (unat (sequence e), packet e)) (filter live es)))"
proof -
  have "map fst (map (\<lambda>e. (unat (sequence e), packet e)) (filter live es)) =
      map unat (map sequence (filter live es))" by (simp add: comp_def)
  moreover have "distinct (map unat (map sequence (filter live es)))"
    unfolding distinct_map using assms by (auto simp: buffer_inv_def inj_on_def word_unat_eq_iff distinct_map)
  ultimately show ?thesis by (simp only:)
qed

lemma pending_SomeI:
  "buffer_inv es n \<Longrightarrow> e \<in> set es \<Longrightarrow> live e \<Longrightarrow> pending es (unat (sequence e)) = Some (packet e)"
  unfolding pending_def by (rule map_of_is_SomeI) (auto dest: distinct_keys)

lemma pending_simps:
  "pending [] = Map.empty"
  "pending (e # es) =
     (if freed e then pending es else (pending es)(unat (sequence e) \<mapsto> packet e))"
  by (simp_all add: pending_def)

lemma pending_mark: "pending (map (mark_below n) es) = pending es |` {n..}"
proof (induction es)
  case (Cons e es)
  then show ?case
    by (cases "freed e"; cases "unat (sequence e) < n") (auto simp: pending_simps restrict_map_def)
qed (simp add: pending_simps)

lemma pending_compact: "buffer_inv es n \<Longrightarrow> pending (compact es) = pending es"
  by (simp add: pending_def compact_live)

lemma flushed_release:
  assumes "buffer_inv es (next_expected f)" and "flushed es f es' f' out"
  shows "(map snd out, abs_buffer es' f') = release (next_expected f') (abs_buffer es f)"
proof -
  have "pending es (unat (fst x)) = Some (snd x)" if "x \<in> set out" for x
    using assms that by (fastforce simp: flushed_def written_from_def dest: pending_SomeI)
  then have "map snd out = map (\<lambda>n. the (pending es n)) (map (\<lambda>x. unat (fst x)) out)"
    by simp
  with assms(2) show ?thesis
    by (simp add: release_def abs_buffer_def dom_pending flushed_def pending_mark)
qed

text \<open>The processing of the buffer releases, keeps the invariant, and leaves nobody waiting too long.\<close>

lemma process_reorder_buffer_spec:
  assumes inv: "buffer_inv es (next_expected f)"
    and started: "0 < next_expected f \<or> 0 \<in> waiting_numbers es"
  shows "\<exists>es' f' out. process_reorder_buffer now timeout es f = Inr (es', f', out) \<and>
    buffer_inv es' (next_expected f') \<and> next_expected f \<le> next_expected f' \<and> 0 < next_expected f' \<and>
    (map snd out, abs_buffer es' f') = release (next_expected f') (abs_buffer es f) \<and>
    next_expected f' \<notin> dom (pending es') \<and>
    (\<forall>e \<in> set es'. \<not> timed_out now timeout e) \<and> (\<forall>e \<in> set es'. timestamp e \<in> timestamp ` set es) \<and>
    ({next_expected f..<next_expected f'} \<subseteq> dom (pending es) \<or> list_ex (timed_out now timeout) es)"
proof -
  obtain es1 f' out where r: "reorder_flush now timeout es f = Inr (es1, f', out)"
    and fl: "flushed es f es1 f' out" and n: "next_expected f' \<notin> waiting_numbers es1"
    and late: "\<not> list_ex (timed_out now timeout) es1"
    and c: "contiguous es f f' \<or> list_ex (timed_out now timeout) es"
    using reorder_flush_spec [OF inv] by blast
  have le: "next_expected f \<le> next_expected f'" and es1: "es1 = map (mark_below (next_expected f')) es"
    using fl by (auto simp: flushed_def)
  have pos: "0 < next_expected f'"
  proof (rule ccontr)
    assume "\<not> 0 < next_expected f'"
    with started le n es1 show False by (simp add: waiting_numbers_mark)
  qed
  have inv1: "buffer_inv es1 (next_expected f')" by (rule buffer_inv_flushed [OF inv fl])
  have same: "drop_late f' es1 = es1" by (rule drop_late_id [OF inv1 pos])
  have "process_reorder_buffer now timeout es f = Inr (compact es1, f', out)"
    by (simp add: process_reorder_buffer_def r same)
  moreover have "(map snd out, abs_buffer (compact es1) f') = release (next_expected f') (abs_buffer es f)"
    using flushed_release [OF inv fl] by (simp add: abs_buffer_def pending_compact [OF inv1])
  moreover have "set (compact es1) \<subseteq> set es1"
    using compact_suffix [of es1] by (auto dest: in_set_dropD)
  moreover have "timestamp ` set es1 = timestamp ` set es"
    by (auto simp: es1 image_iff)
  ultimately show ?thesis
    using compact_live(2) [OF inv1] le pos n late c
    by (intro exI [of _ "compact es1"] exI [of _ f'] exI [of _ out])
      (auto simp: pending_compact [OF inv1] dom_pending contiguous_def list_ex_iff)
qed

end
