(* ===== verification/Delivery.thy ===== *)
theory Delivery
  imports Resequencing Tun2gre
begin

text \<open>
  Runs of the receiving thread. The locale \<open>resequencing\<close> states what one turn of a
  resequencing receiver promises for a packet with a fresh number; inside it a whole run is
  proved to hand out the contiguous part of what arrived, in order. \<open>gre2tun_iteration\<close> on the
  packets that \<open>send_gre\<close> builds is an instance. The last sections show the two ways in which
  the code leaves this contract: a lost first packet and a duplicate that times out.
\<close>

subsection \<open>Runs\<close>

fun run_steps :: "('p \<Rightarrow> 's \<Rightarrow> 'e + ('s \<times> 'b list)) \<Rightarrow> 'p list \<Rightarrow> 's \<Rightarrow> 'e + ('s \<times> 'b list)" where
  "run_steps step [] s = Inr (s, [])"
| "run_steps step (p # ps) s =
     bind_res (step p s) (\<lambda>(s, out).
     bind_res (run_steps step ps s) (\<lambda>(s, out'). Inr (s, out @ out')))"

subsection \<open>The contract of a resequencing receiver\<close>

lemma deliveries_join:
  assumes "n \<le> n1" and "n1 \<le> n2" and "\<And>k. k \<in> {n..<n1} \<Longrightarrow> W k = W1 k" and "\<And>k. n1 \<le> k \<Longrightarrow> W k = W2 k"
    and "{n..<n1} \<subseteq> dom W1" and "{n1..<n2} \<subseteq> dom W2" and "n2 \<notin> dom W2"
  shows "map (\<lambda>k. the (W1 k)) [n..<n1] @ map (\<lambda>k. the (W2 k)) [n1..<n2] = map (\<lambda>k. the (W k)) [n..<n2]"
    and "{n..<n2} \<subseteq> dom W" and "n2 \<notin> dom W"
proof -
  have "[n..<n2] = [n..<n1] @ [n1..<n2]" using assms(1,2) by (metis le_add_diff_inverse upt_add_eq_append)
  then show "map (\<lambda>k. the (W1 k)) [n..<n1] @ map (\<lambda>k. the (W2 k)) [n1..<n2] = map (\<lambda>k. the (W k)) [n..<n2]"
    using assms(3,4) by simp
  show "{n..<n2} \<subseteq> dom W"
  proof
    fix k assume "k \<in> {n..<n2}"
    then consider "k \<in> {n..<n1}" | "k \<in> {n1..<n2}" by force
    then show "k \<in> dom W" using assms(3-6) by cases (force simp: domIff)+
  qed
  show "n2 \<notin> dom W" using assms(2,4,7) by (simp add: domIff)
qed

locale resequencing =
  fixes step :: "'p \<Rightarrow> 's \<Rightarrow> 'e + ('s \<times> 'b list)"
    and num :: "'p \<Rightarrow> nat"
    and pay :: "'p \<Rightarrow> 'b"
    and expect :: "'s \<Rightarrow> nat"
    and wait :: "'s \<Rightarrow> nat \<rightharpoonup> 'b"
    and inv :: "'s \<Rightarrow> bool"
    and ok :: "'p \<Rightarrow> bool"
  assumes expect_not_waiting: "inv s \<Longrightarrow> expect s \<notin> dom (wait s)"
    and step_fresh: "inv s \<Longrightarrow> ok p \<Longrightarrow> 0 < expect s \<or> num p = 0 \<Longrightarrow> expect s \<le> num p \<Longrightarrow>
      num p \<notin> dom (wait s) \<Longrightarrow> W = (wait s)(num p \<mapsto> pay p) \<Longrightarrow>
      \<exists>s' out. step p s = Inr (s', out) \<and> inv s' \<and> 0 < expect s' \<and> expect s \<le> expect s' \<and>
        {expect s..<expect s'} \<subseteq> dom W \<and>
        out = map (\<lambda>n. the (W n)) [expect s..<expect s'] \<and> wait s' = W |` {expect s'..}"
begin

lemma run_delivers:
  assumes "inv s" and "\<And>p. p \<in> set ps \<Longrightarrow> ok p \<and> expect s \<le> num p \<and> num p \<notin> dom (wait s)"
    and "distinct (map num ps)" and "ps = [] \<or> 0 < expect s \<or> num (hd ps) = 0"
    and "W = wait s ++ map_of (map (\<lambda>p. (num p, pay p)) ps)"
  shows "\<exists>s' out. run_steps step ps s = Inr (s', out) \<and> inv s' \<and> expect s \<le> expect s' \<and>
    {expect s..<expect s'} \<subseteq> dom W \<and> expect s' \<notin> dom W \<and>
    out = map (\<lambda>n. the (W n)) [expect s..<expect s']"
  using assms
proof (induction ps arbitrary: s W)
  case Nil
  then show ?case by (simp add: expect_not_waiting)
next
  case (Cons p ps)
  define W1 where "W1 = (wait s)(num p \<mapsto> pay p)"
  obtain s1 out1 where r1: "step p s = Inr (s1, out1)" and s1: "inv s1" "0 < expect s1"
    and le1: "expect s \<le> expect s1" and c1: "{expect s..<expect s1} \<subseteq> dom W1"
    and out1: "out1 = map (\<lambda>n. the (W1 n)) [expect s..<expect s1]"
    and w1: "wait s1 = W1 |` {expect s1..}"
    using step_fresh [OF Cons.prems(1) _ _ _ _ W1_def] Cons.prems(2) [of p] Cons.prems(4) by auto
  have fresh: "num q \<notin> dom W1" if "q \<in> set ps" for q
  proof -
    have "num q \<in> num ` set ps" using that by (rule imageI)
    with Cons.prems(3) have "num q \<noteq> num p" by auto
    then show ?thesis using that Cons.prems(2) [of q] by (simp add: W1_def)
  qed
  have ps: "ok q \<and> expect s1 \<le> num q \<and> num q \<notin> dom (wait s1)" if "q \<in> set ps" for q
  proof -
    have "\<not> (expect s \<le> num q \<and> num q < expect s1)"
      using fresh [OF that] c1 by auto
    with Cons.prems(2) [of q] fresh [OF that] that show ?thesis by (auto simp: w1)
  qed
  define W2 where "W2 = wait s1 ++ map_of (map (\<lambda>p. (num p, pay p)) ps)"
  obtain s2 out2 where r2: "run_steps step ps s1 = Inr (s2, out2)" and s2: "inv s2"
    and le2: "expect s1 \<le> expect s2" and c2: "{expect s1..<expect s2} \<subseteq> dom W2"
    and n2: "expect s2 \<notin> dom W2" and out2: "out2 = map (\<lambda>n. the (W2 n)) [expect s1..<expect s2]"
    using Cons.IH [OF s1(1) ps _ _ W2_def] Cons.prems(3) s1(2) by auto
  have W: "W = W1 ++ map_of (map (\<lambda>p. (num p, pay p)) ps)"
  proof -
    have "num p \<notin> dom (map_of (map (\<lambda>p. (num p, pay p)) ps))"
      using Cons.prems(3) by (auto simp: dom_map_of_conv_image_fst image_image)
    then show ?thesis
      unfolding Cons.prems(5) W1_def by (auto simp: map_add_def fun_eq_iff split: option.splits)
  qed
  have low: "W n = W1 n" if "n \<in> {expect s..<expect s1}" for n
  proof -
    have "n \<noteq> num q" if "q \<in> set ps" for q using ps [OF that] \<open>n \<in> _\<close> by auto
    then have "n \<notin> dom (map_of (map (\<lambda>p. (num p, pay p)) ps))"
      by (auto simp: dom_map_of_conv_image_fst image_image)
    then show ?thesis by (simp add: W map_add_dom_app_simps)
  qed
  have high: "W n = W2 n" if "expect s1 \<le> n" for n
    using that by (simp add: W W2_def w1 map_add_def restrict_map_def split: option.split)
  note join = deliveries_join [OF le1 le2 low high c1 c2 n2]
  show ?case using r1 r2 s2 le1 le2 join unfolding out1 out2 by auto
qed

end

subsection \<open>The receiving thread is such a receiver\<close>

text \<open>
  An arrival is a data packet with the two clock readings of its turn. The side conditions: it
  fits the receive buffer and is not empty, its number is not the last of the 32-bit range, the
  clock runs forward from \<open>t0\<close>, and the turn ends before a packet stamped at \<open>t0\<close> times out.
\<close>

record arrival =
  arr_key :: u32
  arr_proto :: u16
  arr_seq :: u32
  arr_payload :: bytes
  arr_stamp :: timeval
  arr_now :: timeval

definition receive :: "in6_addr \<Rightarrow> timeval \<Rightarrow> arrival \<Rightarrow> gre2tun \<Rightarrow> fault + (gre2tun \<times> bytes list)" where
  "receive peer timeout a =
     gre2tun_iteration peer timeout
       (Received peer (gre_packet (arr_key a) (arr_proto a) (arr_seq a) True (arr_payload a)))
       (arr_stamp a) (arr_now a)"

definition arrival_size_ok :: "arrival \<Rightarrow> bool" where
  "arrival_size_ok a \<longleftrightarrow> 0 < length (arr_payload a) \<and> length (arr_payload a) \<le> MAX_PKT_SIZE - 12"

definition arrival_in_time :: "timeval \<Rightarrow> timeval \<Rightarrow> arrival \<Rightarrow> bool" where
  "arrival_in_time t0 timeout a \<longleftrightarrow>
     normalised (arr_stamp a) \<and> normalised (arr_now a) \<and> micros t0 \<le> micros (arr_stamp a) \<and>
     micros (arr_stamp a) \<le> micros (arr_now a) \<and> micros (arr_now a) - micros t0 < micros timeout"

definition arrival_ok :: "timeval \<Rightarrow> timeval \<Rightarrow> arrival \<Rightarrow> bool" where
  "arrival_ok t0 timeout a \<longleftrightarrow>
     arrival_size_ok a \<and> unat (arr_seq a) < 2 ^ 32 - 1 \<and> arrival_in_time t0 timeout a"

definition receiver_inv :: "timeval \<Rightarrow> gre2tun \<Rightarrow> bool" where
  "receiver_inv t0 st \<longleftrightarrow>
     length (rxbuf st) = MAX_PKT_SIZE \<and> buffer_inv (packets st) (next_expected (sequence_flushed st)) \<and>
     next_expected (sequence_flushed st) \<notin> dom (pending (packets st)) \<and>
     (\<forall>e \<in> set (packets st). normalised (timestamp e) \<and> micros t0 \<le> micros (timestamp e))"

definition buffered :: "arrival \<Rightarrow> reorder_buffer_element" where
  "buffered a = \<lparr>sequence = arr_seq a, timestamp = arr_stamp a, packet = arr_payload a,
     psize = of_nat (length (arr_payload a)), freed = False\<rparr>"

text \<open>The bytes \<open>send_gre\<close> put on the wire come out of the receive buffer as they went in.\<close>

lemma receive_buffers:
  assumes "length (rxbuf st) = MAX_PKT_SIZE" and "arrival_size_ok a"
    and "tv_sec timeout \<noteq> 0 \<or> tv_usec timeout \<noteq> 0"
  shows "\<exists>buf. length buf = MAX_PKT_SIZE \<and>
    receive peer timeout a st = flush_buffer (arr_now a) timeout
      (st\<lparr>rxbuf := buf, packets := packets st @ [buffered a]\<rparr>)"
proof -
  define data where "data = gre_packet (arr_key a) (arr_proto a) (arr_seq a) True (arr_payload a)"
  define buf where "buf = data @ drop (length data) (rxbuf st)"
  have len: "length data = 12 + length (arr_payload a)" "length (arr_payload a) \<le> 1488"
    using assms(2) by (simp_all add: data_def arrival_size_ok_def)
  then have size_eq: "min MAX_PKT_SIZE (length data) = 12 + length (arr_payload a)"
    and take_eq: "take MAX_PKT_SIZE data = data" and buf_len: "length buf = MAX_PKT_SIZE"
    using assms(1) by (simp_all add: buf_def)
  have fields: "greh_flags_and_version buf = htons GRECP_FLAGSANDVERSION_WITH_SEQ"
    "ntohl (word_of_bytes (take 4 (drop 8 buf))) = arr_seq a"
    "take (length (arr_payload a)) (drop 12 buf) = arr_payload a"
    unfolding buf_def data_def by (rule gre_packet_fields)+
  have n: "unat (of_nat (length (arr_payload a)) :: u16) = length (arr_payload a)"
    using len(2) by (simp add: unat_of_nat)
  have "receive peer timeout a st = flush_buffer (arr_now a) timeout
      (st\<lparr>rxbuf := buf, packets := packets st @ [buffered a]\<rparr>)"
    using len(2) assms(3) n
    unfolding receive_def data_def [symmetric] gre2tun_iteration_def
    by (simp add: Let_def take_eq size_eq buf_def [symmetric] fields buf_len mem_read_within buffered_def) auto
  with buf_len show ?thesis by blast
qed

lemma pending_snoc:
  assumes "unat (arr_seq a) \<notin> dom (pending es)"
  shows "pending (es @ [buffered a]) = (pending es)(unat (arr_seq a) \<mapsto> arr_payload a)"
  using assms by (auto simp: pending_def buffered_def fun_eq_iff map_add_def split: option.split)

lemma buffer_inv_snoc:
  assumes "buffer_inv es n" and "n \<le> unat (arr_seq a)" and "unat (arr_seq a) \<notin> dom (pending es)"
    and "arrival_size_ok a" and "unat (arr_seq a) < 2 ^ 32 - 1"
  shows "buffer_inv (es @ [buffered a]) n"
proof -
  have len: "0 < length (arr_payload a)" "length (arr_payload a) \<le> 1488"
    using assms(4) by (simp_all add: arrival_size_ok_def)
  then have u: "unat (of_nat (length (arr_payload a)) :: u16) = length (arr_payload a)"
    by (simp add: unat_of_nat)
  then have pos: "(of_nat (length (arr_payload a)) :: u16) > 0"
    using len by (simp add: word_less_nat_alt)
  have "element_inv n (buffered a)"
    using assms(2,5) u pos by (simp add: element_inv_def buffered_def)
  moreover have "arr_seq a \<notin> sequence ` {e \<in> set es. live e}"
    using assms(3) by (auto simp: dom_pending waiting_numbers_def)
  ultimately show ?thesis using assms(1) by (auto simp: buffer_inv_def buffered_def)
qed

lemma not_timed_out:
  assumes "arrival_in_time t0 timeout a" and "normalised timeout"
    and "normalised (timestamp e)" and "micros t0 \<le> micros (timestamp e)"
  shows "\<not> timed_out (arr_now a) timeout e"
proof -
  have "normalised (timersub (arr_now a) (timestamp e))"
    using assms by (simp add: normalised_timersub arrival_in_time_def)
  with assms show ?thesis
    by (simp add: timed_out_def timeval_le_iff_micros micros_timersub arrival_in_time_def)
qed

text \<open>As long as every packet in the buffer is in time nothing times out.\<close>

lemma arrival_stamps:
  assumes "receiver_inv t0 st" and "arrival_in_time t0 timeout a" and "normalised timeout"
  shows "\<forall>e \<in> set (packets st @ [buffered a]). normalised (timestamp e) \<and> micros t0 \<le> micros (timestamp e)"
    and "\<not> list_ex (timed_out (arr_now a) timeout) (packets st @ [buffered a])"
proof -
  show "\<forall>e \<in> set (packets st @ [buffered a]). normalised (timestamp e) \<and> micros t0 \<le> micros (timestamp e)"
    using assms by (auto simp: receiver_inv_def buffered_def arrival_in_time_def)
  then show "\<not> list_ex (timed_out (arr_now a) timeout) (packets st @ [buffered a])"
    using not_timed_out [OF assms(2,3)] by (auto simp: list_ex_iff)
qed

lemma arrival_starts:
  assumes "0 < n \<or> unat (arr_seq a) = 0" and "unat (arr_seq a) \<notin> dom (pending es)"
  shows "0 < n \<or> 0 \<in> waiting_numbers (es @ [buffered a])"
proof (cases "0 < n")
  case False
  with assms have "0 \<in> dom (pending (es @ [buffered a]))" by (auto simp: pending_snoc)
  then show ?thesis by (simp add: dom_pending)
qed simp

lemma receive_step:
  assumes inv: "receiver_inv t0 st" and ok: "arrival_ok t0 timeout a" and to: "normalised timeout"
    and started: "0 < next_expected (sequence_flushed st) \<or> unat (arr_seq a) = 0"
    and fresh: "next_expected (sequence_flushed st) \<le> unat (arr_seq a)"
      "unat (arr_seq a) \<notin> dom (pending (packets st))"
    and W: "W = (pending (packets st))(unat (arr_seq a) \<mapsto> arr_payload a)"
  shows "\<exists>st' out. receive peer timeout a st = Inr (st', out) \<and> receiver_inv t0 st' \<and>
    0 < next_expected (sequence_flushed st') \<and>
    next_expected (sequence_flushed st) \<le> next_expected (sequence_flushed st') \<and>
    {next_expected (sequence_flushed st)..<next_expected (sequence_flushed st')} \<subseteq> dom W \<and>
    out = map (\<lambda>n. the (W n))
      [next_expected (sequence_flushed st)..<next_expected (sequence_flushed st')] \<and>
    pending (packets st') = W |` {next_expected (sequence_flushed st')..}"
proof -
  let ?n = "next_expected (sequence_flushed st)" and ?es = "packets st @ [buffered a]"
  have parts: "arrival_size_ok a" "unat (arr_seq a) < 2 ^ 32 - 1" "arrival_in_time t0 timeout a"
    using ok by (simp_all add: arrival_ok_def)
  have len: "length (rxbuf st) = MAX_PKT_SIZE" using inv by (simp add: receiver_inv_def)
  have Wp: "pending ?es = W" unfolding W by (rule pending_snoc [OF fresh(2)])
  have binv: "buffer_inv ?es ?n"
    using inv fresh parts by (intro buffer_inv_snoc) (simp_all add: receiver_inv_def)
  have st0: "0 < ?n \<or> 0 \<in> waiting_numbers ?es" by (rule arrival_starts [OF started fresh(2)])
  note stamps = arrival_stamps(1) [OF inv parts(3) to]
  obtain es' f' out where p: "process_reorder_buffer (arr_now a) timeout ?es (sequence_flushed st)
        = Inr (es', f', out)"
    and p1: "buffer_inv es' (next_expected f')" "?n \<le> next_expected f'" "0 < next_expected f'"
    and p2: "(map snd out, abs_buffer es' f') = release (next_expected f') (abs_buffer ?es (sequence_flushed st))"
    and p3: "next_expected f' \<notin> dom (pending es')" "\<forall>e \<in> set es'. timestamp e \<in> timestamp ` set ?es"
    and p4: "{?n..<next_expected f'} \<subseteq> dom (pending ?es)"
    using process_reorder_buffer_spec [OF binv st0, of "arr_now a" timeout] arrival_stamps(2) [OF inv parts(3) to] by blast
  have nz: "tv_sec timeout \<noteq> 0 \<or> tv_usec timeout \<noteq> 0"
    using parts(3) by (auto simp: arrival_in_time_def micros_def)
  obtain buf where "length buf = MAX_PKT_SIZE" and
    "receive peer timeout a st = flush_buffer (arr_now a) timeout (st\<lparr>rxbuf := buf, packets := ?es\<rparr>)"
    using receive_buffers [OF len parts(1) nz] by blast
  then have r: "receive peer timeout a st =
      Inr (st\<lparr>rxbuf := buf, packets := es', sequence_flushed := f'\<rparr>, map snd out)"
    by (simp add: flush_buffer_def p)
  have "map snd out = map (\<lambda>n. the (W n)) [?n..<next_expected f']"
    using p2 p4 by (simp add: release_def abs_buffer_def Wp filter_upt_all)
  moreover have "pending es' = W |` {next_expected f'..}"
    using p2 by (simp add: release_def abs_buffer_def Wp)
  moreover have "normalised (timestamp e) \<and> micros t0 \<le> micros (timestamp e)" if "e \<in> set es'" for e
  proof -
    from p3(2) that obtain e' where "e' \<in> set ?es" "timestamp e = timestamp e'" by blast
    with stamps show ?thesis by metis
  qed
  ultimately show ?thesis
    using r p1 p3(1) p4 Wp \<open>length buf = MAX_PKT_SIZE\<close> by (simp add: receiver_inv_def)
qed

interpretation rx: resequencing "receive peer timeout" "\<lambda>a. unat (arr_seq a)" arr_payload
    "\<lambda>st. next_expected (sequence_flushed st)" "\<lambda>st. pending (packets st)"
    "receiver_inv t0" "\<lambda>a. arrival_ok t0 timeout a \<and> normalised timeout"
  for peer timeout t0
proof unfold_locales
  show "next_expected (sequence_flushed st) \<notin> dom (pending (packets st))" if "receiver_inv t0 st" for st
    using that by (simp add: receiver_inv_def)
qed (use receive_step in blast)

subsection \<open>Turns in which nothing is the next packet\<close>

lemma flush_pass_none:
  "\<forall>e \<in> set es. sequence e \<noteq> f + 1 \<Longrightarrow> flush_pass es f = Inr (es, f, [], False)"
  by (induction es) auto

lemma flush_all_none:
  "\<forall>e \<in> set es. sequence e \<noteq> f + 1 \<Longrightarrow> flush_all es f = Inr (es, f, [])"
  by (subst flush_all.simps) (simp add: flush_pass_none)

lemma reorder_flush_skip:
  assumes "\<forall>e \<in> set es. sequence e \<noteq> f + 1" and "list_ex (timed_out now timeout) es"
  shows "reorder_flush now timeout es f = reorder_flush now timeout es (f + 1)"
proof -
  have "reorder_flush now timeout es f =
      bind_res (reorder_flush now timeout es (f + 1)) (\<lambda>(es, f, out'). Inr (es, f, out'))"
    using assms by (subst reorder_flush.simps) (simp add: flush_all_none)
  then show ?thesis by (cases "reorder_flush now timeout es (f + 1)") auto
qed

lemma process_none:
  assumes "\<forall>e \<in> set es. sequence e \<noteq> f + 1" and "\<not> list_ex (timed_out now timeout) es"
  shows "process_reorder_buffer now timeout es f = Inr (compact (drop_late f es), f, [])"
  using assms
  by (subst process_reorder_buffer_def, subst reorder_flush.simps) (simp add: flush_all_none)

lemma compact_waiting: "\<forall>e \<in> set es. psize e > 0 \<Longrightarrow> compact es = es"
  by (cases es) (auto simp: compact_def freeable_def)

lemma compact_all_flushed:
  assumes "\<forall>e \<in> set es. psize e = 0" and "length es < 2 ^ 16"
  shows "compact es = []"
proof -
  have "takeWhile (\<lambda>e. psize e = 0) es = es" using assms(1) by (simp add: takeWhile_eq_all_conv)
  with assms(2) have "length es = unat (freeable es)"
    by (simp only: freeable_def) (simp add: unat_of_nat)
  then show ?thesis by (simp add: compact_def)
qed

lemma psize_buffered:
  "arrival_size_ok a \<Longrightarrow> psize (buffered a) > 0"
  by (auto simp: buffered_def arrival_size_ok_def word_less_nat_alt unat_of_nat)

subsection \<open>A lost first packet starves the receiver\<close>

lemma receive_starving:
  assumes "length (rxbuf st) = MAX_PKT_SIZE" and "packets st = []" and "sequence_flushed st = - 1"
    and "arr_seq a \<noteq> 0" and "arrival_size_ok a" and "normalised timeout"
    and "arrival_in_time (arr_stamp a) timeout a"
  shows "\<exists>buf. length buf = MAX_PKT_SIZE \<and> receive peer timeout a st = Inr (st\<lparr>rxbuf := buf\<rparr>, [])"
proof -
  have nz: "tv_sec timeout \<noteq> 0 \<or> tv_usec timeout \<noteq> 0"
    using assms(7) by (auto simp: arrival_in_time_def micros_def)
  have late: "\<not> timed_out (arr_now a) timeout (buffered a)"
    using assms(6,7) by (intro not_timed_out [OF assms(7)]) (simp_all add: buffered_def arrival_in_time_def)
  obtain buf where buf: "length buf = MAX_PKT_SIZE" and
    "receive peer timeout a st = flush_buffer (arr_now a) timeout (st\<lparr>rxbuf := buf, packets := [buffered a]\<rparr>)"
    using receive_buffers [OF assms(1,5) nz, of peer] assms(2) by auto
  moreover have "process_reorder_buffer (arr_now a) timeout [buffered a] (- 1) =
      Inr (compact (drop_late (- 1) [buffered a]), - 1, [])"
    using late assms(4) by (intro process_none) (simp_all add: buffered_def)
  moreover have "compact (drop_late (- 1) [buffered a]) = []"
    using psize_buffered [OF assms(5)] by (simp add: drop_late_def compact_all_flushed)
  ultimately have "receive peer timeout a st = Inr (st\<lparr>rxbuf := buf, packets := [], sequence_flushed := - 1\<rparr>, [])"
    using assms(3) by (simp add: flush_buffer_def)
  moreover have "st\<lparr>rxbuf := buf, packets := [], sequence_flushed := - 1\<rparr> = st\<lparr>rxbuf := buf\<rparr>"
    using assms(2,3) by simp
  ultimately show ?thesis using buf by metis
qed

subsection \<open>A duplicate that waits until it times out\<close>

lemma flush_second_copy:
  assumes "sequence e1 = sequence e2" and "freed e1" and "timed_out now timeout e2"
  shows "reorder_flush now timeout [e1, e2] f = Inl Double_Free"
proof (induction "unat (sequence e2 - f - 1)" arbitrary: f rule: less_induct)
  case less
  show ?case
  proof (cases "sequence e2 = f + 1")
    case True
    with assms show ?thesis
      by (subst reorder_flush.simps, subst flush_all.simps) simp
  next
    case False
    then have "sequence e2 - f - 1 \<noteq> 0" by (simp only: diff_diff_eq right_minus_eq not_False_eq_True)
    then have "unat (sequence e2 - (f + 1) - 1) < unat (sequence e2 - f - 1)"
      using word_pred_less [of "sequence e2 - f - 1"] by (simp add: algebra_simps)
    from less [OF this] False assms show ?thesis
      by (subst reorder_flush_skip) simp_all
  qed
qed

lemma flush_first_copy:
  assumes "sequence e1 = sequence e2" and "live e1" and "timed_out now timeout e1" "timed_out now timeout e2"
  shows "reorder_flush now timeout [e1, e2] f = Inl Double_Free"
proof (induction "unat (sequence e2 - f - 1)" arbitrary: f rule: less_induct)
  case less
  show ?case
  proof (cases "sequence e2 = f + 1")
    case True
    let ?es = "[flush_element e1, e2]"
    have "flush_all [e1, e2] f = bind_res (flush_all ?es (f + 1))
        (\<lambda>(es, f, out). Inr (es, f, (sequence e1, take (unat (psize e1)) (packet e1)) # out))"
      using True assms by (subst flush_all.simps) simp
    also have "flush_all ?es (f + 1) = Inr (?es, f + 1, [])"
      using True assms by (intro flush_all_none) simp
    finally show ?thesis
      using assms by (subst reorder_flush.simps) (simp add: flush_second_copy)
  next
    case False
    then have "sequence e2 - f - 1 \<noteq> 0" by (simp only: diff_diff_eq right_minus_eq not_False_eq_True)
    then have "unat (sequence e2 - (f + 1) - 1) < unat (sequence e2 - f - 1)"
      using word_pred_less [of "sequence e2 - f - 1"] by (simp add: algebra_simps)
    from less [OF this] False assms show ?thesis
      by (subst reorder_flush_skip) simp_all
  qed
qed

end
