(* ===== verification/Receiver.thy ===== *)
theory Receiver
  imports Delivery "HOL-Library.Multiset"
begin

text \<open>
  What the receiving thread guarantees, and where it stops guaranteeing it: the refinement of the
  abstract resequencer, delivery in order, the bound on the waiting time, and the turns on
  packets that the reorder buffer does not expect.
\<close>

subsection \<open>The reorder buffer\<close>

text \<open>
  C9: A turn of the reorder buffer implements one release of the abstract resequencer, if the buffer is in order, with no two
  waiting packets of one number and none behind the counter, and the first packet is there or was counted: the turn ends
  without a fault, keeps the invariant, writes the waiting payloads below the new counter in the
  order of their numbers, and skips a missing number only if some packet had timed out. A duplicate breaks the
  condition, and \<open>duplicate_is_freed_twice\<close> shows what then happens.
\<close>

theorem reorder_buffer_refines:
  assumes "buffer_inv es (next_expected f)"
    and "0 < next_expected f \<or> 0 \<in> waiting_numbers es"
  shows "\<exists>es' f' out. process_reorder_buffer now timeout es f = Inr (es', f', out) \<and>
    buffer_inv es' (next_expected f') \<and> next_expected f \<le> next_expected f' \<and>
    (map snd out, abs_buffer es' f') = release (next_expected f') (abs_buffer es f) \<and>
    (list_ex (timed_out now timeout) es \<or> {next_expected f..<next_expected f'} \<subseteq> waiting_numbers es)"
  using process_reorder_buffer_spec [OF assms, of now timeout] by (fastforce simp: dom_pending)

definition waiting_example :: "reorder_buffer_element list" where
  "waiting_example =
     [\<lparr>sequence = 3, timestamp = Timeval 10 0, packet = [7], psize = 1, freed = False\<rparr>,
      \<lparr>sequence = 1, timestamp = Timeval 10 5, packet = [8, 9], psize = 2, freed = False\<rparr>]"

lemma waiting_example_inv: "buffer_inv waiting_example 1"
  by (simp add: waiting_example_def buffer_inv_def element_inv_def)

theorem reorder_buffer_refines_witness:
  "\<exists>es' f' out. process_reorder_buffer (Timeval 10 9) (Timeval 0 250000) waiting_example 0 = Inr (es', f', out) \<and>
    buffer_inv es' (next_expected f') \<and> next_expected 0 \<le> next_expected f' \<and>
    (map snd out, abs_buffer es' f') = release (next_expected f') (abs_buffer waiting_example 0) \<and>
    (list_ex (timed_out (Timeval 10 9) (Timeval 0 250000)) waiting_example \<or>
     {next_expected 0..<next_expected f'} \<subseteq> waiting_numbers waiting_example)"
  using waiting_example_inv by (intro reorder_buffer_refines) (simp_all add: next_expected_def)

text \<open>The turns that do not look at the reorder buffer.\<close>

definition passes_by :: "in6_addr \<Rightarrow> gre_input \<Rightarrow> gre2tun \<Rightarrow> bool" where
  "passes_by peer inp st \<longleftrightarrow>
     (case inp of
        Nothing_Received again \<Rightarrow> \<not> again
      | Received src data \<Rightarrow> src \<noteq> peer \<or>
          greh_flags_and_version (take MAX_PKT_SIZE data @ drop (length data) (rxbuf st)) \<notin>
            {htons GRECP_FLAGSANDVERSION_WITH_SEQ, htons GRECP_FLAGSANDVERSION})"

lemma flush_pass_stamps: "flush_pass es f = Inr (es', f', out, b) \<Longrightarrow> map timestamp es' = map timestamp es"
proof (induction es f arbitrary: es' f' out b rule: flush_pass.induct)
  case (2 e es f)
  show ?case
  proof (cases "sequence e = f + 1")
    case True
    with "2.prems" show ?thesis using "2.IH"(1) by (auto simp: bind_res_eq_Inr split: if_splits)
  next
    case False
    with "2.prems" show ?thesis using "2.IH"(2) by (auto simp: bind_res_eq_Inr)
  qed
qed simp

lemma flush_all_stamps: "flush_all es f = Inr (es', f', out) \<Longrightarrow> map timestamp es' = map timestamp es"
proof (induction es f arbitrary: es' f' out rule: flush_all.induct)
  case (1 es f)
  from "1.prems" obtain es1 f1 out1 b where p: "flush_pass es f = Inr (es1, f1, out1, b)"
    by (subst (asm) flush_all.simps) (auto simp: bind_res_eq_Inr)
  with "1.prems" have "if b then \<exists>out2. flush_all es1 f1 = Inr (es', f', out2) else es' = es1"
    by (subst (asm) flush_all.simps) (auto simp: bind_res_eq_Inr)
  with "1.IH" [OF p refl refl refl] flush_pass_stamps [OF p] show ?case by (cases b) auto
qed

lemma reorder_flush_end:
  "reorder_flush now timeout es f = Inr (es', f', out) \<Longrightarrow>
     map timestamp es' = map timestamp es \<and> (\<forall>e \<in> set es'. \<not> timed_out now timeout e \<and> sequence e \<noteq> f' + 1)"
proof (induction now timeout es f arbitrary: es' f' out rule: reorder_flush.induct)
  case (1 now timeout es f)
  from "1.prems" obtain es1 f1 out1 where p: "flush_all es f = Inr (es1, f1, out1)"
    by (subst (asm) reorder_flush.simps) (auto simp: bind_res_eq_Inr)
  show ?case
  proof (cases "list_ex (timed_out now timeout) es1")
    case True
    with "1.prems" p obtain out2 where "reorder_flush now timeout es1 (f1 + 1) = Inr (es', f', out2)"
      by (subst (asm) reorder_flush.simps) (auto simp: bind_res_eq_Inr)
    with "1.IH" [OF p refl refl True] flush_all_stamps [OF p] show ?thesis by auto
  next
    case False
    with "1.prems" p have "es' = es1" "f' = f1" by (subst (asm) reorder_flush.simps, simp)+
    with False flush_all_stamps [OF p] flush_all_unfreed [OF p] show ?thesis by (auto simp: list_ex_iff)
  qed
qed

text \<open>What a turn leaves in the buffer: nothing that is old, passed, or next.\<close>

definition in_time :: "timeval \<Rightarrow> timeval \<Rightarrow> gre2tun \<Rightarrow> bool" where
  "in_time now timeout st \<longleftrightarrow>
     (\<forall>e \<in> set (packets st). psize e > 0 \<longrightarrow> micros now - micros (timestamp e) < micros timeout \<and>
        sequence_flushed st < sequence e \<and> sequence e \<noteq> sequence_flushed st + 1)"

lemma flush_buffer_in_time:
  assumes "flush_buffer now timeout st = Inr (st', out)" and "normalised now" and "normalised timeout"
    and "\<forall>e \<in> set (packets st). normalised (timestamp e)"
  shows "in_time now timeout st'"
proof -
  obtain es f w where r: "reorder_flush now timeout (packets st) (sequence_flushed st) = Inr (es, f, w)"
    and st': "st' = st\<lparr>packets := compact (drop_late f es), sequence_flushed := f\<rparr>"
    using assms(1) by (auto simp: flush_buffer_def process_reorder_buffer_def bind_res_eq_Inr)
  note rest = reorder_flush_end [OF r]
  have "micros now - micros (timestamp e) < micros timeout \<and> f < sequence e \<and> sequence e \<noteq> f + 1"
    if e: "e \<in> set (compact (drop_late f es))" "psize e > 0" for e
  proof -
    obtain d where d: "d \<in> set es" "e = (if psize d > 0 \<and> sequence d \<le> f then flush_element d else d)"
      using e(1) compact_suffix [of "drop_late f es"] by (fastforce simp: drop_late_def dest: in_set_dropD)
    then have "e = d" "f < sequence d" using e(2) by (auto split: if_splits)
    moreover have "timestamp d \<in> timestamp ` set (packets st)"
      using rest d(1) by (metis image_eqI set_map)
    then have "normalised (timestamp d)" using assms(4) by auto
    moreover have "\<not> timed_out now timeout d" "sequence d \<noteq> f + 1" using rest d(1) by auto
    ultimately show ?thesis
      using e(2) assms(2,3) by (auto simp: timed_out_def timeval_le_iff_micros normalised_timersub micros_timersub)
  qed
  then show ?thesis by (simp add: in_time_def st')
qed

text \<open>C20: A turn of the thread either passes the reorder buffer by, which it does after a failed \<open>recvfrom\<close>, for a packet that is
  not from the server and for one with other GRE flags, and then leaves it as it is; or, whatever the buffer
  held before, no packet that is left waiting is as old as the time-out, behind the counter, or the next one.\<close>

theorem waiting_is_bounded:
  assumes "gre2tun_iteration peer timeout inp stamp now st = Inr (st', out)"
    and "normalised stamp" and "normalised now" and "normalised timeout"
    and "\<forall>e \<in> set (packets st). normalised (timestamp e)"
  shows "if passes_by peer inp st
     then packets st' = packets st \<and> sequence_flushed st' = sequence_flushed st \<and> out = []
     else in_time now timeout st'"
proof (cases inp)
  case (Nothing_Received again)
  with assms(1) flush_buffer_in_time [OF _ assms(3-5)] show ?thesis
    by (auto simp: gre2tun_iteration_def passes_by_def split: if_splits)
next
  case (Received src data)
  let ?buf = "take MAX_PKT_SIZE data @ drop (length data) (rxbuf st)"
  show ?thesis
  proof (cases "passes_by peer inp st")
    case True
    with assms(1) show ?thesis by (auto simp: gre2tun_iteration_def passes_by_def Received Let_def split: if_splits)
  next
    case False
    let ?st = "st\<lparr>rxbuf := ?buf\<rparr>"
    let ?x = "\<lambda>payload. \<lparr>sequence = ntohl (word_of_bytes (take 4 (drop 8 ?buf))), timestamp = stamp, packet = payload,
      psize = of_int (int (min MAX_PKT_SIZE (length data)) - 12), freed = False\<rparr>"
    consider out' where "flush_buffer now timeout ?st = Inr (st', out')"
      | payload where "flush_buffer now timeout (?st\<lparr>packets := packets st @ [?x payload]\<rparr>) = Inr (st', out)"
      using assms(1) False
      by (fastforce simp: gre2tun_iteration_def passes_by_def Received Let_def bind_res_eq_Inr split: if_splits)
    then have "in_time now timeout st'"
    proof cases
      case 1
      from flush_buffer_in_time [OF this assms(3,4)] assms(5) show ?thesis by simp
    next
      case 2
      from flush_buffer_in_time [OF this assms(3,4)] assms(2,5) show ?thesis by auto
    qed
    with False show ?thesis by simp
  qed
qed

theorem waiting_is_bounded_witness:
  "\<exists>st' out. gre2tun_iteration (replicate 16 0) (Timeval 0 250000) (Nothing_Received True) (Timeval 10 9) (Timeval 10 9)
      \<lparr>rxbuf = replicate 1500 0, packets = waiting_example, sequence_flushed = 0\<rparr> = Inr (st', out) \<and>
    in_time (Timeval 10 9) (Timeval 0 250000) st'"
proof -
  let ?st = "\<lparr>rxbuf = replicate 1500 0, packets = waiting_example, sequence_flushed = 0\<rparr>"
  have inv: "buffer_inv waiting_example (next_expected 0)"
    using waiting_example_inv by (simp add: next_expected_def)
  obtain st' out where r: "gre2tun_iteration (replicate 16 0) (Timeval 0 250000) (Nothing_Received True)
      (Timeval 10 9) (Timeval 10 9) ?st = Inr (st', out)"
    using process_reorder_buffer_spec [OF inv, of "Timeval 10 9" "Timeval 0 250000"]
    by (auto simp: next_expected_def gre2tun_iteration_def flush_buffer_def)
  have "normalised (Timeval 10 9)" "normalised (Timeval 0 250000)" "\<forall>e \<in> set (packets ?st). normalised (timestamp e)"
    by (simp_all add: normalised_def waiting_example_def)
  from waiting_is_bounded [OF r this(1,1-3)] r show ?thesis by (auto simp: passes_by_def)
qed

subsection \<open>Delivery\<close>

text \<open>The fresh thread satisfies the invariant, whatever its buffer holds.\<close>

lemma receiver_inv_init: "length buf = MAX_PKT_SIZE \<Longrightarrow> receiver_inv t0 (init_gre2tun buf)"
  by (simp add: receiver_inv_def init_gre2tun_def pending_simps)

definition example_arrival :: "u32 \<Rightarrow> bytes \<Rightarrow> arrival" where
  "example_arrival n payload = \<lparr>arr_key = 7, arr_proto = ETHERTYPE_IP, arr_seq = n,
     arr_payload = payload, arr_stamp = Timeval 10 100, arr_now = Timeval 10 101\<rparr>"

lemma example_arrival_simps [simp]:
  "arr_seq (example_arrival n payload) = n" "arr_payload (example_arrival n payload) = payload"
  by (simp_all add: example_arrival_def)

lemma init_gre2tun_simps [simp]:
  "packets (init_gre2tun buf) = []" "sequence_flushed (init_gre2tun buf) = - 1"
  "rxbuf (init_gre2tun buf) = buf"
  by (simp_all add: init_gre2tun_def)

lemma example_arrival_ok:
  "n < 1000 \<Longrightarrow> length payload \<in> {1..1488} \<Longrightarrow>
     arrival_ok (Timeval 10 0) (Timeval 0 250000) (example_arrival n payload)"
  by (auto simp: arrival_ok_def example_arrival_def arrival_size_ok_def arrival_in_time_def
      normalised_def micros_def word_less_nat_alt)

text \<open>Whatever the network does to the order of a sequence of packets, as long as the first one
  comes first and none is lost, duplicated or late, the thread writes them as they were sent.\<close>

lemma run_delivers_permutation:
  assumes "length buf = MAX_PKT_SIZE" and "normalised timeout"
    and "\<forall>a \<in> set ps. arrival_ok t0 timeout a"
    and "mset (map (\<lambda>a. (unat (arr_seq a), arr_payload a)) ps) = mset (enumerate 0 sent)"
    and "ps = [] \<or> arr_seq (hd ps) = 0"
  shows "\<exists>st'. run_steps (receive peer timeout) ps (init_gre2tun buf) = Inr (st', sent) \<and>
    next_expected (sequence_flushed st') = length sent"
proof -
  let ?kv = "map (\<lambda>a. (unat (arr_seq a), arr_payload a)) ps"
  have "mset (map fst ?kv) = mset (map fst (enumerate 0 sent))"
    using assms(4) by (simp only: mset_map)
  then have keys: "mset (map (\<lambda>a. unat (arr_seq a)) ps) = mset [0..<length sent]"
    by (simp add: comp_def)
  then have d: "distinct (map (\<lambda>a. unat (arr_seq a)) ps)"
    using mset_eq_imp_distinct_iff distinct_upt by blast
  have doms: "dom (map_of ?kv) = {0..<length sent}"
    using mset_eq_setD [OF keys] by (simp add: dom_map_of_conv_image_fst image_image)
  have val: "map_of ?kv n = Some (sent ! n)" if "n < length sent" for n
  proof (rule map_of_is_SomeI)
    show "distinct (map fst ?kv)" using d by (simp add: comp_def)
    have "(n, sent ! n) \<in> set (enumerate 0 sent)" using that by (auto simp: in_set_enumerate_eq)
    then show "(n, sent ! n) \<in> set ?kv" using mset_eq_setD [OF assms(4)] by simp
  qed
  have each: "(arrival_ok t0 timeout a \<and> normalised timeout) \<and>
      next_expected (sequence_flushed (init_gre2tun buf)) \<le> unat (arr_seq a) \<and>
      unat (arr_seq a) \<notin> dom (pending (packets (init_gre2tun buf)))" if "a \<in> set ps" for a
    using that assms(2,3) by (simp add: pending_simps)
  have hd: "ps = [] \<or> 0 < next_expected (sequence_flushed (init_gre2tun buf)) \<or> unat (arr_seq (hd ps)) = 0"
    using assms(5) by auto
  obtain st' out where r: "run_steps (receive peer timeout) ps (init_gre2tun buf) = Inr (st', out)"
    and n: "{0..<next_expected (sequence_flushed st')} \<subseteq> {0..<length sent}"
      "next_expected (sequence_flushed st') \<notin> {0..<length sent}"
    and out: "out = map (\<lambda>n. the (map_of ?kv n)) [0..<next_expected (sequence_flushed st')]"
    using rx.run_delivers [OF receiver_inv_init [OF assms(1)] each d hd refl, of peer]
    by (auto simp: pending_simps doms simp del: map_of_map)
  have e: "next_expected (sequence_flushed st') = length sent"
    using n subsetD [OF n(1), of "length sent"]
    by (cases "length sent < next_expected (sequence_flushed st')") auto
  have "out = map (\<lambda>n. sent ! n) [0..<length sent]"
    unfolding out e using val by simp
  with r e show ?thesis by (simp add: map_nth)
qed

subsection \<open>Turns outside the reorder buffer\<close>

lemma receive_passthrough:
  assumes "packets st = []" and "length (rxbuf st) = MAX_PKT_SIZE" and "arrival_size_ok a"
  shows "\<exists>buf. length buf = MAX_PKT_SIZE \<and>
    receive peer (Timeval 0 0) a st = Inr (st\<lparr>rxbuf := buf\<rparr>, [arr_payload a])"
proof -
  define data where "data = gre_packet (arr_key a) (arr_proto a) (arr_seq a) True (arr_payload a)"
  define buf where "buf = data @ drop (length data) (rxbuf st)"
  have len: "length data = 12 + length (arr_payload a)" "length (arr_payload a) \<le> 1488"
    using assms(3) by (simp_all add: data_def arrival_size_ok_def)
  then have eqs: "min MAX_PKT_SIZE (length data) = 12 + length (arr_payload a)"
    "take MAX_PKT_SIZE data = data" and buf_len: "length buf = MAX_PKT_SIZE"
    using assms(2) by (simp_all add: buf_def)
  have fields: "greh_flags_and_version buf = htons GRECP_FLAGSANDVERSION_WITH_SEQ"
    "take (length (arr_payload a)) (drop 12 buf) = arr_payload a"
    unfolding buf_def data_def by (rule gre_packet_fields)+
  have none: "process_reorder_buffer now timeout [] f = Inr ([], f, [])" for now timeout f
    by (subst process_none) (simp_all add: drop_late_def compact_def freeable_def)
  have "flush_buffer now timeout (st\<lparr>rxbuf := buf\<rparr>) = Inr (st\<lparr>rxbuf := buf\<rparr>, [])" for now timeout
    using assms(1) by (simp add: flush_buffer_def none)
  then have "receive peer (Timeval 0 0) a st = Inr (st\<lparr>rxbuf := buf\<rparr>, [arr_payload a])"
    unfolding receive_def data_def [symmetric] gre2tun_iteration_def
    by (simp add: Let_def eqs buf_def [symmetric] fields)
  with buf_len show ?thesis by blast
qed

text \<open>With the time-out set to zero nothing is reordered and nothing is dropped: every packet is
  written when it arrives, whatever its number.\<close>

theorem zero_timeout_forwards:
  assumes "packets st = []" and "length (rxbuf st) = MAX_PKT_SIZE"
    and "\<forall>a \<in> set ps. arrival_size_ok a"
  shows "\<exists>st'. run_steps (receive peer (Timeval 0 0)) ps st = Inr (st', map arr_payload ps) \<and>
    packets st' = []"
  using assms
proof (induction ps arbitrary: st)
  case (Cons a ps)
  obtain buf where buf: "length buf = MAX_PKT_SIZE"
    "receive peer (Timeval 0 0) a st = Inr (st\<lparr>rxbuf := buf\<rparr>, [arr_payload a])"
    using receive_passthrough [OF Cons.prems(1,2), of a peer] Cons.prems(3) by auto
  with Cons.IH [of "st\<lparr>rxbuf := buf\<rparr>"] Cons.prems show ?case by auto
qed simp

theorem zero_timeout_forwards_witness:
  "\<exists>st'. run_steps (receive (replicate 16 1) (Timeval 0 0)) [example_arrival 5 [1], example_arrival 5 [2]]
     (init_gre2tun (replicate 1500 0)) = Inr (st', [[1], [2]]) \<and> packets st' = []"
  using zero_timeout_forwards [of "init_gre2tun (replicate 1500 0)"
      "[example_arrival 5 [1], example_arrival 5 [2]]" "replicate 16 1"]
  by (simp add: arrival_size_ok_def)

text \<open>C35: The counter starts at \<open>UINT32_MAX\<close>, so every number counts as behind it until the packet with
  the number zero was seen: if that packet is lost, all packets that arrive are dropped, for ever.\<close>

theorem lost_first_packet_starves:
  assumes "length (rxbuf st) = MAX_PKT_SIZE" and "packets st = []" and "sequence_flushed st = - 1"
    and "normalised timeout"
    and "\<forall>a \<in> set ps. arr_seq a \<noteq> 0 \<and> arrival_size_ok a \<and> arrival_in_time (arr_stamp a) timeout a"
  shows "\<exists>buf. run_steps (receive peer timeout) ps st = Inr (st\<lparr>rxbuf := buf\<rparr>, [])"
  using assms
proof (induction ps arbitrary: st)
  case Nil
  then show ?case by (auto intro!: exI [of _ "rxbuf st"])
next
  case (Cons a ps)
  obtain buf where buf: "length buf = MAX_PKT_SIZE" "receive peer timeout a st = Inr (st\<lparr>rxbuf := buf\<rparr>, [])"
    using receive_starving [OF Cons.prems(1,2,3) _ _ Cons.prems(4), of a peer] Cons.prems(5) by auto
  with Cons.IH [of "st\<lparr>rxbuf := buf\<rparr>"] Cons.prems show ?case by auto
qed

theorem lost_first_packet_starves_witness:
  "\<exists>buf. run_steps (receive (replicate 16 1) (Timeval 0 250000))
      [example_arrival 1 [71], example_arrival 2 [72], example_arrival 3 [73]]
      (init_gre2tun (replicate 1500 0)) =
    Inr ((init_gre2tun (replicate 1500 0))\<lparr>rxbuf := buf\<rparr>, [])"
  by (rule lost_first_packet_starves)
    (simp_all add: normalised_def, simp_all add: example_arrival_def arrival_size_ok_def arrival_in_time_def
      normalised_def micros_def)

text \<open>Packets that are neither next nor late nor timed out wait.\<close>

lemma waiting_buffer_rests:
  assumes "0 < next_expected f"
    and "\<forall>e \<in> set es. next_expected f < unat (sequence e) \<and> psize e > 0 \<and> \<not> timed_out now timeout e"
  shows "process_reorder_buffer now timeout es f = Inr (es, f, [])"
proof -
  have ne: "sequence e \<noteq> f + 1" and late: "\<not> sequence e \<le> f" if "e \<in> set es" for e
    using assms that next_expected_eq_iff [of "sequence e" f] next_expected_le_iff [OF assms(1), of "sequence e"] by auto
  have "process_reorder_buffer now timeout es f = Inr (compact (drop_late f es), f, [])"
    using ne assms(2) by (intro process_none) (auto simp: list_ex_iff)
  moreover have "drop_late f es = es"
    unfolding drop_late_def by (rule map_idI) (simp add: late)
  moreover have "compact es = es" by (rule compact_waiting) (simp add: assms(2))
  ultimately show ?thesis by simp
qed

text \<open>C34: If a packet that has to wait arrives twice and its predecessor does not come before the
  time-out, the thread frees the same packet twice.\<close>

theorem duplicate_is_freed_twice:
  assumes "length (rxbuf st) = MAX_PKT_SIZE" and "packets st = []"
    and "0 < next_expected (sequence_flushed st)"
    and "next_expected (sequence_flushed st) < unat (arr_seq a)" and "arr_seq b = arr_seq a"
    and "arrival_size_ok a" and "arrival_size_ok b" and "normalised timeout"
    and "arrival_in_time (arr_stamp a) timeout a" and "arrival_in_time (arr_stamp a) timeout b"
    and "normalised now" and "micros (arr_stamp b) + micros timeout \<le> micros now"
    and "micros (arr_stamp a) \<le> micros (arr_stamp b)"
  shows "bind_res (run_steps (receive peer timeout) [a, b] st) (\<lambda>(st', out).
      gre2tun_iteration peer timeout (Nothing_Received True) stamp now st') = Inl Double_Free"
proof -
  let ?f = "sequence_flushed st"
  have nz: "tv_sec timeout \<noteq> 0 \<or> tv_usec timeout \<noteq> 0"
    using assms(9) by (auto simp: arrival_in_time_def micros_def)
  have waits: "process_reorder_buffer (arr_now c) timeout es ?f = Inr (es, ?f, [])"
    if "set es \<subseteq> {buffered a, buffered b}" and "c \<in> {a, b}" for es c
  proof (rule waiting_buffer_rests [OF assms(3)], rule ballI)
    fix e assume "e \<in> set es"
    then have e: "e \<in> {buffered a, buffered b}" using that(1) by blast
    have "\<not> timed_out (arr_now c) timeout e"
      by (rule not_timed_out [of "arr_stamp a" _ c])
        (use that(2) e assms(8-10) in \<open>auto simp: buffered_def arrival_in_time_def\<close>)
    with e show "next_expected ?f < unat (sequence e) \<and> psize e > 0 \<and> \<not> timed_out (arr_now c) timeout e"
      using assms(4-7) psize_buffered by (auto simp: buffered_def)
  qed
  obtain buf1 where buf1: "length buf1 = MAX_PKT_SIZE" and
    r1: "receive peer timeout a st = Inr (st\<lparr>rxbuf := buf1, packets := [buffered a]\<rparr>, [])"
    using receive_buffers [OF assms(1,6) nz, of peer] assms(2) waits [of "[buffered a]" a]
    by (auto simp: flush_buffer_def)
  let ?st1 = "st\<lparr>rxbuf := buf1, packets := [buffered a]\<rparr>"
  obtain buf2 where r2: "receive peer timeout b ?st1 =
      Inr (st\<lparr>rxbuf := buf2, packets := [buffered a, buffered b]\<rparr>, [])"
    using receive_buffers [of ?st1 b timeout peer] buf1 assms(7) nz waits [of "[buffered a, buffered b]" b]
    by (auto simp: flush_buffer_def)
  have late: "timed_out now timeout e" if "e \<in> {buffered a, buffered b}" for e
  proof -
    have "normalised (timestamp e)" "micros (timestamp e) \<le> micros (arr_stamp b)" "psize e > 0"
      using that assms psize_buffered by (auto simp: buffered_def arrival_in_time_def)
    then show ?thesis using assms(8,11,12)
      by (simp add: timed_out_def timeval_le_iff_micros normalised_timersub micros_timersub)
  qed
  have "reorder_flush now timeout [buffered a, buffered b] ?f = Inl Double_Free"
    using late assms(5) by (intro flush_first_copy) (auto simp: buffered_def)
  then show ?thesis
    by (simp add: r1 r2 gre2tun_iteration_def flush_buffer_def process_reorder_buffer_def)
qed

theorem duplicate_is_freed_twice_witness:
  "bind_res (run_steps (receive (replicate 16 1) (Timeval 0 250000)) [example_arrival 5 [1], example_arrival 5 [1]]
      \<lparr>rxbuf = replicate 1500 0, packets = [], sequence_flushed = 0\<rparr>)
    (\<lambda>(st', out). gre2tun_iteration (replicate 16 1) (Timeval 0 250000) (Nothing_Received True)
      (Timeval 10 100) (Timeval 11 0) st') = Inl Double_Free"
  by (rule duplicate_is_freed_twice)
    (simp_all add: normalised_def next_expected_def, simp_all add: example_arrival_def arrival_size_ok_def
      arrival_in_time_def normalised_def micros_def)

text \<open>C40: A sequenced packet of the server that is shorter than its header, of two to eleven bytes, makes the size of the payload wrap
  around at 16 bits, and the thread copies from beyond its receive buffer, whenever reordering is on.\<close>

theorem short_packet_overread:
  assumes "length (rxbuf st) = MAX_PKT_SIZE" and "2 \<le> length data" and "length data < 12"
    and "greh_flags_and_version data = htons GRECP_FLAGSANDVERSION_WITH_SEQ"
    and "tv_sec timeout \<noteq> 0 \<or> tv_usec timeout \<noteq> 0"
  shows "gre2tun_iteration peer timeout (Received peer data) stamp now st = Inl Out_Of_Bounds_Read"
proof -
  define buf where "buf = take MAX_PKT_SIZE data @ drop (length data) (rxbuf st)"
  have flags: "greh_flags_and_version buf = htons GRECP_FLAGSANDVERSION_WITH_SEQ"
    using assms(2-4) by (simp add: buf_def greh_flags_and_version_def)
  have len: "length buf = MAX_PKT_SIZE" using assms(1,3) by (simp add: buf_def)
  have min_len: "min MAX_PKT_SIZE (length data) = length data" using assms(3) by simp
  have "n \<in> {2, 3, 4, 5, 6, 7, 8, 9, 10, 11}" if "2 \<le> n" and "n < 12" for n :: nat
    using that by simp presburger
  with assms(2,3) have "length data \<in> {2, 3, 4, 5, 6, 7, 8, 9, 10, 11}" by blast
  then have "MAX_PKT_SIZE < unat (of_int (int (length data) - 12) :: u16)"
    by (auto simp: unsigned_minus_1_eq_mask mask_eq_exp_minus_1)
  then have over: "mem_read buf 12 (unat (of_int (int (length data) - 12) :: u16)) = Inl Out_Of_Bounds_Read"
    by (simp add: mem_read_def len del: of_int_diff)
  have nz: "\<not> (tv_sec timeout = 0 \<and> tv_usec timeout = 0)" using assms(5) by blast
  show ?thesis
    unfolding gre2tun_iteration_def buf_def [symmetric]
    by (simp add: Let_def buf_def [symmetric] flags min_len nz del: of_int_diff de_Morgan_conj)
      (simp only: over bind_res.simps)
qed

theorem short_packet_overread_witness:
  "gre2tun_iteration (replicate 16 1) (Timeval 0 250000) (Received (replicate 16 1) [0x30, 0, 8, 0, 0, 0, 0, 7])
     (Timeval 10 100) (Timeval 10 101) (init_gre2tun (replicate 1500 0)) = Inl Out_Of_Bounds_Read"
  by (rule short_packet_overread)
    (simp_all add: init_gre2tun_def greh_flags_and_version_def ntohs_def bytes_of_u16_def)

end
