(* ===== verification/Losses.thy ===== *)
theory Losses
  imports Receiver
begin

text \<open>
  The receiving thread when the network loses, delays and reorders packets and nothing may arrive
  for a while. The locale \<open>releasing_turns\<close> states one turn as one release of the abstract resequencer,
  for packets that are in time and for packets whose number was passed already; inside it whole runs are
  proved to write every number at most once, in increasing order, and to drop no packet that is in time.
\<close>

subsection \<open>The contract of one turn\<close>

definition released :: "nat \<Rightarrow> nat \<Rightarrow> (nat \<rightharpoonup> 'b) \<Rightarrow> nat list" where
  "released n n' W = filter (\<lambda>k. k \<in> dom W) [n..<n']"

lemma released_sorted: "sorted_wrt (<) (released n n' W)" "set (released n n' W) = {n..<n'} \<inter> dom W"
  by (auto simp: released_def intro: sorted_wrt_filter)

lemma list_all2_released:
  assumes "\<And>k b. W k = Some b \<Longrightarrow> P k b"
  shows "list_all2 P (released n n' W) (map (\<lambda>k. the (W k)) (released n n' W))"
proof -
  have "P k (the (W k))" if "k \<in> set (released n n' W)" for k
    using that by (intro assms) (auto simp: released_sorted)
  then show ?thesis by (simp add: list.rel_map list_all2_same)
qed

locale releasing_turns =
  fixes step :: "'p \<Rightarrow> 's \<Rightarrow> 'e + ('s \<times> 'b list)"
    and offers :: "'p \<Rightarrow> nat \<rightharpoonup> 'b"
    and expect :: "'s \<Rightarrow> nat"
    and wait :: "'s \<Rightarrow> nat \<rightharpoonup> 'b"
    and inv :: "'s \<Rightarrow> bool"
    and ok :: "'p \<Rightarrow> bool"
  assumes unstarted: "inv s \<Longrightarrow> expect s = 0 \<Longrightarrow> wait s = Map.empty"
    and turn: "inv s \<Longrightarrow> ok p \<Longrightarrow> dom (offers p) \<inter> dom (wait s) = {} \<Longrightarrow> W = wait s ++ offers p \<Longrightarrow>
      \<exists>s' out. step p s = Inr (s', out) \<and> inv s' \<and>
        (if 0 < expect s \<or> 0 \<in> dom (offers p)
         then 0 < expect s' \<and> expect s \<le> expect s' \<and>
           out = map (\<lambda>n. the (W n)) (released (expect s) (expect s') W) \<and> wait s' = W |` {expect s'..}
         else expect s' = 0 \<and> out = [])"
begin

definition pool :: "'p list \<Rightarrow> nat \<Rightarrow> 'b \<Rightarrow> bool" where
  "pool ps n b \<longleftrightarrow> (\<exists>p \<in> set ps. offers p n = Some b)"

text \<open>What a turn of a run needs: numbers that neither wait nor come again.\<close>

definition fresh_run :: "'p list \<Rightarrow> 's \<Rightarrow> bool" where
  "fresh_run ps s \<longleftrightarrow> inv s \<and> (\<forall>p \<in> set ps. ok p \<and> dom (offers p) \<inter> dom (wait s) = {}) \<and>
     sorted_wrt (\<lambda>p q. dom (offers p) \<inter> dom (offers q) = {}) ps"

lemma first_turn:
  assumes "fresh_run (p # ps) s"
  obtains s' out where "step p s = Inr (s', out)" "fresh_run ps s'" "expect s \<le> expect s'"
    "out = map (\<lambda>n. the ((wait s ++ offers p) n)) (released (expect s) (expect s') (wait s ++ offers p))"
    "wait s' \<subseteq>\<^sub>m wait s ++ offers p"
    "0 < expect s \<or> 0 \<in> dom (offers p) \<Longrightarrow>
       0 < expect s' \<and> wait s' = (wait s ++ offers p) |` {expect s'..}"
proof -
  let ?W = "wait s ++ offers p"
  have s: "inv s" "ok p" "dom (offers p) \<inter> dom (wait s) = {}" using assms by (simp_all add: fresh_run_def)
  obtain s' out where st: "step p s = Inr (s', out)" "inv s'" and
    eff: "if 0 < expect s \<or> 0 \<in> dom (offers p)
      then 0 < expect s' \<and> expect s \<le> expect s' \<and>
        out = map (\<lambda>n. the (?W n)) (released (expect s) (expect s') ?W) \<and> wait s' = ?W |` {expect s'..}
      else expect s' = 0 \<and> out = []"
    using turn [OF s refl] by blast
  have e: "expect s \<le> expect s'" "out = map (\<lambda>n. the (?W n)) (released (expect s) (expect s') ?W)"
    using eff by (auto simp: released_def split: if_splits)
  have sub: "wait s' \<subseteq>\<^sub>m ?W"
    using eff unstarted [OF st(2)] by (auto simp: map_le_def split: if_splits)
  have sub': "dom (wait s') \<subseteq> dom (wait s) \<union> dom (offers p)"
    using map_le_implies_dom_le [OF sub] by (simp add: Un_commute)
  have "dom (offers q) \<inter> dom (wait s') = {}" if "q \<in> set ps" for q
  proof -
    have "dom (offers q) \<inter> dom (wait s) = {}" "dom (offers p) \<inter> dom (offers q) = {}"
      using that assms by (simp_all add: fresh_run_def)
    with sub' show ?thesis by blast
  qed
  then have run: "fresh_run ps s'" using assms st(2) by (simp add: fresh_run_def)
  show thesis
  proof (rule that [OF st(1) run e sub])
    assume "0 < expect s \<or> 0 \<in> dom (offers p)"
    then show "0 < expect s' \<and> wait s' = ?W |` {expect s'..}" using eff by (simp only: if_True)
  qed
qed

lemma run_increases:
  assumes "fresh_run ps s"
  shows "\<exists>s' out ns. run_steps step ps s = Inr (s', out) \<and> inv s' \<and> expect s \<le> expect s' \<and>
    sorted_wrt (<) ns \<and> set ns \<subseteq> {expect s..<expect s'} \<and>
    list_all2 (\<lambda>n b. wait s n = Some b \<or> pool ps n b) ns out"
  using assms
proof (induction ps arbitrary: s)
  case Nil
  then show ?case by (auto simp: fresh_run_def)
next
  case (Cons p ps)
  let ?W = "wait s ++ offers p"
  obtain s1 out1 where 1: "step p s = Inr (s1, out1)" "fresh_run ps s1" "expect s \<le> expect s1"
    "out1 = map (\<lambda>n. the (?W n)) (released (expect s) (expect s1) ?W)" "wait s1 \<subseteq>\<^sub>m ?W"
    using first_turn [OF Cons.prems] by blast
  obtain s2 out2 ns where 2: "run_steps step ps s1 = Inr (s2, out2)" "inv s2" "expect s1 \<le> expect s2"
    "sorted_wrt (<) ns" "set ns \<subseteq> {expect s1..<expect s2}"
    "list_all2 (\<lambda>n b. wait s1 n = Some b \<or> pool ps n b) ns out2"
    using Cons.IH [OF 1(2)] by blast
  let ?ns = "released (expect s) (expect s1) ?W"
  have known: "wait s n = Some b \<or> pool (p # ps) n b" if "?W n = Some b" for n b
    using that by (auto simp: pool_def)
  have "list_all2 (\<lambda>n b. wait s n = Some b \<or> pool (p # ps) n b) ?ns out1"
    unfolding 1(4) using known by (rule list_all2_released)
  moreover have "list_all2 (\<lambda>n b. wait s n = Some b \<or> pool (p # ps) n b) ns out2"
    using 2(6)
  proof (rule list_all2_mono)
    fix n b assume "wait s1 n = Some b \<or> pool ps n b"
    then show "wait s n = Some b \<or> pool (p # ps) n b"
      using known [of n b] 1(5) by (auto simp: pool_def map_le_def dom_def)
  qed
  ultimately have "list_all2 (\<lambda>n b. wait s n = Some b \<or> pool (p # ps) n b) (?ns @ ns) (out1 @ out2)"
    by (rule list_all2_appendI)
  moreover have "sorted_wrt (<) (?ns @ ns)"
    using 2(4,5) by (fastforce simp: sorted_wrt_append released_sorted)
  moreover have "set (?ns @ ns) \<subseteq> {expect s..<expect s2}"
    using 1(3) 2(3,5) by (auto simp: released_sorted)
  ultimately show ?case
    using 1(1,3) 2(1-3) by (intro exI [of _ s2] exI [of _ "out1 @ out2"] exI [of _ "?ns @ ns"]) simp
qed

lemma run_prefix:
  assumes "fresh_run (us @ vs) s"
  shows "\<exists>s' out. run_steps step us s = Inr (s', out) \<and> fresh_run vs s'"
  using assms
proof (induction us arbitrary: s)
  case (Cons p us)
  from Cons.prems have "fresh_run (p # us @ vs) s" by simp
  then obtain s1 out1 where 1: "step p s = Inr (s1, out1)" "fresh_run (us @ vs) s1" by (rule first_turn)
  obtain s2 out2 where "run_steps step us s1 = Inr (s2, out2)" "fresh_run vs s2" using Cons.IH [OF 1(2)] by blast
  with 1 show ?case by simp
qed simp

lemma waiting_is_written:
  assumes "fresh_run ps s" and "0 < expect s" and "wait s n = Some b" and "expect s \<le> n"
    and "run_steps step ps s = Inr (s', out)"
  shows "if n < expect s' then b \<in> set out else wait s' n = Some b"
  using assms
proof (induction ps arbitrary: s out)
  case Nil
  then show ?case by simp
next
  case (Cons p ps)
  let ?W = "wait s ++ offers p"
  obtain s1 out1 where 1: "step p s = Inr (s1, out1)" "fresh_run ps s1"
    "out1 = map (\<lambda>n. the (?W n)) (released (expect s) (expect s1) ?W)"
    "0 < expect s1" "wait s1 = ?W |` {expect s1..}"
    using first_turn [OF Cons.prems(1)] Cons.prems(2) by metis
  obtain out2 where 2: "run_steps step ps s1 = Inr (s', out2)" and out: "out = out1 @ out2"
    using Cons.prems(5) 1(1) by (auto simp: bind_res_eq_Inr)
  have "n \<notin> dom (offers p)" using Cons.prems(1,3) by (auto simp: fresh_run_def)
  with Cons.prems(3) have W: "?W n = Some b" by (simp add: map_add_dom_app_simps)
  show ?case
  proof (cases "n < expect s1")
    case True
    with W Cons.prems(4) have "n \<in> set (released (expect s) (expect s1) ?W)"
      by (auto simp: released_sorted)
    then have "the (?W n) \<in> set out1" unfolding 1(3) set_map by (rule imageI)
    with W have b: "b \<in> set out1" by simp
    obtain s2 out2' ns where "run_steps step ps s1 = Inr (s2, out2')" "expect s1 \<le> expect s2"
      using run_increases [OF 1(2)] by blast
    with 2 True out b show ?thesis by simp
  next
    case False
    with W have "wait s1 n = Some b" by (simp add: 1(5))
    with Cons.IH [OF 1(2,4) _ _ 2] False out show ?thesis by (auto split: if_splits)
  qed
qed

lemma in_time_is_written:
  assumes "fresh_run (p # ps) s" and "0 < expect s \<or> n = 0" and "offers p n = Some b" and "expect s \<le> n"
    and "run_steps step (p # ps) s = Inr (s', out)"
  shows "if n < expect s' then b \<in> set out else wait s' n = Some b"
proof -
  let ?W = "wait s ++ offers p"
  have st: "0 < expect s \<or> 0 \<in> dom (offers p)" using assms(2,3) by auto
  obtain s1 out1 where 1: "step p s = Inr (s1, out1)" "fresh_run ps s1"
    "out1 = map (\<lambda>n. the (?W n)) (released (expect s) (expect s1) ?W)"
    "0 < expect s1" "wait s1 = ?W |` {expect s1..}"
    using first_turn [OF assms(1)] st by metis
  obtain out2 where 2: "run_steps step ps s1 = Inr (s', out2)" and out: "out = out1 @ out2"
    using assms(5) 1(1) by (auto simp: bind_res_eq_Inr)
  have W: "?W n = Some b" using assms(3) by simp
  show ?thesis
  proof (cases "n < expect s1")
    case True
    with W assms(4) have "n \<in> set (released (expect s) (expect s1) ?W)" by (auto simp: released_sorted)
    then have "the (?W n) \<in> set out1" unfolding 1(3) set_map by (rule imageI)
    with W have b: "b \<in> set out1" by simp
    obtain s2 out2' ns where "run_steps step ps s1 = Inr (s2, out2')" "expect s1 \<le> expect s2"
      using run_increases [OF 1(2)] by blast
    with 2 True out b show ?thesis by simp
  next
    case False
    with W have "wait s1 n = Some b" by (simp add: 1(5))
    with waiting_is_written [OF 1(2,4) _ _ 2, of n b] False out show ?thesis by (auto split: if_splits)
  qed
qed

end

subsection \<open>A packet behind the counter\<close>

lemma flush_pass_append:
  "flush_pass (es @ xs) f = bind_res (flush_pass es f) (\<lambda>(es1, f1, out1, b1).
     bind_res (flush_pass xs f1) (\<lambda>(xs1, f2, out2, b2). Inr (es1 @ xs1, f2, out1 @ out2, b1 \<or> b2)))"
proof (induction es arbitrary: f)
  case Nil
  show ?case by (cases "flush_pass xs f") auto
next
  case (Cons e es)
  show ?case
    by (cases "sequence e = f + 1"; cases "flush_pass es f"; cases "flush_pass es (f + 1)")
      (auto simp: Cons.IH bind_res_assoc case_prod_beta)
qed

definition behind :: "reorder_buffer_element \<Rightarrow> u32 \<Rightarrow> bool" where
  "behind x f \<longleftrightarrow> unat (sequence x) < next_expected f"

lemma behind_simps: "behind x f \<Longrightarrow> sequence x \<noteq> f + 1" "behind x f \<Longrightarrow> sequence x \<le> f"
  by (auto simp: behind_def next_expected_eq_iff next_expected_le_iff)

lemma behind_flushed: "behind x f \<Longrightarrow> flushed es f es' f' out \<Longrightarrow> behind x f'"
  by (simp add: behind_def flushed_def)

lemma flush_pass_behind:
  assumes "buffer_inv es (next_expected f)" and "behind x f"
  shows "flush_pass (es @ [x]) f =
    bind_res (flush_pass es f) (\<lambda>(es', f', out, b). Inr (es' @ [x], f', out, b))"
proof -
  obtain es' f' out b where r: "flush_pass es f = Inr (es', f', out, b)" and "flushed es f es' f' out"
    using flush_pass_spec [OF assms(1)] by blast
  then have "behind x f'" using behind_flushed [OF assms(2)] by blast
  then show ?thesis by (simp add: flush_pass_append r behind_simps)
qed

lemma flush_all_behind:
  assumes "buffer_inv es (next_expected f)" and "behind x f"
  shows "flush_all (es @ [x]) f = bind_res (flush_all es f) (\<lambda>(es', f', out). Inr (es' @ [x], f', out))"
  using assms
proof (induction es f rule: flush_all.induct)
  case (1 es f)
  obtain es1 f1 out1 b where p: "flush_pass es f = Inr (es1, f1, out1, b)" and fl: "flushed es f es1 f1 out1"
    using flush_pass_spec [OF "1.prems"(1)] by blast
  have px: "flush_pass (es @ [x]) f = Inr (es1 @ [x], f1, out1, b)"
    by (simp add: flush_pass_behind [OF "1.prems"] p)
  show ?case
  proof (cases b)
    case True
    have "flush_all (es1 @ [x]) f1 = bind_res (flush_all es1 f1) (\<lambda>(es', f', out). Inr (es' @ [x], f', out))"
      using "1.IH" [OF p refl refl refl True] buffer_inv_flushed [OF "1.prems"(1) fl]
        behind_flushed [OF "1.prems"(2) fl] by blast
    then show ?thesis
      by (simp add: flush_all.simps [of "es @ [x]"] flush_all.simps [of es] p px True bind_res_assoc case_prod_beta)
  next
    case False
    then show ?thesis by (simp add: flush_all.simps [of "es @ [x]"] flush_all.simps [of es] p px)
  qed
qed

lemma reorder_flush_behind:
  assumes "buffer_inv es (next_expected f)" and "behind x f" and "\<not> timed_out now timeout x"
  shows "reorder_flush now timeout (es @ [x]) f =
    bind_res (reorder_flush now timeout es f) (\<lambda>(es', f', out). Inr (es' @ [x], f', out))"
  using assms
proof (induction now timeout es f rule: reorder_flush.induct)
  case (1 now timeout es f)
  obtain es1 f1 out1 where r: "flush_all es f = Inr (es1, f1, out1)" and fl: "flushed es f es1 f1 out1"
    and n: "next_expected f1 \<notin> waiting_numbers es1"
    using flush_all_spec [OF "1.prems"(1)] by blast
  have rx: "flush_all (es @ [x]) f = Inr (es1 @ [x], f1, out1)"
    by (simp add: flush_all_behind [OF "1.prems"(1,2)] r)
  have inv1: "buffer_inv es1 (next_expected f1)" by (rule buffer_inv_flushed [OF "1.prems"(1) fl])
  show ?case
  proof (cases "list_ex (timed_out now timeout) es1")
    case True
    note skip = flushed_skip [OF inv1 n True]
    have "behind x (f1 + 1)"
      using behind_flushed behind_flushed [OF "1.prems"(2) fl] skip by blast
    then have "reorder_flush now timeout (es1 @ [x]) (f1 + 1) =
        bind_res (reorder_flush now timeout es1 (f1 + 1)) (\<lambda>(es', f', out). Inr (es' @ [x], f', out))"
      using "1.IH" [OF r refl refl True] skip "1.prems"(3) by blast
    then show ?thesis
      by (simp add: reorder_flush.simps [of _ _ "es @ [x]"] reorder_flush.simps [of _ _ es] r rx True
          bind_res_assoc case_prod_beta)
  next
    case False
    then show ?thesis
      using "1.prems"(3) by (simp add: reorder_flush.simps [of _ _ "es @ [x]"] reorder_flush.simps [of _ _ es] r rx)
  qed
qed

lemma drop_late_snoc:
  assumes "buffer_inv es (next_expected f)" and "behind x f" and "psize x > 0"
  shows "drop_late f (es @ [x]) = es @ [flush_element x]"
proof -
  have "0 < next_expected f" using assms(2) by (simp add: behind_def)
  then have "drop_late f es = es" by (rule drop_late_id [OF assms(1)])
  then show ?thesis using assms(2,3) by (simp add: drop_late_def behind_simps)
qed

lemma buffer_inv_behind:
  assumes "buffer_inv es (next_expected f)" and "behind x f"
  shows "buffer_inv (es @ [flush_element x]) (next_expected f)"
  using assms by (auto simp: buffer_inv_def element_inv_def behind_def)

lemma process_behind:
  assumes "buffer_inv es (next_expected f)" and "behind x f" and "\<not> timed_out now timeout x" and "psize x > 0"
  shows "\<exists>es' f' out. process_reorder_buffer now timeout (es @ [x]) f = Inr (es', f', out) \<and>
    buffer_inv es' (next_expected f') \<and> next_expected f \<le> next_expected f' \<and>
    (map snd out, abs_buffer es' f') = release (next_expected f') (abs_buffer es f)"
proof -
  obtain es1 f' out where r: "reorder_flush now timeout es f = Inr (es1, f', out)"
    and fl: "flushed es f es1 f' out"
    using reorder_flush_spec [OF assms(1)] by blast
  have inv1: "buffer_inv es1 (next_expected f')" by (rule buffer_inv_flushed [OF assms(1) fl])
  have bx: "behind x f'" by (rule behind_flushed [OF assms(2) fl])
  note inv2 = buffer_inv_behind [OF inv1 bx]
  have "process_reorder_buffer now timeout (es @ [x]) f = Inr (compact (es1 @ [flush_element x]), f', out)"
    by (simp add: process_reorder_buffer_def reorder_flush_behind [OF assms(1-3)] r
        drop_late_snoc [OF inv1 bx assms(4)])
  moreover have "abs_buffer (compact (es1 @ [flush_element x])) f' = abs_buffer es1 f'"
    by (simp add: abs_buffer_def pending_compact [OF inv2]) (simp add: pending_def)
  moreover have "next_expected f \<le> next_expected f'" using fl by (simp add: flushed_def)
  ultimately show ?thesis
    using flushed_release [OF assms(1) fl] compact_live(2) [OF inv2] by simp
qed

lemma release_released:
  assumes "(outs, abs_buffer es' f') = release n' (abs_buffer es f)"
  shows "n' = next_expected f'"
    "outs = map (\<lambda>k. the (pending es k)) (released (next_expected f) (next_expected f') (pending es))"
    "pending es' = pending es |` {next_expected f'..}"
  using assms by (simp_all add: release_def abs_buffer_def released_def)

subsection \<open>Turns of the thread\<close>

text \<open>A data packet arrives, or \<open>recvfrom\<close> returns without one.\<close>

datatype turn = Arrive arrival | Idle bool timeval timeval

fun take_turn :: "in6_addr \<Rightarrow> timeval \<Rightarrow> turn \<Rightarrow> gre2tun \<Rightarrow> fault + (gre2tun \<times> bytes list)" where
  "take_turn peer timeout (Arrive a) st = receive peer timeout a st"
| "take_turn peer timeout (Idle again stamp now) st =
     gre2tun_iteration peer timeout (Nothing_Received again) stamp now st"

fun offered :: "turn \<Rightarrow> nat \<rightharpoonup> bytes" where
  "offered (Arrive a) = [unat (arr_seq a) \<mapsto> arr_payload a]"
| "offered (Idle _ _ _) = Map.empty"

text \<open>An arrival is handled faster than the time-out of the buffer.\<close>

fun turn_ok :: "timeval \<Rightarrow> turn \<Rightarrow> bool" where
  "turn_ok timeout (Arrive a) \<longleftrightarrow> arrival_ok (arr_stamp a) timeout a \<and> normalised timeout"
| "turn_ok timeout (Idle _ _ _) \<longleftrightarrow> True"

definition steady :: "gre2tun \<Rightarrow> bool" where
  "steady st \<longleftrightarrow> length (rxbuf st) = MAX_PKT_SIZE \<and>
     buffer_inv (packets st) (next_expected (sequence_flushed st)) \<and>
     (next_expected (sequence_flushed st) = 0 \<longrightarrow> packets st = [])"

definition released_to :: "gre2tun \<Rightarrow> (nat \<rightharpoonup> bytes) \<Rightarrow> gre2tun \<Rightarrow> bytes list \<Rightarrow> bool" where
  "released_to st W st' out \<longleftrightarrow>
     0 < next_expected (sequence_flushed st') \<and>
     next_expected (sequence_flushed st) \<le> next_expected (sequence_flushed st') \<and>
     out = map (\<lambda>n. the (W n)) (released (next_expected (sequence_flushed st)) (next_expected (sequence_flushed st')) W) \<and>
     pending (packets st') = W |` {next_expected (sequence_flushed st')..}"

lemma flush_started:
  assumes "length (rxbuf st) = MAX_PKT_SIZE" and "buffer_inv (packets st) (next_expected (sequence_flushed st))"
    and "0 < next_expected (sequence_flushed st) \<or> 0 \<in> waiting_numbers (packets st)"
  shows "\<exists>st' out. flush_buffer now timeout st = Inr (st', out) \<and> steady st' \<and>
    released_to st (pending (packets st)) st' out"
proof -
  obtain es' f' out where p: "process_reorder_buffer now timeout (packets st) (sequence_flushed st) = Inr (es', f', out)"
    and i: "buffer_inv es' (next_expected f')" "next_expected (sequence_flushed st) \<le> next_expected f'" "0 < next_expected f'"
    and rel: "(map snd out, abs_buffer es' f') = release (next_expected f') (abs_buffer (packets st) (sequence_flushed st))"
    using process_reorder_buffer_spec [OF assms(2,3), of now timeout] by blast
  then show ?thesis
    using assms(1) release_released [OF rel] by (simp add: flush_buffer_def p steady_def released_to_def)
qed

lemma idle_turn:
  assumes "steady st"
  shows "\<exists>st' out. flush_buffer now timeout st = Inr (st', out) \<and> steady st' \<and>
    (if 0 < next_expected (sequence_flushed st) then released_to st (pending (packets st)) st' out
     else next_expected (sequence_flushed st') = 0 \<and> out = [])"
proof (cases "0 < next_expected (sequence_flushed st)")
  case True
  then show ?thesis using flush_started [of st now timeout] assms by (simp add: steady_def)
next
  case False
  then have "packets st = []" using assms by (simp add: steady_def)
  then have "flush_buffer now timeout st = Inr (st, [])"
    using process_none [of "[]" "sequence_flushed st" now timeout]
    by (simp add: flush_buffer_def drop_late_def compact_def)
  with False assms show ?thesis by auto
qed

text \<open>A packet has been put at the end of the buffer: one whose number was passed, or a fresh one.\<close>

lemma late_flush:
  assumes "steady st" and "arrival_ok (arr_stamp a) timeout a" and "normalised timeout"
    and "unat (arr_seq a) < next_expected (sequence_flushed st)" and "length buf = MAX_PKT_SIZE"
  shows "\<exists>st' out. flush_buffer (arr_now a) timeout (st\<lparr>rxbuf := buf, packets := packets st @ [buffered a]\<rparr>) = Inr (st', out) \<and>
    steady st' \<and> released_to st (pending (packets st)) st' out"
proof -
  let ?f = "sequence_flushed st"
  have a: "arrival_size_ok a" "arrival_in_time (arr_stamp a) timeout a" using assms(2) by (simp_all add: arrival_ok_def)
  have x: "behind (buffered a) ?f" using assms(4) by (simp add: behind_def buffered_def)
  have "\<not> timed_out (arr_now a) timeout (buffered a)"
    using a(2) assms(3) by (intro not_timed_out [OF a(2)]) (simp_all add: buffered_def arrival_in_time_def)
  then obtain es' f' out where p: "process_reorder_buffer (arr_now a) timeout (packets st @ [buffered a]) ?f = Inr (es', f', out)"
    and i: "buffer_inv es' (next_expected f')" "next_expected ?f \<le> next_expected f'"
    and rel: "(map snd out, abs_buffer es' f') = release (next_expected f') (abs_buffer (packets st) ?f)"
    using process_behind [OF _ x _ psize_buffered [OF a(1)], of "packets st" "arr_now a" timeout] assms(1)
    by (auto simp: steady_def)
  have "0 < next_expected f'" using i(2) assms(4) by simp
  then show ?thesis
    using assms(5) i release_released [OF rel] by (simp add: flush_buffer_def p steady_def released_to_def)
qed

lemma fresh_flush:
  assumes "steady st" and "arrival_ok (arr_stamp a) timeout a"
    and "0 < next_expected (sequence_flushed st) \<or> unat (arr_seq a) = 0"
    and "next_expected (sequence_flushed st) \<le> unat (arr_seq a)" and "unat (arr_seq a) \<notin> dom (pending (packets st))"
    and "length buf = MAX_PKT_SIZE"
  shows "\<exists>st' out. flush_buffer (arr_now a) timeout (st\<lparr>rxbuf := buf, packets := packets st @ [buffered a]\<rparr>) = Inr (st', out) \<and>
    steady st' \<and> released_to st ((pending (packets st))(unat (arr_seq a) \<mapsto> arr_payload a)) st' out"
proof -
  let ?n = "next_expected (sequence_flushed st)" and ?es = "packets st @ [buffered a]"
  have a: "arrival_size_ok a" "unat (arr_seq a) < 2 ^ 32 - 1" using assms(2) by (simp_all add: arrival_ok_def)
  have W: "pending ?es = (pending (packets st))(unat (arr_seq a) \<mapsto> arr_payload a)"
    by (rule pending_snoc [OF assms(5)])
  have "buffer_inv ?es ?n"
    using assms a by (intro buffer_inv_snoc) (simp_all add: steady_def)
  moreover have "0 < ?n \<or> 0 \<in> waiting_numbers ?es"
    using assms(3) by (auto simp: W dom_pending [symmetric])
  ultimately obtain st' out where "flush_buffer (arr_now a) timeout (st\<lparr>rxbuf := buf, packets := ?es\<rparr>) = Inr (st', out)"
    "steady st'" "released_to (st\<lparr>rxbuf := buf, packets := ?es\<rparr>) (pending ?es) st' out"
    using flush_started [of "st\<lparr>rxbuf := buf, packets := ?es\<rparr>" "arr_now a" timeout] assms(6) by auto
  then show ?thesis unfolding W [symmetric] by (auto simp: released_to_def)
qed

lemma starving_flush:
  assumes "steady st" and "next_expected (sequence_flushed st) = 0" and "arrival_ok (arr_stamp a) timeout a"
    and "normalised timeout" and "unat (arr_seq a) \<noteq> 0" and "length buf = MAX_PKT_SIZE"
  shows "\<exists>st'. flush_buffer (arr_now a) timeout (st\<lparr>rxbuf := buf, packets := packets st @ [buffered a]\<rparr>) = Inr (st', []) \<and>
    steady st' \<and> next_expected (sequence_flushed st') = 0"
proof -
  have a: "arrival_size_ok a" "arrival_in_time (arr_stamp a) timeout a" using assms(3) by (simp_all add: arrival_ok_def)
  have f: "sequence_flushed st = - 1" and ne: "arr_seq a \<noteq> 0" and es: "packets st = []"
    using assms(1,2,5) by (auto simp: next_expected_def unat_eq_0 eq_neg_iff_add_eq_0 steady_def)
  have "\<not> timed_out (arr_now a) timeout (buffered a)"
    using a(2) assms(4) by (intro not_timed_out [OF a(2)]) (simp_all add: buffered_def arrival_in_time_def)
  then have "process_reorder_buffer (arr_now a) timeout [buffered a] (- 1) =
      Inr (compact (drop_late (- 1) [buffered a]), - 1, [])"
    using ne by (intro process_none) (simp_all add: buffered_def)
  moreover have "compact (drop_late (- 1) [buffered a]) = []"
    using psize_buffered [OF a(1)] by (simp add: drop_late_def compact_all_flushed)
  ultimately show ?thesis
    using assms(6) by (simp add: flush_buffer_def f es steady_def)
qed

lemma receive_flush:
  assumes "steady st" and "arrival_ok (arr_stamp a) timeout a"
  obtains buf where "length buf = MAX_PKT_SIZE"
    "receive peer timeout a st = flush_buffer (arr_now a) timeout (st\<lparr>rxbuf := buf, packets := packets st @ [buffered a]\<rparr>)"
proof -
  have "tv_sec timeout \<noteq> 0 \<or> tv_usec timeout \<noteq> 0"
    using assms(2) by (auto simp: arrival_ok_def arrival_in_time_def micros_def)
  with that show thesis
    using receive_buffers [of st a timeout peer] assms by (auto simp: steady_def arrival_ok_def)
qed

text \<open>A late packet changes nothing of what is released.\<close>

lemma late_released_to:
  assumes "unat n < next_expected (sequence_flushed st)"
    and "W = (pending (packets st))(unat n \<mapsto> payload)"
  shows "released_to st W st' out \<longleftrightarrow> released_to st (pending (packets st)) st' out"
proof -
  let ?n = "next_expected (sequence_flushed st)" and ?m = "next_expected (sequence_flushed st')"
  have "released ?n ?m W = released ?n ?m (pending (packets st))"
    using assms(1) unfolding released_def assms(2) by (intro filter_cong) auto
  moreover have "map (\<lambda>n. the (W n)) (released ?n ?m (pending (packets st))) =
      map (\<lambda>n. the (pending (packets st) n)) (released ?n ?m (pending (packets st)))"
    using assms(1) by (auto simp: assms(2) released_sorted)
  moreover have "?n \<le> ?m \<Longrightarrow> W |` {?m..} = pending (packets st) |` {?m..}"
    using assms(1) by (auto simp: assms(2) restrict_map_def fun_eq_iff)
  ultimately show ?thesis by (auto simp: released_to_def)
qed

lemma steady_pending:
  assumes "steady st"
  shows "pending (packets st) |` {next_expected (sequence_flushed st)..} = pending (packets st)"
proof -
  have "dom (pending (packets st)) \<subseteq> {next_expected (sequence_flushed st)..}"
    using assms by (auto simp: steady_def dom_pending waiting_numbers_def buffer_inv_def element_inv_def)
  then have "pending (packets st) k = None" if "k \<notin> {next_expected (sequence_flushed st)..}" for k
    using that by blast
  then show ?thesis by (auto simp: restrict_map_def fun_eq_iff)
qed

lemma turn_releases:
  assumes "steady st" and "turn_ok timeout t" and "dom (offered t) \<inter> dom (pending (packets st)) = {}"
    and "W = pending (packets st) ++ offered t"
  shows "\<exists>st' out. take_turn peer timeout t st = Inr (st', out) \<and> steady st' \<and>
    (if 0 < next_expected (sequence_flushed st) \<or> 0 \<in> dom (offered t) then released_to st W st' out
     else next_expected (sequence_flushed st') = 0 \<and> out = [])"
proof (cases t)
  case (Idle again stamp now)
  then have W: "W = pending (packets st)" by (simp add: assms(4))
  show ?thesis
  proof (cases again)
    case True
    then show ?thesis
      using idle_turn [OF assms(1), of now timeout]
      unfolding W Idle by (simp add: gre2tun_iteration_def split del: if_split)
  next
    case False
    with False show ?thesis
      using assms(1) steady_pending [OF assms(1)] unfolding W Idle
      by (auto simp: gre2tun_iteration_def released_to_def released_def)
  qed
next
  case (Arrive a)
  have ok: "arrival_ok (arr_stamp a) timeout a" "normalised timeout" using assms(2) Arrive by simp_all
  obtain buf where buf: "length buf = MAX_PKT_SIZE" and r: "receive peer timeout a st =
      flush_buffer (arr_now a) timeout (st\<lparr>rxbuf := buf, packets := packets st @ [buffered a]\<rparr>)"
    using receive_flush [OF assms(1) ok(1)] .
  let ?n = "next_expected (sequence_flushed st)"
  consider "0 < ?n" "unat (arr_seq a) < ?n" | "?n = 0" "unat (arr_seq a) \<noteq> 0"
    | "0 < ?n \<or> unat (arr_seq a) = 0" "?n \<le> unat (arr_seq a)" by fastforce
  then show ?thesis
  proof cases
    case 1
    have "released_to st W st' out \<longleftrightarrow> released_to st (pending (packets st)) st' out" for st' out
      using 1(2) by (rule late_released_to) (simp add: assms(4) Arrive)
    with late_flush [OF assms(1) ok 1(2) buf] 1 show ?thesis by (simp add: Arrive r)
  next
    case 2
    with starving_flush [OF assms(1) 2(1) ok 2(2) buf] show ?thesis by (auto simp: Arrive r)
  next
    case 3
    have "unat (arr_seq a) \<notin> dom (pending (packets st))" using assms(3) by (simp add: Arrive)
    from fresh_flush [OF assms(1) ok(1) 3 this buf] 3 show ?thesis by (simp add: Arrive assms(4) r)
  qed
qed

interpretation turns: releasing_turns "take_turn peer timeout" offered
    "\<lambda>st. next_expected (sequence_flushed st)" "\<lambda>st. pending (packets st)" steady "turn_ok timeout"
  for peer timeout
proof unfold_locales
  show "pending (packets st) = Map.empty" if "steady st" "next_expected (sequence_flushed st) = 0" for st
    using that by (simp add: steady_def pending_simps)
qed (rule turn_releases [unfolded released_to_def])

subsection \<open>Runs of the thread\<close>

fun arrivals :: "turn list \<Rightarrow> arrival list" where
  "arrivals [] = []"
| "arrivals (Arrive a # ts) = a # arrivals ts"
| "arrivals (Idle _ _ _ # ts) = arrivals ts"

lemma set_arrivals: "a \<in> set (arrivals ts) \<longleftrightarrow> Arrive a \<in> set ts"
  by (induction ts rule: arrivals.induct) auto

lemma arrivals_append [simp]: "arrivals (us @ vs) = arrivals us @ arrivals vs"
  by (induction us rule: arrivals.induct) auto

lemma offered_SomeD: "offered t n = Some b \<Longrightarrow> \<exists>a. t = Arrive a \<and> n = unat (arr_seq a) \<and> b = arr_payload a"
  by (cases t) (auto split: if_splits)

lemma offers_disjoint:
  "distinct (map arr_seq (arrivals ts)) \<Longrightarrow> sorted_wrt (\<lambda>t u. dom (offered t) \<inter> dom (offered u) = {}) ts"
proof (induction ts rule: arrivals.induct)
  case (2 a ts)
  have "dom (offered (Arrive a)) \<inter> dom (offered u) = {}" if "u \<in> set ts" for u
    using "2.prems" that by (cases u) (auto simp: image_iff set_arrivals [symmetric] word_unat_eq_iff [symmetric])
  with 2 show ?case by simp
qed simp_all

lemma steady_init: "length buf = MAX_PKT_SIZE \<Longrightarrow> steady (init_gre2tun buf)"
  by (simp add: steady_def)

lemma fresh_run_init:
  assumes "length buf = MAX_PKT_SIZE" and "\<forall>t \<in> set ts. turn_ok timeout t"
    and "distinct (map arr_seq (arrivals ts))"
  shows "turns.fresh_run timeout ts (init_gre2tun buf)"
  using assms offers_disjoint [of ts] by (simp add: turns.fresh_run_def steady_init pending_simps)

text \<open>Packets may be lost, late or out of order and the line may fall silent: the thread runs on without a
  fault, and what it writes are packets that arrived, in strictly increasing order of their numbers, so none is
  written twice.\<close>

lemma lossy_run_increases:
  assumes "length buf = MAX_PKT_SIZE" and "\<forall>t \<in> set ts. turn_ok timeout t"
    and "distinct (map arr_seq (arrivals ts))"
  shows "\<exists>st' out ns. run_steps (take_turn peer timeout) ts (init_gre2tun buf) = Inr (st', out) \<and>
    sorted_wrt (<) ns \<and> set ns \<subseteq> {..<next_expected (sequence_flushed st')} \<and>
    list_all2 (\<lambda>n payload. \<exists>a \<in> set (arrivals ts). unat (arr_seq a) = n \<and> arr_payload a = payload) ns out"
proof -
  obtain st' out ns where r: "run_steps (take_turn peer timeout) ts (init_gre2tun buf) = Inr (st', out)"
    "sorted_wrt (<) ns" "set ns \<subseteq> {0..<next_expected (sequence_flushed st')}"
    "list_all2 (\<lambda>n b. pending [] n = Some b \<or> turns.pool ts n b) ns out"
    using turns.run_increases [OF fresh_run_init [OF assms], of peer] by auto
  have "list_all2 (\<lambda>n payload. \<exists>a \<in> set (arrivals ts). unat (arr_seq a) = n \<and> arr_payload a = payload) ns out"
    using r(4)
  proof (rule list_all2_mono)
    fix n b assume "pending [] n = Some b \<or> turns.pool ts n b"
    then obtain t where "t \<in> set ts" "offered t n = Some b" by (auto simp: pending_simps turns.pool_def)
    then show "\<exists>a \<in> set (arrivals ts). unat (arr_seq a) = n \<and> arr_payload a = b"
      using offered_SomeD [of t n b] by (auto simp: set_arrivals)
  qed
  with r show ?thesis by (auto simp: atLeast0LessThan)
qed

text \<open>The packet with the number 1 comes after its time: 2 was written without it.\<close>

definition lossy_run :: "turn list" where
  "lossy_run = [Arrive (example_arrival 0 [70]), Arrive (example_arrival 2 [72]),
     Idle True (Timeval 11 0) (Timeval 11 0), Arrive (example_arrival 1 [71]), Arrive (example_arrival 4 [74])]"

lemma lossy_run_ok: "\<forall>t \<in> set lossy_run. turn_ok (Timeval 0 250000) t" "distinct (map arr_seq (arrivals lossy_run))"
  by (simp_all add: lossy_run_def)
    (simp add: arrival_ok_def example_arrival_def arrival_size_ok_def arrival_in_time_def normalised_def micros_def)

text \<open>No packet that is in time is dropped: if its number was not passed when it arrived, then
  it is written when its number is passed, and waits until then.\<close>

theorem packet_in_time_is_written:
  assumes "length buf = MAX_PKT_SIZE" and "\<forall>t \<in> set (us @ Arrive a # vs). turn_ok timeout t"
    and "distinct (map arr_seq (arrivals (us @ Arrive a # vs)))"
  shows "\<exists>st1 out1 st2 out2. run_steps (take_turn peer timeout) us (init_gre2tun buf) = Inr (st1, out1) \<and>
    run_steps (take_turn peer timeout) (Arrive a # vs) st1 = Inr (st2, out2) \<and>
    ((arr_seq a = 0 \<or> 0 < next_expected (sequence_flushed st1)) \<and>
       next_expected (sequence_flushed st1) \<le> unat (arr_seq a) \<longrightarrow>
       (if unat (arr_seq a) < next_expected (sequence_flushed st2) then arr_payload a \<in> set out2
        else pending (packets st2) (unat (arr_seq a)) = Some (arr_payload a)))"
proof -
  obtain st1 out1 where 1: "run_steps (take_turn peer timeout) us (init_gre2tun buf) = Inr (st1, out1)"
    and f: "turns.fresh_run timeout (Arrive a # vs) st1"
    using turns.run_prefix [OF fresh_run_init [OF assms], of peer] by blast
  obtain st2 out2 where 2: "run_steps (take_turn peer timeout) (Arrive a # vs) st1 = Inr (st2, out2)"
    using turns.run_increases [OF f, of peer] by blast
  note turns.in_time_is_written [OF f _ _ _ 2, of "unat (arr_seq a)" "arr_payload a"]
  with 1 2 show ?thesis by auto
qed

theorem packet_in_time_is_written_witness:
  "\<exists>st1 out1 st2 out2. run_steps (take_turn (replicate 16 1) (Timeval 0 250000)) [] (init_gre2tun (replicate 1500 0)) = Inr (st1, out1) \<and>
    run_steps (take_turn (replicate 16 1) (Timeval 0 250000)) lossy_run st1 = Inr (st2, out2) \<and>
    (if 0 < next_expected (sequence_flushed st2) then [70] \<in> set out2 else pending (packets st2) 0 = Some [70])"
proof -
  have eq: "lossy_run = Arrive (example_arrival 0 [70]) # tl lossy_run" by (simp add: lossy_run_def)
  show ?thesis
    using packet_in_time_is_written [of "replicate 1500 0" "[]" "example_arrival 0 [70]" "tl lossy_run" "Timeval 0 250000"]
      lossy_run_ok eq by (auto simp del: run_steps.simps(2) cong: if_cong split del: if_split)
qed

end
