(* ===== verification/Promptness.thy ===== *)
theory Promptness
  imports Losses
begin

text \<open>
  Runs of the receiving thread in which no packet has to wait as long as the time-out. How long the run lasts does not matter,
  and the line may fall silent in between: a packet waits only while a packet with a smaller number is missing.
\<close>

subsection \<open>When nothing times out\<close>

fun turn_clock :: "turn \<Rightarrow> timeval option" where
  "turn_clock (Arrive a) = Some (arr_now a)"
| "turn_clock (Idle again stamp now) = (if again then Some now else None)"

definition numbers :: "arrival list \<Rightarrow> nat set" where
  "numbers as = (\<lambda>a. unat (arr_seq a)) ` set as"

text \<open>Some packet before \<open>b\<close> has not arrived yet.\<close>

definition in_gap :: "arrival list \<Rightarrow> arrival \<Rightarrow> bool" where
  "in_gap seen b \<longleftrightarrow> (\<exists>k < unat (arr_seq b). k \<notin> numbers seen)"

text \<open>At a turn that looks at the clock, every packet that has to wait has waited for less than the time-out.\<close>

definition patient :: "timeval \<Rightarrow> arrival list \<Rightarrow> turn \<Rightarrow> bool" where
  "patient timeout seen t \<longleftrightarrow>
     (case turn_clock t of
        None \<Rightarrow> True
      | Some now \<Rightarrow> normalised now \<and>
          (\<forall>b \<in> set seen. in_gap seen b \<longrightarrow> micros now - micros (arr_stamp b) < micros timeout))"

fun prompt_from :: "timeval \<Rightarrow> arrival list \<Rightarrow> turn list \<Rightarrow> bool" where
  "prompt_from timeout seen [] \<longleftrightarrow> True"
| "prompt_from timeout seen (t # ts) \<longleftrightarrow>
     patient timeout (seen @ arrivals [t]) t \<and> prompt_from timeout (seen @ arrivals [t]) ts"

abbreviation prompt :: "timeval \<Rightarrow> turn list \<Rightarrow> bool" where
  "prompt timeout ts \<equiv> prompt_from timeout [] ts"

definition avail :: "arrival list \<Rightarrow> nat \<rightharpoonup> bytes" where
  "avail as = map_of (map (\<lambda>a. (unat (arr_seq a), arr_payload a)) as)"

lemma dom_avail: "dom (avail as) = numbers as"
  by (simp add: avail_def numbers_def dom_map_of_conv_image_fst image_image)

lemma avail_append: "k \<in> numbers as \<Longrightarrow> avail (as @ bs) k = avail as k"
  by (auto simp: avail_def map_add_def dom_avail [unfolded avail_def, symmetric] split: option.split)

lemma numbers_append [simp]: "numbers (as @ bs) = numbers as \<union> numbers bs" "numbers [] = {}"
  "numbers [a] = {unat (arr_seq a)}"
  by (auto simp: numbers_def)

subsection \<open>The reorder buffer\<close>

text \<open>Whoever waits for a missing number has not timed out.\<close>

definition quiet :: "timeval \<Rightarrow> timeval \<Rightarrow> reorder_buffer_element list \<Rightarrow> nat \<Rightarrow> bool" where
  "quiet now timeout es n \<longleftrightarrow>
     (\<forall>e \<in> set es. \<forall>k \<in> {n..<unat (sequence e)}. live e \<and> k \<notin> waiting_numbers es \<longrightarrow> \<not> timed_out now timeout e)"

lemma process_without_skip:
  assumes inv: "buffer_inv es (next_expected f)" and started: "0 < next_expected f \<or> 0 \<in> waiting_numbers es"
    and quiet: "quiet now timeout es (next_expected f)"
    and run: "process_reorder_buffer now timeout es f = Inr (es', f', out)"
  shows "{next_expected f..<next_expected f'} \<subseteq> waiting_numbers es"
    and "\<forall>e \<in> set es'. live e \<longrightarrow> (\<exists>d \<in> set es. live d \<and> sequence d = sequence e \<and> timestamp d = timestamp e)"
proof -
  obtain es1 f1 out1 where r: "flush_all es f = Inr (es1, f1, out1)" and fl: "flushed es f es1 f1 out1"
    and c: "contiguous es f f1" and n: "next_expected f1 \<notin> waiting_numbers es1"
    using flush_all_spec [OF inv] by blast
  have le: "next_expected f \<le> next_expected f1" and es1: "es1 = map (mark_below (next_expected f1)) es"
    using fl by (simp_all add: flushed_def)
  have inv1: "buffer_inv es1 (next_expected f1)" by (rule buffer_inv_flushed [OF inv fl])
  have gap: "next_expected f1 \<notin> waiting_numbers es" using n by (simp add: es1 waiting_numbers_mark)
  have "\<not> timed_out now timeout d" if d: "d \<in> set es1" for d
  proof (cases "live d")
    case True
    obtain e where e: "e \<in> set es" "d = mark_below (next_expected f1) e" using d by (auto simp: es1)
    have "next_expected f1 \<le> unat (sequence d)"
      using inv1 d True by (auto simp: buffer_inv_def element_inv_def)
    moreover have "unat (sequence d) \<in> waiting_numbers es1" using d True by (auto simp: waiting_numbers_def)
    then have "unat (sequence d) \<noteq> next_expected f1" using n by metis
    ultimately have "next_expected f1 < unat (sequence e)" using e(2) by simp
    moreover have "live e" using True e(2) by simp
    ultimately have "\<not> timed_out now timeout e" using quiet e(1) le gap unfolding quiet_def by (meson atLeastLessThan_iff)
    moreover have "d = e" using True e(2) by (cases "live e \<and> unat (sequence e) < next_expected f1") (auto simp: mark_below_def)
    ultimately show ?thesis by simp
  next
    case False
    with inv1 d show ?thesis by (auto simp: buffer_inv_def dest: timed_out_live)
  qed
  then have "reorder_flush now timeout es f = Inr (es1, f1, out1)"
    by (subst reorder_flush.simps) (auto simp: r list_ex_iff)
  then have eqs: "es' = compact (drop_late f1 es1)" "f' = f1"
    using run by (auto simp: process_reorder_buffer_def)
  show "{next_expected f..<next_expected f'} \<subseteq> waiting_numbers es"
    using c by (simp add: eqs contiguous_def)
  have "0 < next_expected f1"
  proof (rule ccontr)
    assume "\<not> 0 < next_expected f1"
    with started le gap show False by simp
  qed
  then have "drop_late f1 es1 = es1" by (rule drop_late_id [OF inv1])
  then have "set es' \<subseteq> set es1" using compact_suffix [of es1] by (auto simp: eqs dest: in_set_dropD)
  then show "\<forall>e \<in> set es'. live e \<longrightarrow> (\<exists>d \<in> set es. live d \<and> sequence d = sequence e \<and> timestamp d = timestamp e)"
    by (fastforce simp: es1)
qed

lemma flush_prompt:
  assumes "length (rxbuf st) = MAX_PKT_SIZE" and "buffer_inv (packets st) (next_expected (sequence_flushed st))"
    and "0 < next_expected (sequence_flushed st) \<or> 0 \<in> waiting_numbers (packets st)"
    and "quiet now timeout (packets st) (next_expected (sequence_flushed st))"
  shows "\<exists>st' out. flush_buffer now timeout st = Inr (st', out) \<and> steady st' \<and>
    released_to st (pending (packets st)) st' out \<and>
    {next_expected (sequence_flushed st)..<next_expected (sequence_flushed st')} \<subseteq> dom (pending (packets st)) \<and>
    next_expected (sequence_flushed st') \<notin> dom (pending (packets st')) \<and>
    (\<forall>e \<in> set (packets st'). live e \<longrightarrow>
      (\<exists>d \<in> set (packets st). live d \<and> sequence d = sequence e \<and> timestamp d = timestamp e))"
proof -
  obtain es' f' out where p: "process_reorder_buffer now timeout (packets st) (sequence_flushed st) = Inr (es', f', out)"
    and i: "buffer_inv es' (next_expected f')" "next_expected (sequence_flushed st) \<le> next_expected f'" "0 < next_expected f'"
      "next_expected f' \<notin> dom (pending es')"
    and rel: "(map snd out, abs_buffer es' f') = release (next_expected f') (abs_buffer (packets st) (sequence_flushed st))"
    using process_reorder_buffer_spec [OF assms(2,3), of now timeout] by blast
  have c: "{next_expected (sequence_flushed st)..<next_expected f'} \<subseteq> dom (pending (packets st))"
    "\<forall>e \<in> set es'. live e \<longrightarrow> (\<exists>d \<in> set (packets st). live d \<and> sequence d = sequence e \<and> timestamp d = timestamp e)"
    using process_without_skip [OF assms(2,3,4) p] by (simp_all only: dom_pending)
  with i show ?thesis
    using assms(1) release_released [OF rel] by (simp add: flush_buffer_def p steady_def released_to_def)
qed

subsection \<open>Turns\<close>

text \<open>Up to the counter everything arrived, the next packet did not, and the buffer holds the rest of what arrived.\<close>

definition prompt_inv :: "arrival list \<Rightarrow> gre2tun \<Rightarrow> bool" where
  "prompt_inv seen st \<longleftrightarrow> steady st \<and>
     {..<next_expected (sequence_flushed st)} \<subseteq> numbers seen \<and> next_expected (sequence_flushed st) \<notin> numbers seen \<and>
     pending (packets st) = avail seen |` {next_expected (sequence_flushed st)..} \<and>
     (\<forall>e \<in> set (packets st). live e \<longrightarrow> (\<exists>a \<in> set seen. arr_seq a = sequence e \<and> arr_stamp a = timestamp e)) \<and>
     (\<forall>a \<in> set seen. normalised (arr_stamp a))"

lemma prompt_inv_init: "length buf = MAX_PKT_SIZE \<Longrightarrow> prompt_inv [] (init_gre2tun buf)"
  by (simp add: prompt_inv_def steady_init pending_simps avail_def restrict_map_def next_expected_def)

lemma prompt_flush:
  assumes "length (rxbuf st) = MAX_PKT_SIZE" and "buffer_inv (packets st) n" and "n = next_expected (sequence_flushed st)"
    and "{..<n} \<subseteq> numbers seen" and "0 \<in> numbers seen" and "pending (packets st) = avail seen |` {n..}"
    and "\<forall>e \<in> set (packets st). live e \<longrightarrow> (\<exists>a \<in> set seen. arr_seq a = sequence e \<and> arr_stamp a = timestamp e)"
    and "\<forall>a \<in> set seen. normalised (arr_stamp a)" and "normalised now" and "normalised timeout"
    and "\<forall>b \<in> set seen. in_gap seen b \<longrightarrow> micros now - micros (arr_stamp b) < micros timeout"
  shows "\<exists>st' out. flush_buffer now timeout st = Inr (st', out) \<and> prompt_inv seen st' \<and>
    n \<le> next_expected (sequence_flushed st') \<and>
    out = map (\<lambda>k. the (avail seen k)) [n..<next_expected (sequence_flushed st')]"
proof -
  have W: "waiting_numbers (packets st) = numbers seen \<inter> {n..}"
    by (simp add: dom_pending [symmetric] assms(6) dom_avail)
  have "\<not> timed_out now timeout e"
    if e: "e \<in> set (packets st)" "live e" and k: "n \<le> k" "k < unat (sequence e)" "k \<notin> waiting_numbers (packets st)" for e k
  proof -
    obtain a where a: "a \<in> set seen" "arr_seq a = sequence e" "arr_stamp a = timestamp e" using assms(7) e by blast
    have "k \<notin> numbers seen" using k by (simp add: W)
    then have "in_gap seen a" using k(2) a(2) by (auto simp: in_gap_def)
    then have "micros now - micros (timestamp e) < micros timeout" using assms(11) a by force
    moreover have "normalised (timestamp e)" using assms(8) a by metis
    ultimately show ?thesis
      using assms(9,10) by (simp add: timed_out_def timeval_le_iff_micros normalised_timersub micros_timersub)
  qed
  then have quiet: "quiet now timeout (packets st) (next_expected (sequence_flushed st))"
    unfolding quiet_def assms(3) by auto
  have started: "0 < next_expected (sequence_flushed st) \<or> 0 \<in> waiting_numbers (packets st)"
    using assms(3,5) by (auto simp: W)
  obtain st' out where r: "flush_buffer now timeout st = Inr (st', out)" "steady st'"
    "released_to st (pending (packets st)) st' out"
    "{n..<next_expected (sequence_flushed st')} \<subseteq> dom (pending (packets st))"
    "next_expected (sequence_flushed st') \<notin> dom (pending (packets st'))"
    "\<forall>e \<in> set (packets st'). live e \<longrightarrow>
      (\<exists>d \<in> set (packets st). live d \<and> sequence d = sequence e \<and> timestamp d = timestamp e)"
    using flush_prompt [OF assms(1) _ started quiet] assms(2) unfolding assms(3) by auto
  let ?n' = "next_expected (sequence_flushed st')"
  have le: "n \<le> ?n'" and p: "pending (packets st') = avail seen |` {?n'..}"
    using r(3) by (auto simp: released_to_def assms(3,6) restrict_map_def fun_eq_iff)
  have sub: "{n..<?n'} \<subseteq> numbers seen" using r(4) by (auto simp: dom_pending W)
  have "released n ?n' (pending (packets st)) = [n..<?n']"
    using r(4) by (auto simp: released_def filter_id_conv)
  then have "out = map (\<lambda>k. the (avail seen k)) [n..<?n']"
    using r(3) by (simp add: released_to_def assms(3) [symmetric]) (simp add: assms(6))
  moreover have "prompt_inv seen st'"
    unfolding prompt_inv_def
  proof (intro conjI)
    show "{..<?n'} \<subseteq> numbers seen"
    proof
      fix k assume "k \<in> {..<?n'}"
      then have "k \<in> {..<n} \<or> k \<in> {n..<?n'}" by auto
      with sub assms(4) show "k \<in> numbers seen" by blast
    qed
    show "?n' \<notin> numbers seen" using r(5) by (simp add: p dom_avail)
    show "\<forall>e \<in> set (packets st'). live e \<longrightarrow> (\<exists>a \<in> set seen. arr_seq a = sequence e \<and> arr_stamp a = timestamp e)"
      using r(6) assms(7) by metis
  qed (use r(2) p assms(8) in auto)
  ultimately show ?thesis using r(1) le by blast
qed

lemma numbers_notin: "unat (arr_seq a) \<notin> numbers seen \<Longrightarrow> avail (seen @ [a]) = (avail seen)(unat (arr_seq a) \<mapsto> arr_payload a)"
  by (auto simp: avail_def fun_eq_iff map_add_def dom_avail [unfolded avail_def, symmetric] split: option.split)

lemma prompt_turn:
  assumes "prompt_inv seen st" and "turn_ok timeout t" and "normalised timeout"
    and "patient timeout (seen @ arrivals [t]) t" and "arrivals [t] = [] \<or> 0 \<in> numbers (seen @ arrivals [t])"
    and "\<forall>a \<in> set (arrivals [t]). unat (arr_seq a) \<notin> numbers seen"
    and "n = next_expected (sequence_flushed st)"
  shows "\<exists>st' out. take_turn peer timeout t st = Inr (st', out) \<and> prompt_inv (seen @ arrivals [t]) st' \<and>
    n \<le> next_expected (sequence_flushed st') \<and>
    out = map (\<lambda>k. the (avail (seen @ arrivals [t]) k)) [n..<next_expected (sequence_flushed st')]"
proof (cases t)
  case (Idle again stamp now)
  note inv = assms(1) [unfolded prompt_inv_def, folded assms(7)]
  consider "\<not> again" | "again" "n = 0" | "again" "0 < n" by blast
  then show ?thesis
  proof cases
    case 1
    with assms(1,7) show ?thesis by (simp add: Idle gre2tun_iteration_def)
  next
    case 2
    then have "packets st = []" using inv assms(7) by (simp add: steady_def)
    then have "flush_buffer now timeout st = Inr (st, [])"
      using process_none [of "[]" "sequence_flushed st" now timeout]
      by (simp add: flush_buffer_def drop_late_def compact_def)
    with 2 assms(1,7) show ?thesis by (simp add: Idle gre2tun_iteration_def)
  next
    case 3
    have "length (rxbuf st) = MAX_PKT_SIZE" "buffer_inv (packets st) n" "0 \<in> numbers seen"
      using inv assms(7) 3(2) by (auto simp: steady_def)
    moreover have "normalised now" "\<forall>b \<in> set seen. in_gap seen b \<longrightarrow> micros now - micros (arr_stamp b) < micros timeout"
      using assms(4) 3(1) by (simp_all add: Idle patient_def)
    ultimately show ?thesis
      using prompt_flush [of st n seen now timeout] assms(3,7) inv 3(1) by (simp add: Idle gre2tun_iteration_def)
  qed
next
  case (Arrive a)
  have ok: "arrival_ok (arr_stamp a) timeout a" using assms(2) by (simp add: Arrive)
  then have a: "arrival_size_ok a" "unat (arr_seq a) < 2 ^ 32 - 1" "normalised (arr_stamp a)" "normalised (arr_now a)"
    by (simp_all add: arrival_ok_def arrival_in_time_def)
  note inv = assms(1) [unfolded prompt_inv_def, folded assms(7)]
  have st: "steady st" and fresh: "unat (arr_seq a) \<notin> numbers seen" using inv assms(6) by (simp_all add: Arrive)
  have ge: "n \<le> unat (arr_seq a)" using inv fresh by (meson lessThan_iff not_le subsetD)
  have np: "unat (arr_seq a) \<notin> dom (pending (packets st))" using inv fresh by (simp add: dom_avail)
  obtain buf where buf: "length buf = MAX_PKT_SIZE" and r: "receive peer timeout a st =
      flush_buffer (arr_now a) timeout (st\<lparr>rxbuf := buf, packets := packets st @ [buffered a]\<rparr>)"
    using receive_flush [OF st ok] .
  let ?st = "st\<lparr>rxbuf := buf, packets := packets st @ [buffered a]\<rparr>"
  have "buffer_inv (packets ?st) n"
    using st ge np a by (simp add: steady_def assms(7) buffer_inv_snoc)
  moreover have "pending (packets ?st) = avail (seen @ [a]) |` {n..}"
    using inv ge by (simp add: pending_snoc [OF np] numbers_notin [OF fresh])
  moreover have "\<forall>e \<in> set (packets ?st). live e \<longrightarrow> (\<exists>x \<in> set (seen @ [a]). arr_seq x = sequence e \<and> arr_stamp x = timestamp e)"
    using inv by (auto simp: buffered_def)
  moreover have "{..<n} \<subseteq> numbers (seen @ [a])" "0 \<in> numbers (seen @ [a])"
    "\<forall>x \<in> set (seen @ [a]). normalised (arr_stamp x)"
    using inv a(3) assms(5) by (auto simp: Arrive)
  moreover have "\<forall>b \<in> set (seen @ [a]). in_gap (seen @ [a]) b \<longrightarrow> micros (arr_now a) - micros (arr_stamp b) < micros timeout"
    using assms(4) by (simp add: Arrive patient_def)
  ultimately show ?thesis
    using prompt_flush [of ?st n "seen @ [a]" "arr_now a" timeout] buf a(4) assms(3,7) by (simp add: Arrive r)
qed

subsection \<open>Runs\<close>

lemma prompt_run:
  assumes "prompt_inv seen st" and "\<forall>t \<in> set ts. turn_ok timeout t" and "normalised timeout"
    and "prompt_from timeout seen ts" and "0 \<in> numbers seen \<or> arrivals ts = [] \<or> unat (arr_seq (hd (arrivals ts))) = 0"
    and "distinct (map arr_seq (arrivals ts))" and "\<forall>a \<in> set (arrivals ts). unat (arr_seq a) \<notin> numbers seen"
    and "n = next_expected (sequence_flushed st)"
  shows "\<exists>st' out. run_steps (take_turn peer timeout) ts st = Inr (st', out) \<and> prompt_inv (seen @ arrivals ts) st' \<and>
    n \<le> next_expected (sequence_flushed st') \<and>
    out = map (\<lambda>k. the (avail (seen @ arrivals ts) k)) [n..<next_expected (sequence_flushed st')]"
  using assms
proof (induction ts arbitrary: seen st n)
  case Nil
  then show ?case by simp
next
  case (Cons t ts)
  have split: "arrivals (t # ts) = arrivals [t] @ arrivals ts" by (cases t) simp_all
  let ?seen = "seen @ arrivals [t]"
  have start: "arrivals [t] = [] \<or> 0 \<in> numbers ?seen"
    using Cons.prems(5) by (cases t) auto
  obtain st1 out1 where 1: "take_turn peer timeout t st = Inr (st1, out1)" "prompt_inv ?seen st1"
    "n \<le> next_expected (sequence_flushed st1)"
    "out1 = map (\<lambda>k. the (avail ?seen k)) [n..<next_expected (sequence_flushed st1)]"
    using prompt_turn [OF Cons.prems(1) _ Cons.prems(3) _ start _ Cons.prems(8), of peer] Cons.prems(2,4,7)
    by (auto simp: split)
  have start': "0 \<in> numbers ?seen \<or> arrivals ts = [] \<or> unat (arr_seq (hd (arrivals ts))) = 0"
    using Cons.prems(5) by (cases t) auto
  have fresh: "\<forall>a \<in> set (arrivals ts). unat (arr_seq a) \<notin> numbers ?seen"
    using Cons.prems(6,7) by (cases t) (auto simp: word_unat_eq_iff [symmetric] image_iff)
  let ?n1 = "next_expected (sequence_flushed st1)"
  obtain st2 out2 where 2: "run_steps (take_turn peer timeout) ts st1 = Inr (st2, out2)"
    "prompt_inv (?seen @ arrivals ts) st2" "?n1 \<le> next_expected (sequence_flushed st2)"
    "out2 = map (\<lambda>k. the (avail (?seen @ arrivals ts) k)) [?n1..<next_expected (sequence_flushed st2)]"
    using Cons.IH [OF 1(2) _ Cons.prems(3) _ start' _ fresh refl] Cons.prems(2,4,6) by (auto simp: split)
  have "out1 = map (\<lambda>k. the (avail (?seen @ arrivals ts) k)) [n..<?n1]"
    using 1(2) avail_append [of _ ?seen "arrivals ts"] unfolding 1(4) prompt_inv_def by (intro map_cong refl) (auto dest: subsetD)
  moreover have "[n..<next_expected (sequence_flushed st2)] = [n..<?n1] @ [?n1..<next_expected (sequence_flushed st2)]"
    using 1(3) 2(3) by (metis le_add_diff_inverse upt_add_eq_append)
  ultimately show ?case using 1 2 by (simp add: split)
qed

text \<open>C19: A thread that was just started writes exactly the packets before the first number that did not arrive, each once
  and in the order of their numbers, however long the run is and whatever the order of arrival, if the number zero
  arrives first, no number arrives twice, and at no turn a packet behind a gap has waited for the whole time-out.\<close>

theorem run_writes_contiguous_prefix:
  assumes "length buf = MAX_PKT_SIZE" and "\<forall>t \<in> set ts. turn_ok timeout t" and "normalised timeout"
    and "prompt timeout ts" and "distinct (map arr_seq (arrivals ts))"
    and "arrivals ts = [] \<or> arr_seq (hd (arrivals ts)) = 0"
  shows "\<exists>st' m. run_steps (take_turn peer timeout) ts (init_gre2tun buf) =
      Inr (st', map (\<lambda>n. the (avail (arrivals ts) n)) [0..<m]) \<and>
    {..<m} \<subseteq> numbers (arrivals ts) \<and> m \<notin> numbers (arrivals ts)"
proof -
  have start: "0 \<in> numbers [] \<or> arrivals ts = [] \<or> unat (arr_seq (hd (arrivals ts))) = 0" using assms(6) by auto
  have n: "0 = next_expected (sequence_flushed (init_gre2tun buf))" by (simp add: next_expected_def)
  have fresh: "\<forall>a \<in> set (arrivals ts). unat (arr_seq a) \<notin> numbers []" by simp
  show ?thesis
    using prompt_run [OF prompt_inv_init [OF assms(1)] assms(2-4) start assms(5) fresh n, of peer]
    by (auto simp: prompt_inv_def)
qed

text \<open>A run of a minute and a half: a packet, silence, two packets in the wrong order, and one behind a gap.\<close>

definition arrival_at :: "int \<Rightarrow> int \<Rightarrow> u32 \<Rightarrow> bytes \<Rightarrow> arrival" where
  "arrival_at sec usec n payload = (example_arrival n payload)\<lparr>arr_stamp := Timeval sec usec, arr_now := Timeval sec (usec + 1)\<rparr>"

definition long_run :: "turn list" where
  "long_run = [Arrive (arrival_at 10 0 0 [70]), Idle True (Timeval 60 0) (Timeval 60 0),
     Arrive (arrival_at 100 0 2 [72]), Idle True (Timeval 100 100000) (Timeval 100 100000), Arrive (arrival_at 100 200000 1 [71])]"

lemma arrival_at_simps [simp]:
  "arr_seq (arrival_at sec usec n payload) = n" "arr_payload (arrival_at sec usec n payload) = payload"
  "arr_stamp (arrival_at sec usec n payload) = Timeval sec usec" "arr_now (arrival_at sec usec n payload) = Timeval sec (usec + 1)"
  by (simp_all add: arrival_at_def)

lemma long_run_ok: "\<forall>t \<in> set long_run. turn_ok (Timeval 0 250000) t" "prompt (Timeval 0 250000) long_run"
  by (simp_all add: long_run_def)
    (auto simp: arrival_ok_def arrival_size_ok_def arrival_in_time_def normalised_def micros_def patient_def
      in_gap_def numbers_def)

theorem run_writes_contiguous_prefix_witness:
  "\<exists>st'. run_steps (take_turn (replicate 16 0) (Timeval 0 250000)) (long_run @ [Arrive (arrival_at 300 0 4 [74])])
       (init_gre2tun (replicate 1500 0)) = Inr (st', [[70], [71], [72]])"
proof -
  let ?ts = "long_run @ [Arrive (arrival_at 300 0 4 [74])]"
  have a: "arrivals ?ts = [arrival_at 10 0 0 [70], arrival_at 100 0 2 [72], arrival_at 100 200000 1 [71], arrival_at 300 0 4 [74]]"
    by (simp add: long_run_def)
  have ok: "\<forall>t \<in> set ?ts. turn_ok (Timeval 0 250000) t" "prompt (Timeval 0 250000) ?ts"
    using long_run_ok
    by (simp_all add: long_run_def)
      (auto simp: arrival_ok_def arrival_size_ok_def arrival_in_time_def normalised_def micros_def patient_def
        in_gap_def numbers_def)
  obtain st' m where r: "run_steps (take_turn (replicate 16 0) (Timeval 0 250000)) ?ts (init_gre2tun (replicate 1500 0)) =
      Inr (st', map (\<lambda>n. the (avail (arrivals ?ts) n)) [0..<m])"
    and m: "{..<m} \<subseteq> {0, 2, 1, 4}" "m \<notin> {0, 2, 1, 4}"
    using run_writes_contiguous_prefix [OF _ ok(1) _ ok(2), of "replicate 1500 0" "replicate 16 0"]
    unfolding a by (auto simp: normalised_def numbers_def)
  have "m \<le> 3" using subsetD [OF m(1), of 3] by (cases "3 < m") auto
  with m(2) have "m = 3" by auto
  with r show ?thesis unfolding a by (auto simp: avail_def upt_rec)
qed

text \<open>If the arrivals are all the packets of a sequence, then the whole sequence is written.\<close>

lemma prompt_delivery:
  assumes "length buf = MAX_PKT_SIZE" and "\<forall>t \<in> set ts. turn_ok timeout t" and "normalised timeout"
    and "prompt timeout ts"
    and "mset (map (\<lambda>a. (unat (arr_seq a), arr_payload a)) (arrivals ts)) = mset (enumerate 0 sent)"
    and "arrivals ts = [] \<or> arr_seq (hd (arrivals ts)) = 0"
  shows "\<exists>st'. run_steps (take_turn peer timeout) ts (init_gre2tun buf) = Inr (st', sent)"
proof -
  let ?kv = "map (\<lambda>a. (unat (arr_seq a), arr_payload a)) (arrivals ts)"
  have "mset (map fst ?kv) = mset (map fst (enumerate 0 sent))"
    using assms(5) by (simp only: mset_map)
  then have keys: "mset (map (\<lambda>a. unat (arr_seq a)) (arrivals ts)) = mset [0..<length sent]"
    by (simp add: comp_def)
  then have d: "distinct (map (\<lambda>a. unat (arr_seq a)) (arrivals ts))"
    using mset_eq_imp_distinct_iff distinct_upt by blast
  then have d': "distinct (map arr_seq (arrivals ts))" by (auto simp: distinct_map inj_on_def)
  have nums: "numbers (arrivals ts) = {0..<length sent}"
    using mset_eq_setD [OF keys] by (simp add: numbers_def)
  have val: "avail (arrivals ts) n = Some (sent ! n)" if "n < length sent" for n
    unfolding avail_def
  proof (rule map_of_is_SomeI)
    show "distinct (map fst ?kv)" using d by (simp add: comp_def)
    have "(n, sent ! n) \<in> set (enumerate 0 sent)" using that by (auto simp: in_set_enumerate_eq)
    then show "(n, sent ! n) \<in> set ?kv" using mset_eq_setD [OF assms(5)] by simp
  qed
  have start: "0 \<in> numbers [] \<or> arrivals ts = [] \<or> unat (arr_seq (hd (arrivals ts))) = 0" using assms(6) by auto
  have n: "0 = next_expected (sequence_flushed (init_gre2tun buf))" by (simp add: next_expected_def)
  have fresh: "\<forall>a \<in> set (arrivals ts). unat (arr_seq a) \<notin> numbers []" by simp
  obtain st' out where r: "run_steps (take_turn peer timeout) ts (init_gre2tun buf) = Inr (st', out)"
    and m: "{..<next_expected (sequence_flushed st')} \<subseteq> {0..<length sent}"
      "next_expected (sequence_flushed st') \<notin> {0..<length sent}"
    and out: "out = map (\<lambda>k. the (avail (arrivals ts) k)) [0..<next_expected (sequence_flushed st')]"
    using prompt_run [OF prompt_inv_init [OF assms(1)] assms(2-4) start d' fresh n, of peer]
    by (auto simp: prompt_inv_def nums)
  have "next_expected (sequence_flushed st') = length sent"
    using m(2) subsetD [OF m(1), of "length sent"] by (cases "length sent < next_expected (sequence_flushed st')") auto
  then have "out = map (\<lambda>n. sent ! n) [0..<length sent]" unfolding out using val by simp
  with r show ?thesis by (simp add: map_nth)
qed

end
