(* ===== verification/Composition.thy ===== *)
theory Composition
  imports Main_Loop Promptness
begin

text \<open>
  The receiving thread inside the process. A run of the process interleaves its turns with those of the
  main loop and of the sending thread; projected to the receiving thread it is a run of that thread alone,
  so its guarantees hold whatever the other threads do in between.
\<close>

subsection \<open>The turns of one thread\<close>

fun downloads :: "event list \<Rightarrow> (gre_input \<times> timeval \<times> timeval) list" where
  "downloads [] = []"
| "downloads (Download inp stamp now # es) = (inp, stamp, now) # downloads es"
| "downloads (Control w inp # es) = downloads es"
| "downloads (Signal sig # es) = downloads es"
| "downloads (Upload w data # es) = downloads es"

definition download_turn :: "in6_addr \<Rightarrow> timeval \<Rightarrow> gre_input \<times> timeval \<times> timeval \<Rightarrow> gre2tun \<Rightarrow>
    fault + (gre2tun \<times> bytes list)" where
  "download_turn peer timeout d st = (case d of (inp, stamp, now) \<Rightarrow> gre2tun_iteration peer timeout inp stamp now st)"

text \<open>As long as the server keeps its address. An accept message may give it another one.\<close>

definition server_stays :: "in6_addr \<Rightarrow> process \<Rightarrow> event list \<Rightarrow> bool" where
  "server_stays peer p es \<longleftrightarrow>
     (\<forall>us vs r. es = us @ vs \<longrightarrow> steps p us r \<longrightarrow> haap_ip (haap (rt (proc r))) = peer)"

lemma server_stays_first: "server_stays peer p es \<Longrightarrow> haap_ip (haap (rt (proc p))) = peer"
  using steps_refl [of p] by (auto simp: server_stays_def)

lemma server_stays_step:
  assumes "server_stays peer p (e # es)" and "exited (proc p) = None" and "process_step e p = Inr q"
  shows "server_stays peer q es"
  unfolding server_stays_def
proof (intro allI impI)
  fix us vs r
  assume "es = us @ vs" and "steps q us r"
  then have "e # es = (e # us) @ vs" and "steps p (e # us) r" using assms(2,3) steps_step by auto
  with assms(1) show "haap_ip (haap (rt (proc r))) = peer" unfolding server_stays_def by blast
qed

lemma process_step_timeout:
  assumes "process_step e p = Inr q"
  shows "reorder_buffer_timeout (rt (proc q)) = reorder_buffer_timeout (rt (proc p))"
proof -
  have "configured (rt (proc p)) (rt (proc p))" by (simp add: configured_def)
  from configured_loop.process_step_keeps [OF assms this] show ?thesis by (simp add: configured_def)
qed

lemma other_threads:
  assumes "process_step e p = Inr q" and "downloads [e] = []"
  shows "receiver q = receiver p \<and> tunout q = tunout p"
  using assms by (cases e) (auto simp: bind_res_eq_Inr split: if_splits)

lemma receiver_projection:
  assumes "steps p es q" and "devices_up (proc p)" and "server_stays peer p es"
  shows "\<exists>out. run_steps (download_turn peer (reorder_buffer_timeout (rt (proc p)))) (downloads es) (receiver p) =
      Inr (receiver q, out) \<and> tunout q = tunout p @ out"
  using assms
proof (induction rule: steps.induct)
  case (steps_refl p)
  then show ?case by simp
next
  case (steps_step p e q es r)
  let ?to = "reorder_buffer_timeout (rt (proc p))"
  have up: "devices_up (proc q)" using process_step_devices [OF steps_step(2,5)] ..
  have to: "reorder_buffer_timeout (rt (proc q)) = ?to"
    by (rule process_step_timeout [OF steps_step(2)])
  obtain out where r: "run_steps (download_turn peer ?to) (downloads es) (receiver q) = Inr (receiver r, out)"
    and o: "tunout r = tunout q @ out"
    using steps_step.IH [OF up server_stays_step [OF steps_step(6,1,2)]] by (auto simp: to)
  show ?case
  proof (cases e)
    case (Download inp stamp now)
    have "gre2tun_thread (rt (proc p)) \<noteq> 0" using steps_step(5) by (simp add: devices_up_def)
    with steps_step(2) obtain out1 where "download_turn peer ?to (inp, stamp, now) (receiver p) = Inr (receiver q, out1)"
      and "tunout q = tunout p @ out1"
      using server_stays_first [OF steps_step(6)]
      by (auto simp: Download download_turn_def bind_res_eq_Inr)
    with r o show ?thesis by (simp add: Download)
  next
    case (Control w inp)
    then show ?thesis using other_threads [OF steps_step(2)] r o by simp
  next
    case (Signal sig)
    then show ?thesis using other_threads [OF steps_step(2)] r o by simp
  next
    case (Upload w data)
    then show ?thesis using other_threads [OF steps_step(2)] r o by simp
  qed
qed

text \<open>Conversely a run of the thread is a run of the process.\<close>

definition as_event :: "gre_input \<times> timeval \<times> timeval \<Rightarrow> event" where
  "as_event d = (case d of (inp, stamp, now) \<Rightarrow> Download inp stamp now)"

lemma downloads_as_event [simp]: "downloads (map as_event ds) = ds"
  by (induction ds) (auto simp: as_event_def)

definition running :: "in6_addr \<Rightarrow> timeval \<Rightarrow> process \<Rightarrow> bool" where
  "running peer timeout p \<longleftrightarrow> exited (proc p) = None \<and> gre2tun_thread (rt (proc p)) \<noteq> 0 \<and>
     length (tunnel_interface_name (rt (proc p))) < 9 \<and>
     haap_ip (haap (rt (proc p))) = peer \<and> reorder_buffer_timeout (rt (proc p)) = timeout"

lemma steps_downloads:
  assumes "running peer timeout p" and "run_steps (download_turn peer timeout) ds (receiver p) = Inr (st, out)"
  shows "\<exists>q. steps p (map as_event ds) q \<and> receiver q = st \<and> tunout q = tunout p @ out"
  using assms
proof (induction ds arbitrary: p out)
  case Nil
  then show ?case by (auto simp: steps_Nil)
next
  case (Cons d ds)
  obtain inp stamp now where d: "d = (inp, stamp, now)" by (cases d) auto
  from Cons.prems(2) obtain st1 out1 out2 where 1: "download_turn peer timeout d (receiver p) = Inr (st1, out1)"
    and 2: "run_steps (download_turn peer timeout) ds st1 = Inr (st, out2)" and out: "out = out1 @ out2"
    by (auto simp: bind_res_eq_Inr)
  obtain n where name: "enter_thread (gre2tun_thread_name (fst (trim_rest p)) (tunnel_interface_name (rt (proc p))))
      (receiver_name p) = Inr n"
    using enter_thread_defined(1) [OF disjI1] Cons.prems(1) unfolding running_def by blast
  let ?q = "p\<lparr>receiver_name := Some n, receiver := st1, tunout := tunout p @ out1\<rparr>"
  have step: "process_step (as_event d) p = Inr ?q"
    using 1 Cons.prems(1) name by (simp add: d as_event_def download_turn_def running_def)
  have "running peer timeout ?q" using Cons.prems(1) by (simp add: running_def)
  from Cons.IH [OF this] 2 obtain r where "steps ?q (map as_event ds) r" "receiver r = st" "tunout r = tunout p @ out"
    by (auto simp: out)
  with step show ?case using Cons.prems(1) by (auto simp: running_def intro: steps_step)
qed

fun is_control :: "event \<Rightarrow> bool" where
  "is_control (Control w inp) = True"
| "is_control e = False"

lemma no_control_step:
  assumes "process_step e p = Inr q" and "\<not> is_control e"
  shows "haap (rt (proc q)) = haap (rt (proc p))"
  using assms upload_frame by (cases e) (fastforce simp: bind_res_eq_Inr handle_signal_def split: if_splits)+

lemma no_control: "steps p es q \<Longrightarrow> \<not> list_ex is_control es \<Longrightarrow> haap (rt (proc q)) = haap (rt (proc p))"
proof (induction rule: steps.induct)
  case (steps_step p e q es r)
  then show ?case using no_control_step [OF steps_step(2)] by simp
qed simp

lemma server_stays_without_control:
  "\<not> list_ex is_control es \<Longrightarrow> haap_ip (haap (rt (proc p))) = peer \<Longrightarrow> server_stays peer p es"
  unfolding server_stays_def using no_control [of p] by (metis list_ex_append)

lemma as_event_no_control [simp]: "\<not> list_ex is_control (map as_event ds)"
  by (induction ds) (auto simp: as_event_def)

subsection \<open>Delivery by the process\<close>

definition turn_input :: "in6_addr \<Rightarrow> turn \<Rightarrow> gre_input \<times> timeval \<times> timeval" where
  "turn_input peer t = (case t of
     Arrive a \<Rightarrow> (Received peer (gre_packet (arr_key a) (arr_proto a) (arr_seq a) True (arr_payload a)), arr_stamp a, arr_now a)
   | Idle again stamp now \<Rightarrow> (Nothing_Received again, stamp, now))"

lemma download_turn_input: "download_turn peer timeout (turn_input peer t) = take_turn peer timeout t"
  by (rule ext) (simp add: download_turn_def turn_input_def receive_def split: turn.split)

lemma take_turn_Arrive [simp]: "take_turn peer timeout (Arrive a) = receive peer timeout a"
  by (rule ext) simp

lemma run_steps_map: "run_steps step (map f ps) = run_steps (\<lambda>p. step (f p)) ps"
proof (rule ext)
  show "run_steps step (map f ps) s = run_steps (\<lambda>p. step (f p)) ps s" for s
    by (induction ps arbitrary: s) simp_all
qed

lemma process_run:
  assumes "steps p es q" and "devices_up (proc p)" and "server_stays peer p es"
    and "downloads es = map (turn_input peer) ts"
  shows "\<exists>out. run_steps (take_turn peer (reorder_buffer_timeout (rt (proc p)))) ts (receiver p) =
      Inr (receiver q, out) \<and> tunout q = tunout p @ out"
  using receiver_projection [OF assms(1-3)] unfolding assms(4) run_steps_map download_turn_input .

lemma process_delivery:
  assumes "steps p es q" and "devices_up (proc p)" and "server_stays peer p es"
    and "receiver p = init_gre2tun buf" and "array_ok buf"
    and "downloads es = map (turn_input peer) ts"
    and "normalised (reorder_buffer_timeout (rt (proc p)))"
    and "\<forall>t \<in> set ts. turn_ok (reorder_buffer_timeout (rt (proc p))) t"
    and "prompt (reorder_buffer_timeout (rt (proc p))) ts"
    and "mset (map (\<lambda>a. (unat (arr_seq a), arr_payload a)) (arrivals ts)) = mset (enumerate 0 sent)"
    and "arrivals ts = [] \<or> arr_seq (hd (arrivals ts)) = 0"
  shows "tunout q = tunout p @ sent"
proof -
  have "length buf = MAX_PKT_SIZE" using assms(5) by (simp add: array_ok_def)
  from prompt_delivery [OF this assms(8,7,9,10,11), of peer] process_run [OF assms(1,2,3,6)]
  show ?thesis by (auto simp: assms(4))
qed

text \<open>C2: The whole process delivers a session in order, however long it lasts, with the line silent in between and whatever the
  other threads do meanwhile: if no packet of the session is lost or duplicated, the first one comes first, the
  server keeps its address, and no packet has to wait for the whole time-out for one with a smaller number, then
  what is handed to the tun device are the packets in the order in which they were numbered.\<close>

theorem process_delivers_in_order:
  assumes "steps p es q" and "devices_up (proc p)" and "server_stays peer p es"
    and "receiver p = init_gre2tun buf" and "array_ok buf"
    and "downloads es = map (turn_input peer) ts"
    and "normalised (reorder_buffer_timeout (rt (proc p)))"
    and "\<forall>t \<in> set ts. turn_ok (reorder_buffer_timeout (rt (proc p))) t"
    and "prompt (reorder_buffer_timeout (rt (proc p))) ts"
    and "mset (map (\<lambda>a. (unat (arr_seq a), arr_payload a)) (arrivals ts)) = mset (enumerate 0 sent)"
    and "arrivals ts = [] \<or> arr_seq (hd (arrivals ts)) = 0"
  shows "tunout q = tunout p @ sent"
  using assms by (rule process_delivery)

text \<open>A session that runs, and a signal in the middle of its packets.\<close>

definition session_example :: process where
  "session_example = initial (replicate 1500 0) (replicate 1500 0) (replicate 1500 0) zero_rest
     (second_session\<lparr>rt := (rt second_session)\<lparr>reorder_buffer_timeout := Timeval 0 250000\<rparr>\<rparr>)"

lemma session_example_simps [simp]:
  "receiver session_example = init_gre2tun (replicate 1500 0)" "tunout session_example = []"
  "reorder_buffer_timeout (rt (proc session_example)) = Timeval 0 250000"
  "haap_ip (haap (rt (proc session_example))) = in6addr_any" "devices_up (proc session_example)"
  "exited (proc session_example) = None"
  by (simp_all add: session_example_def initial_def devices_up_def second_session_def zero_haap_def init_sys_def)

lemma session_example_running: "running in6addr_any (Timeval 0 250000) (session_example\<lparr>proc := handle_signal sig (proc session_example)\<rparr>)"
  by (simp add: running_def handle_signal_def session_example_def initial_def second_session_def zero_haap_def init_sys_def
      zero_runtime_def)

lemma session_example_steps:
  assumes "run_steps (take_turn in6addr_any (Timeval 0 250000)) ts (init_gre2tun (replicate 1500 0)) = Inr (st, out)"
  shows "\<exists>q. steps session_example (Signal 1 # map as_event (map (turn_input in6addr_any) ts)) q \<and> tunout q = out"
proof -
  let ?q = "session_example\<lparr>proc := handle_signal 1 (proc session_example)\<rparr>"
  have "run_steps (download_turn in6addr_any (Timeval 0 250000)) (map (turn_input in6addr_any) ts) (receiver ?q) = Inr (st, out)"
    using assms by (simp add: run_steps_map download_turn_input)
  from steps_downloads [OF session_example_running this] obtain q
    where "steps ?q (map as_event (map (turn_input in6addr_any) ts)) q" "tunout q = out"
    by (auto simp del: map_map)
  moreover from this(1) have "steps session_example (Signal 1 # map as_event (map (turn_input in6addr_any) ts)) q"
    by (intro steps_step) simp_all
  ultimately show ?thesis by blast
qed

lemma session_example_stays: "server_stays in6addr_any session_example (Signal 1 # map as_event ds)"
  by (rule server_stays_without_control) simp_all

theorem process_delivers_in_order_witness:
  "\<exists>q. steps session_example (Signal 1 # map as_event (map (turn_input in6addr_any) long_run)) q \<and>
     tunout q = [[70], [71], [72]]"
proof -
  let ?es = "Signal 1 # map as_event (map (turn_input in6addr_any) long_run)"
  have d: "distinct (map arr_seq (arrivals long_run))" by (simp add: long_run_def)
  obtain st out where "run_steps (take_turn in6addr_any (Timeval 0 250000)) long_run (init_gre2tun (replicate 1500 0)) = Inr (st, out)"
    using lossy_run_increases [OF _ long_run_ok(1) d, of "replicate 1500 0" in6addr_any] by auto
  then obtain q where q: "steps session_example ?es q" using session_example_steps by blast
  have "mset (map (\<lambda>a. (unat (arr_seq a), arr_payload a)) (arrivals long_run)) = mset (enumerate 0 [[70], [71], [72]])"
    "arr_seq (hd (arrivals long_run)) = 0"
    by (simp_all add: long_run_def)
  then have "tunout q = tunout session_example @ [[70], [71], [72]]"
    by (intro process_delivers_in_order [OF q _ session_example_stays session_example_simps(1), where ts = long_run])
      (use long_run_ok in \<open>simp_all add: array_ok_def normalised_def del: map_map\<close>)
  with q show ?thesis by auto
qed

text \<open>
  C13: Nor does the process ever hand a packet twice to the tun device, or an older one after a newer one, when packets
  are lost or late and the line falls silent: with a server that keeps its address and numbers that do not come twice, what
  was handed over since the session
  began are packets that arrived, in strictly increasing order of their numbers.
\<close>

theorem process_writes_increasing:
  assumes "steps p es q" and "devices_up (proc p)" and "server_stays peer p es"
    and "receiver p = init_gre2tun buf" and "array_ok buf" and "tunout p = []"
    and "downloads es = map (turn_input peer) ts"
    and "\<forall>t \<in> set ts. turn_ok (reorder_buffer_timeout (rt (proc p))) t"
    and "distinct (map arr_seq (arrivals ts))"
  shows "\<exists>ns. sorted_wrt (<) ns \<and>
    list_all2 (\<lambda>n payload. \<exists>a \<in> set (arrivals ts). unat (arr_seq a) = n \<and> arr_payload a = payload) ns (tunout q)"
proof -
  have "length buf = MAX_PKT_SIZE" using assms(5) by (simp add: array_ok_def)
  from lossy_run_increases [OF this assms(8,9), of peer] process_run [OF assms(1,2,3,7)]
  show ?thesis by (auto simp: assms(4,6))
qed

theorem process_writes_increasing_witness:
  "\<exists>q ns. steps session_example (Signal 1 # map as_event (map (turn_input in6addr_any) lossy_run)) q \<and>
     sorted_wrt (<) ns \<and> list_all2 (\<lambda>n payload. \<exists>a \<in> set (arrivals lossy_run).
       unat (arr_seq a) = n \<and> arr_payload a = payload) ns (tunout q)"
proof -
  obtain st out where "run_steps (take_turn in6addr_any (Timeval 0 250000)) lossy_run (init_gre2tun (replicate 1500 0)) = Inr (st, out)"
    using lossy_run_increases [OF _ lossy_run_ok, of "replicate 1500 0" in6addr_any] by auto
  then obtain q where q: "steps session_example (Signal 1 # map as_event (map (turn_input in6addr_any) lossy_run)) q"
    using session_example_steps by blast
  have "\<exists>ns. sorted_wrt (<) ns \<and> list_all2 (\<lambda>n payload. \<exists>a \<in> set (arrivals lossy_run).
      unat (arr_seq a) = n \<and> arr_payload a = payload) ns (tunout q)"
    using lossy_run_ok
    by (intro process_writes_increasing [OF q _ session_example_stays session_example_simps(1)]) (simp_all add: array_ok_def del: map_map)
  with q show ?thesis by blast
qed

end
