(* ===== verification/Sender.thy ===== *)
theory Sender
  imports Tun2gre
begin

text \<open>
  What the sending thread guarantees: through which tunnel packets leave, how they are numbered,
  which packets are lost and which ones overflow the packet array of \<open>send_gre\<close>.
\<close>

subsection \<open>One packet\<close>

definition ip_packet :: "bytes \<Rightarrow> bool" where
  "ip_packet data \<longleftrightarrow> data \<noteq> [] \<and> etherproto_of data \<noteq> None"

lemma byte_at_append: "i < length xs \<Longrightarrow> byte_at (xs @ ys) i = byte_at xs i"
  by (simp add: byte_at_def)

lemma etherproto_of_append: "xs \<noteq> [] \<Longrightarrow> etherproto_of (xs @ ys) = etherproto_of xs"
  by (simp add: etherproto_of_def ip_version_def byte_at_append)

lemma etherproto_of_take: "xs \<noteq> [] \<Longrightarrow> etherproto_of (take MAX_PKT_SIZE xs) = etherproto_of xs"
  by (cases xs) (simp_all add: etherproto_of_def ip_version_def byte_at_def)

text \<open>The packet array holds the headers and \<open>MAX_PKT_SIZE - 12\<close> bytes of payload.\<close>

lemma send_gre_eq:
  "send_gre w tuntype proto seq True payload s =
     (if MAX_PKT_SIZE - 12 < length payload then Inl Buffer_Overflow
      else Inr (emit (Sendmsg_Gre
        (if tuntype = GRECP_TUNTYPE_LTE then interface_ip (lte (rt s)) else interface_ip (dsl (rt s)))
        (haap_ip (haap (rt s))) (gre_packet (bonding_key (haap (rt s))) proto seq True payload)
        (fst (ask_ok w s))) (snd (ask_ok w s))))"
  by (simp add: send_gre_def Let_def case_prod_beta)

lemma iteration_silent:
  assumes "data = [] \<or> etherproto_of data = None \<or> \<not> tunnel_established (lte (rt s))"
  shows "\<exists>buf. tun2gre_iteration w data t s = Inr (t\<lparr>txbuf := buf\<rparr>, s)"
proof (cases "data = []")
  case True
  then show ?thesis by (intro exI [of _ "txbuf t"]) (simp add: tun2gre_iteration_def)
next
  case False
  with assms show ?thesis
    by (auto simp: tun2gre_iteration_def Let_def etherproto_of_append etherproto_of_take split: option.split)
qed

lemma iteration_sends:
  assumes "data \<noteq> []" and "etherproto_of data = Some proto" and "tunnel_established (lte (rt s))"
  shows "\<exists>buf. tun2gre_iteration w data t s =
    bind_res (send_gre w GRECP_TUNTYPE_LTE proto (next_sequence t) True (take MAX_PKT_SIZE data) s)
      (\<lambda>s. Inr (\<lparr>txbuf = buf, next_sequence = next_sequence t + 1\<rparr>, s))"
  using assms by (cases t) (auto simp: tun2gre_iteration_def Let_def etherproto_of_append etherproto_of_take)

lemma iteration_sent:
  assumes "ip_packet data" and "tunnel_established (lte (rt s))" and "length data \<le> MAX_PKT_SIZE - 12"
  shows "\<exists>buf. tun2gre_iteration w data t s =
    Inr (\<lparr>txbuf = buf, next_sequence = next_sequence t + 1\<rparr>,
      emit (Sendmsg_Gre (interface_ip (lte (rt s))) (haap_ip (haap (rt s)))
        (gre_packet (bonding_key (haap (rt s))) (the (etherproto_of data)) (next_sequence t) True data)
        (env_ok w (tick s))) (s\<lparr>tick := Suc (tick s)\<rparr>))"
proof -
  from assms(1) obtain proto where "data \<noteq> []" "etherproto_of data = Some proto"
    by (auto simp: ip_packet_def)
  with iteration_sends [OF this assms(2), of w t] assms(3) show ?thesis
    by (auto simp: send_gre_eq ask_ok_def)
qed

text \<open>C36: Every packet is sent through the LTE tunnel, with the next number, or not at all: with
  the LTE tunnel down all uploads are dropped, even while the DSL tunnel is up, because the
  classification is overruled by \<open>is_dhcp = true\<close>.\<close>

theorem upload_uses_lte_only:
  assumes "tun2gre_iteration w data t s = Inr (t', s')"
  shows "(trace s' = trace s \<and> next_sequence t' = next_sequence t \<and> rt s' = rt s \<and>
      (ip_packet data \<longrightarrow> \<not> tunnel_established (lte (rt s)))) \<or>
    (tunnel_established (lte (rt s)) \<and> ip_packet data \<and> next_sequence t' = next_sequence t + 1 \<and>
     rt s' = rt s \<and>
     (\<exists>ok. trace s' = trace s @ [Sendmsg_Gre (interface_ip (lte (rt s))) (haap_ip (haap (rt s)))
        (gre_packet (bonding_key (haap (rt s))) (the (etherproto_of data)) (next_sequence t) True
          (take MAX_PKT_SIZE data)) ok]))"
proof (cases "ip_packet data \<and> tunnel_established (lte (rt s))")
  case True
  then obtain proto where p: "data \<noteq> []" "etherproto_of data = Some proto" "tunnel_established (lte (rt s))"
    by (auto simp: ip_packet_def)
  obtain buf where "tun2gre_iteration w data t s =
      bind_res (send_gre w GRECP_TUNTYPE_LTE proto (next_sequence t) True (take MAX_PKT_SIZE data) s)
        (\<lambda>s. Inr (\<lparr>txbuf = buf, next_sequence = next_sequence t + 1\<rparr>, s))"
    using iteration_sends [OF p, of w t] by blast
  with assms p show ?thesis by (auto simp: send_gre_eq ip_packet_def split: if_splits)
next
  case False
  then show ?thesis
    using assms iteration_silent [of data s w t] by (auto simp: ip_packet_def)
qed

lemma upload_fault_iff:
  "tun2gre_iteration w data t s = Inl fault \<longleftrightarrow>
     fault = Buffer_Overflow \<and> tunnel_established (lte (rt s)) \<and> ip_packet data \<and>
     MAX_PKT_SIZE - 12 < length data"
proof (cases "ip_packet data \<and> tunnel_established (lte (rt s))")
  case True
  then obtain proto where p: "data \<noteq> []" "etherproto_of data = Some proto" "tunnel_established (lte (rt s))"
    by (auto simp: ip_packet_def)
  obtain buf where "tun2gre_iteration w data t s =
      bind_res (send_gre w GRECP_TUNTYPE_LTE proto (next_sequence t) True (take MAX_PKT_SIZE data) s)
        (\<lambda>s. Inr (\<lparr>txbuf = buf, next_sequence = next_sequence t + 1\<rparr>, s))"
    using iteration_sends [OF p, of w t] by blast
  with True show ?thesis by (auto simp: send_gre_eq)
next
  case False
  then show ?thesis
    using iteration_silent [of data s w t] by (auto simp: ip_packet_def)
qed

text \<open>C38: The sending thread overflows the packet array exactly when an established LTE tunnel meets an
  IP packet that leaves no room for the header, and there is no other fault.\<close>

theorem upload_overflow_iff:
  "tun2gre_iteration w data t s = Inl fault \<longleftrightarrow>
     fault = Buffer_Overflow \<and> tunnel_established (lte (rt s)) \<and> ip_packet data \<and>
     MAX_PKT_SIZE - 12 < length data"
  by (rule upload_fault_iff)

subsection \<open>A run of packets\<close>

definition upload_run :: "env \<Rightarrow> bytes list \<Rightarrow> tun2gre \<times> sys \<Rightarrow> fault + (tun2gre \<times> sys)" where
  "upload_run w = fold_res (\<lambda>data (t, s). tun2gre_iteration w data t s)"

text \<open>Source, destination and bytes of a data packet that was handed to \<open>sendmsg\<close>.\<close>

fun gre_sent :: "effect \<Rightarrow> (in6_addr \<times> in6_addr \<times> bytes) option" where
  "gre_sent (Sendmsg_Gre src dst msg ok) = Some (src, dst, msg)"
| "gre_sent e = None"

text \<open>The messages a run of packets puts on the wire, numbered from \<open>n\<close>.\<close>

definition upload_messages :: "u32 \<Rightarrow> u32 \<Rightarrow> bytes list \<Rightarrow> bytes list" where
  "upload_messages key n datas =
     map (\<lambda>(i, data). gre_packet key (the (etherproto_of data)) (n + of_nat i) True data) (enumerate 0 datas)"

lemma upload_messages_Cons:
  "upload_messages key n (data # datas) =
     gre_packet key (the (etherproto_of data)) n True data # upload_messages key (n + 1) datas"
  unfolding upload_messages_def
  by (simp add: enumerate_Suc_eq algebra_simps case_prod_beta)

lemma upload_run_spec:
  assumes "\<forall>data \<in> set datas. ip_packet data \<and> length data \<le> MAX_PKT_SIZE - 12"
    and "tunnel_established (lte (rt s))"
  shows "\<exists>t' s'. upload_run w datas (t, s) = Inr (t', s') \<and> rt s' = rt s \<and>
    next_sequence t' = next_sequence t + of_nat (length datas) \<and>
    (\<exists>sent. trace s' = trace s @ sent \<and>
      map gre_sent sent =
      map (\<lambda>msg. Some (interface_ip (lte (rt s)), haap_ip (haap (rt s)), msg))
        (upload_messages (bonding_key (haap (rt s))) (next_sequence t) datas))"
  using assms
proof (induction datas arbitrary: t s)
  case Nil
  then show ?case by (simp add: upload_run_def upload_messages_def)
next
  case (Cons data datas)
  obtain buf where step: "tun2gre_iteration w data t s =
    Inr (\<lparr>txbuf = buf, next_sequence = next_sequence t + 1\<rparr>,
      emit (Sendmsg_Gre (interface_ip (lte (rt s))) (haap_ip (haap (rt s)))
        (gre_packet (bonding_key (haap (rt s))) (the (etherproto_of data)) (next_sequence t) True data)
        (env_ok w (tick s))) (s\<lparr>tick := Suc (tick s)\<rparr>))" (is "_ = Inr (?t1, ?s1)")
    using iteration_sent [of data s w t] Cons.prems by auto
  have "rt ?s1 = rt s" by simp
  with Cons.IH [of ?s1 ?t1] Cons.prems step show ?case
    by (fastforce simp: upload_run_def upload_messages_Cons)
qed

text \<open>A run of IP packets that fit is sent completely, in order, to the bonding server, through the
  LTE tunnel and with consecutive numbers.\<close>

theorem uploads_are_numbered:
  assumes "\<forall>data \<in> set datas. ip_packet data \<and> length data \<le> MAX_PKT_SIZE - 12"
    and "tunnel_established (lte (rt s))"
  shows "\<exists>t' s' sent. upload_run w datas (init_tun2gre buf, s) = Inr (t', s') \<and>
    next_sequence t' = of_nat (length datas) \<and> trace s' = trace s @ sent \<and>
    map gre_sent sent =
    map (\<lambda>(i, data). Some (interface_ip (lte (rt s)), haap_ip (haap (rt s)),
        gre_packet (bonding_key (haap (rt s))) (the (etherproto_of data)) (of_nat i) True data))
      (enumerate 0 datas)"
  using upload_run_spec [OF assms, of w "init_tun2gre buf"]
  by (simp add: init_tun2gre_def upload_messages_def comp_def case_prod_unfold) blast

definition sending_sys :: sys where
  "sending_sys = init_sys\<lparr>rt := zero_runtime\<lparr>bonding := True,
     lte := zero_lte\<lparr>tunnel_established := True\<rparr>, dsl := zero_dsl\<lparr>tunnel_established := True\<rparr>\<rparr>\<rparr>"

lemma sending_sys_established:
  "tunnel_established (lte (rt sending_sys))" "tunnel_established (dsl (rt sending_sys))"
  "trace sending_sys = []"
  by (simp_all add: sending_sys_def init_sys_def)

lemma ip_packet_example: "ip_packet [0x45, x]" "ip_packet [0x60]"
  by (simp_all add: ip_packet_def etherproto_of_def ip_version_def byte_at_def)

theorem uploads_are_numbered_witness:
  "\<exists>t' s' sent. upload_run example_env [[0x45, 1], [0x60]] (init_tun2gre (replicate 1500 0), sending_sys) = Inr (t', s') \<and>
    next_sequence t' = 2 \<and> trace s' = sent \<and> length sent = 2"
  using uploads_are_numbered [of "[[0x45, 1], [0x60]]" sending_sys example_env "replicate 1500 0"]
  by (auto simp: ip_packet_example sending_sys_established dest!: arg_cong [of "map _ _" _ length])

theorem upload_uses_lte_only_witness:
  "\<exists>t' s'. tun2gre_iteration example_env [0x60] (init_tun2gre (replicate 1500 0))
       (rt_update (lte_update (tunnel_established_update (\<lambda>_. False))) sending_sys) = Inr (t', s') \<and>
     tunnel_established (dsl (rt s')) \<and> trace s' = [] \<and> next_sequence t' = 0"
proof -
  let ?s = "rt_update (lte_update (tunnel_established_update (\<lambda>_. False))) sending_sys"
  obtain buf where r: "tun2gre_iteration example_env [0x60] (init_tun2gre (replicate 1500 0)) ?s =
      Inr ((init_tun2gre (replicate 1500 0))\<lparr>txbuf := buf\<rparr>, ?s)"
    using iteration_silent [of "[0x60]" ?s] by auto
  from upload_uses_lte_only [OF r] r show ?thesis
    by (simp add: sending_sys_def init_sys_def init_tun2gre_def)
qed

end
