(* ===== verification/Channel.thy ===== *)
theory Channel
  imports Receiver Sender
begin

text \<open>
  The two threads together: packets that \<open>tun2gre_main\<close> sends and a peer running
  \<open>gre2tun_main\<close> receives, with a network in between that may reorder them.
\<close>

definition wire_packet :: "arrival \<Rightarrow> bytes" where
  "wire_packet a = gre_packet (arr_key a) (arr_proto a) (arr_seq a) True (arr_payload a)"

fun gre_messages :: "effect list \<Rightarrow> bytes list" where
  "gre_messages [] = []"
| "gre_messages (e # es) =
     (case gre_sent e of Some (src, dst, msg) \<Rightarrow> msg # gre_messages es | None \<Rightarrow> gre_messages es)"

lemma gre_messages_of_sent:
  "map gre_sent es =
     map (\<lambda>msg. Some (a, b, msg)) msgs \<Longrightarrow> gre_messages es = msgs"
  by (induction es arbitrary: msgs) (auto split: option.splits)

text \<open>Number and payload can be read back from the bytes.\<close>

definition sequence_of :: "bytes \<Rightarrow> nat" where
  "sequence_of msg = unat (ntohl (word_of_bytes (take 4 (drop 8 msg))) :: u32)"

lemma gre_packet_parts:
  "sequence_of (gre_packet key proto seq True payload) = unat seq"
  "drop 12 (gre_packet key proto seq True payload) = payload"
  using gre_packet_fields(2) [of key proto seq payload "[]"]
  by (simp_all add: sequence_of_def) (simp add: gre_packet_def)

lemma upload_messages_parts:
  assumes "length datas \<le> 2 ^ 32"
  shows "map (\<lambda>msg. (sequence_of msg, drop 12 msg)) (upload_messages key 0 datas) = enumerate 0 datas"
proof -
  have "unat (of_nat i :: u32) = i" if "(i, data) \<in> set (enumerate 0 datas)" for i data
    using that assms by (auto simp: in_set_enumerate_eq unat_of_nat)
  then show ?thesis
    by (auto simp: upload_messages_def gre_packet_parts case_prod_beta intro!: map_idI)
qed

text \<open>The two threads alone: a sequence of IP packets goes through the sending thread, is
  reordered by the network behind the first packet, and leaves the receiving thread as it came.\<close>

theorem tunnel_preserves_order:
  assumes "\<forall>data \<in> set datas. ip_packet data \<and> length data \<le> MAX_PKT_SIZE - 12"
    and "length datas \<le> 2 ^ 32"
    and "tunnel_established (lte (rt s))" and "trace s = []"
    and "upload_run w datas (init_tun2gre txb, s) = Inr (t', s')"
    and "mset (map wire_packet ps) = mset (gre_messages (trace s'))"
    and "ps = [] \<or> arr_seq (hd ps) = 0" and "\<forall>a \<in> set ps. arrival_ok t0 timeout a"
    and "length rxb = MAX_PKT_SIZE" and "normalised timeout"
  shows "\<exists>st'. run_steps (receive peer timeout) ps (init_gre2tun rxb) = Inr (st', datas)"
proof -
  have msgs: "gre_messages (trace s') = upload_messages (bonding_key (haap (rt s))) 0 datas"
    using upload_run_spec [OF assms(1,3), of w "init_tun2gre txb"] assms(4,5)
    by (auto simp: init_tun2gre_def intro: gre_messages_of_sent)
  have "mset (map (\<lambda>a. (unat (arr_seq a), arr_payload a)) ps) =
      image_mset (\<lambda>msg. (sequence_of msg, drop 12 msg)) (mset (map wire_packet ps))"
    by (simp add: wire_packet_def gre_packet_parts multiset.map_comp comp_def)
  also have "\<dots> = mset (enumerate 0 datas)"
    unfolding assms(6) msgs mset_map [symmetric] by (simp only: upload_messages_parts [OF assms(2)])
  finally have perm: "mset (map (\<lambda>a. (unat (arr_seq a), arr_payload a)) ps) = mset (enumerate 0 datas)" .
  show ?thesis
    using run_delivers_permutation [OF assms(9,10,8) perm assms(7), of peer] by blast
qed

definition network_example :: "arrival list" where
  "network_example =
     [(example_arrival 0 [0x45, 1])\<lparr>arr_key := 0\<rparr>,
      (example_arrival 2 [0x60, 2])\<lparr>arr_key := 0, arr_proto := ETHERTYPE_IPV6\<rparr>,
      (example_arrival 1 [0x60])\<lparr>arr_key := 0, arr_proto := ETHERTYPE_IPV6\<rparr>]"

theorem tunnel_preserves_order_witness:
  "\<exists>st'. run_steps (receive (replicate 16 1) (Timeval 0 250000)) network_example
     (init_gre2tun (replicate 1500 0)) = Inr (st', [[0x45, 1], [0x60], [0x60, 2]])"
proof -
  let ?datas = "[[0x45, 1], [0x60], [0x60, 2]] :: bytes list"
  have ok: "\<forall>data \<in> set ?datas. ip_packet data \<and> length data \<le> MAX_PKT_SIZE - 12"
    by (simp add: ip_packet_def etherproto_of_def ip_version_def byte_at_def)
  have est: "tunnel_established (lte (rt sending_sys))" and tr: "trace sending_sys = []"
    by (simp_all add: sending_sys_established)
  let ?w = "\<lparr>env_clock = \<lambda>_. (0, 0), env_ok = \<lambda>_. True, env_int = \<lambda>_. 0, env_text = \<lambda>_. None,
      env_status = \<lambda>_. 0, env_output = \<lambda>_. None\<rparr>"
  obtain t' s' where r: "upload_run ?w ?datas (init_tun2gre (replicate 1500 0), sending_sys) = Inr (t', s')"
    and m: "gre_messages (trace s') = upload_messages 0 0 ?datas"
    using upload_run_spec [OF ok est, of ?w "init_tun2gre (replicate 1500 0)"] tr
    by (auto simp: init_tun2gre_def sending_sys_def zero_runtime_def zero_haap_def dest: gre_messages_of_sent)
  have perm: "mset (map wire_packet network_example) = mset (gre_messages (trace s'))"
    by (simp add: m upload_messages_def wire_packet_def network_example_def etherproto_of_def
        ip_version_def byte_at_def) (simp add: example_arrival_def)
  have arrivals: "\<forall>a \<in> set network_example. arrival_ok (Timeval 10 0) (Timeval 0 250000) a"
    by (simp add: network_example_def example_arrival_def arrival_ok_def arrival_size_ok_def
        arrival_in_time_def normalised_def micros_def)
  show ?thesis
    by (rule tunnel_preserves_order [OF ok _ est tr r perm _ arrivals])
      (simp_all add: network_example_def normalised_def)
qed

end
