(* ===== verification/Uploads.thy ===== *)
theory Uploads
  imports Composition Channel
begin

text \<open>
  The sending thread inside the process, and two processes together. The main loop puts no data packet on
  the wire and leaves the counter of the sending thread alone, so in a run of the process the data packets are the
  uploads that the LTE tunnel carried, numbered one after the other; a process that receives them from a network
  that reorders writes these uploads.
\<close>

subsection \<open>Uploads that are carried\<close>

fun carried_by :: "process \<Rightarrow> event \<Rightarrow> bytes list" where
  "carried_by p (Upload w data) =
     (if tun2gre_thread (rt (proc p)) \<noteq> 0 \<and> tunnel_established (lte (rt (proc p))) \<and> ip_packet data then [data] else [])"
| "carried_by p (Control w inp) = []"
| "carried_by p (Signal sig) = []"
| "carried_by p (Download inp stamp now) = []"

fun carried :: "process \<Rightarrow> event list \<Rightarrow> bytes list" where
  "carried p [] = []"
| "carried p (e # es) = carried_by p e @ (case process_step e p of Inl f \<Rightarrow> [] | Inr q \<Rightarrow> carried q es)"

text \<open>The number on a data packet, and its payload.\<close>

definition wire_content :: "bytes \<Rightarrow> u32 \<times> bytes" where
  "wire_content msg = (ntohl (word_of_bytes (take 4 (drop 8 msg))), drop 12 msg)"

fun numbered :: "u32 \<Rightarrow> bytes list \<Rightarrow> (u32 \<times> bytes) list" where
  "numbered n [] = []"
| "numbered n (data # datas) = (n, data) # numbered (n + 1) datas"

lemma numbered_append: "numbered n (xs @ ys) = numbered n xs @ numbered (n + of_nat (length xs)) ys"
  by (induction xs arbitrary: n) (simp_all add: algebra_simps)

lemma numbered_enumerate: "numbered n datas = map (\<lambda>(i, data). (n + of_nat i, data)) (enumerate 0 datas)"
  by (induction datas arbitrary: n) (simp_all add: enumerate_Suc_eq algebra_simps case_prod_beta comp_def)

lemma numbered_unat:
  assumes "length datas \<le> 2 ^ 32"
  shows "map (\<lambda>(n, data). (unat n, data)) (numbered 0 datas) = enumerate 0 datas"
proof -
  have "unat (of_nat i :: u32) = i" if "(i, data) \<in> set (enumerate 0 datas)" for i data
    using that assms by (auto simp: in_set_enumerate_eq unat_of_nat)
  then show ?thesis by (auto simp: numbered_enumerate case_prod_beta intro!: map_idI)
qed

lemma wire_content_packet: "wire_content (gre_packet key proto n True data) = (n, data)"
  using gre_packet_parts [of key proto n data] gre_packet_fields(2) [of key proto n data "[]"]
  by (simp add: wire_content_def)

subsection \<open>One event\<close>

lemma gre_messages_append [simp]: "gre_messages (xs @ ys) = gre_messages xs @ gre_messages ys"
  by (induction xs) (auto split: option.split)

lemma gre_messages_filter: "gre_messages (filter data_effect es) = gre_messages es"
proof (induction es)
  case (Cons e es)
  then show ?case by (cases e) simp_all
qed simp

lemma control_sends_no_data:
  assumes "process_step e p = Inr q" and "\<nexists>w data. e = Upload w data"
  shows "gre_messages (trace (proc q)) = gre_messages (trace (proc p))" "sender q = sender p"
proof -
  have loop: "gre_messages (trace s') = gre_messages (trace s)" if "execute_timers w s = Inr s'" for w s s'
    using timers_send_no_data [OF that] gre_messages_filter by metis
  have msg: "trace s' = trace s" if "process_grecpmessage w buf sz s = Inr s'" for w buf sz s s'
    using process_change [OF that] by (simp add: message_change_def message_rest_def)
  have "gre_messages (trace s') = gre_messages (trace s)" if "main_iteration w inp (b, s) = Inr (b', s')" for w inp b b' s s'
    using that by (auto simp: main_iteration_def Let_def bind_res_eq_Inr dest!: loop msg split: received.splits if_splits)
  then show "gre_messages (trace (proc q)) = gre_messages (trace (proc p))" "sender q = sender p"
    using assms by (cases e; auto simp: bind_res_eq_Inr handle_signal_def split: if_splits)+
qed

lemma upload_event:
  assumes "tun2gre_iteration w data t s = Inr (t', s')" and "ip_packet data" and "tunnel_established (lte (rt s))"
  shows "next_sequence t' = next_sequence t + 1 \<and>
    (\<exists>key proto. gre_messages (trace s') = gre_messages (trace s) @ [gre_packet key proto (next_sequence t) True data])"
proof -
  have "length data \<le> MAX_PKT_SIZE - 12"
  proof (rule ccontr)
    assume "\<not> length data \<le> MAX_PKT_SIZE - 12"
    then have "tun2gre_iteration w data t s = Inl Buffer_Overflow" using upload_fault_iff assms(2,3) by simp
    with assms(1) show False by simp
  qed
  from iteration_sent [OF assms(2,3) this, of w t] assms(1) show ?thesis by auto
qed

lemma event_numbers_uploads:
  assumes "process_step e p = Inr q"
  shows "next_sequence (sender q) = next_sequence (sender p) + of_nat (length (carried_by p e))"
    and "\<exists>msgs. gre_messages (trace (proc q)) = gre_messages (trace (proc p)) @ msgs \<and>
      map wire_content msgs = numbered (next_sequence (sender p)) (carried_by p e)"
proof -
  have "next_sequence (sender q) = next_sequence (sender p) + of_nat (length (carried_by p e)) \<and>
    (\<exists>msgs. gre_messages (trace (proc q)) = gre_messages (trace (proc p)) @ msgs \<and>
      map wire_content msgs = numbered (next_sequence (sender p)) (carried_by p e))"
  proof (cases "\<exists>w data. e = Upload w data")
    case True
    then obtain w data where e: "e = Upload w data" by blast
    show ?thesis
    proof (cases "tun2gre_thread (rt (proc p)) = 0")
      case False
      then obtain t s where it: "tun2gre_iteration w data (sender p) (proc p) = Inr (t, s)"
        and q: "sender q = t" "proc q = s"
        using assms by (auto simp: e bind_res_eq_Inr)
      show ?thesis
      proof (cases "tunnel_established (lte (rt (proc p))) \<and> ip_packet data")
        case True
        with upload_event [OF it] obtain key proto where "next_sequence t = next_sequence (sender p) + 1"
          "gre_messages (trace s) = gre_messages (trace (proc p)) @ [gre_packet key proto (next_sequence (sender p)) True data]"
          by blast
        with True False show ?thesis by (simp add: e q wire_content_packet)
      next
        case no: False
        then show ?thesis
          using iteration_silent [of data "proc p" w "sender p"] it by (auto simp: e q ip_packet_def)
      qed
    qed (use assms e in simp)
  next
    case False
    moreover have "carried_by p e = []" using False by (cases e) auto
    ultimately show ?thesis using control_sends_no_data [OF assms] by simp
  qed
  then show "next_sequence (sender q) = next_sequence (sender p) + of_nat (length (carried_by p e))"
    "\<exists>msgs. gre_messages (trace (proc q)) = gre_messages (trace (proc p)) @ msgs \<and>
      map wire_content msgs = numbered (next_sequence (sender p)) (carried_by p e)" by blast+
qed

subsection \<open>A run of the process\<close>

lemma run_numbers_uploads:
  assumes "steps p es q"
  shows "next_sequence (sender q) = next_sequence (sender p) + of_nat (length (carried p es)) \<and>
    (\<exists>msgs. gre_messages (trace (proc q)) = gre_messages (trace (proc p)) @ msgs \<and>
      map wire_content msgs = numbered (next_sequence (sender p)) (carried p es))"
  using assms
proof (induction rule: steps.induct)
  case (steps_step p e q es r)
  obtain ms where "gre_messages (trace (proc q)) = gre_messages (trace (proc p)) @ ms"
    "map wire_content ms = numbered (next_sequence (sender p)) (carried_by p e)"
    using event_numbers_uploads(2) [OF steps_step(2)] by blast
  moreover obtain ms' where "gre_messages (trace (proc r)) = gre_messages (trace (proc q)) @ ms'"
    "map wire_content ms' = numbered (next_sequence (sender q)) (carried q es)"
    using steps_step.IH by blast
  ultimately show ?case
    using steps_step.IH event_numbers_uploads(1) [OF steps_step(2)]
    by (simp add: steps_step(2) numbered_append algebra_simps)
qed simp

text \<open>C37: In every run of the process, whatever control messages, timers, signals and downloads come in between, the data packets put
  on the wire are the uploads that the LTE tunnel carried, in their order and with consecutive 32-bit numbers.\<close>

theorem process_numbers_uploads:
  assumes "steps p es q" and "sender p = init_tun2gre buf"
  shows "\<exists>msgs. gre_messages (trace (proc q)) = gre_messages (trace (proc p)) @ msgs \<and>
    map wire_content msgs = map (\<lambda>(i, data). (of_nat i, data)) (enumerate 0 (carried p es)) \<and>
    next_sequence (sender q) = of_nat (length (carried p es))"
  using run_numbers_uploads [OF assms(1)] by (simp add: assms(2) init_tun2gre_def numbered_enumerate)

text \<open>C1: Two processes, end to end: whatever the other threads of both do and however long it takes, the uploads that the LTE
  tunnel of the one carried are handed to the tun device of the other in the order in which they were read, if the network loses and
  duplicates no packet and lets the first one arrive first, the receiving process keeps its peer, and no packet has to wait
  there for the whole time-out for one with a smaller number.\<close>

theorem processes_preserve_order:
  assumes "steps a es a'" and "sender a = init_tun2gre txb" and "gre_messages (trace (proc a)) = []"
    and "length (carried a es) \<le> 2 ^ 32"
    and "mset (map wire_packet (arrivals ts)) = mset (gre_messages (trace (proc a')))"
    and "arrivals ts = [] \<or> arr_seq (hd (arrivals ts)) = 0"
    and "\<forall>t \<in> set ts. turn_ok (reorder_buffer_timeout (rt (proc b))) t"
    and "prompt (reorder_buffer_timeout (rt (proc b))) ts"
    and "steps b fs b'" and "devices_up (proc b)" and "server_stays peer b fs"
    and "receiver b = init_gre2tun rxb" and "array_ok rxb"
    and "downloads fs = map (turn_input peer) ts"
    and "normalised (reorder_buffer_timeout (rt (proc b)))"
  shows "tunout b' = tunout b @ carried a es"
proof -
  have msgs: "map wire_content (gre_messages (trace (proc a'))) = numbered 0 (carried a es)"
    using run_numbers_uploads [OF assms(1)] assms(2,3) by (auto simp: init_tun2gre_def)
  have "mset (map (\<lambda>x. (unat (arr_seq x), arr_payload x)) (arrivals ts)) =
      image_mset (\<lambda>(n, data). (unat n, data)) (image_mset wire_content (mset (map wire_packet (arrivals ts))))"
    by (simp add: wire_packet_def wire_content_packet multiset.map_comp comp_def)
  also have "\<dots> = mset (enumerate 0 (carried a es))"
    unfolding assms(5) mset_map [symmetric] msgs numbered_unat [OF assms(4)] by simp
  finally have perm: "mset (map (\<lambda>x. (unat (arr_seq x), arr_payload x)) (arrivals ts)) = mset (enumerate 0 (carried a es))" .
  show ?thesis by (rule process_delivery [OF assms(9-15,7,8) perm assms(6)])
qed

text \<open>The session of \<open>session_example\<close>, with a signal before three uploads.\<close>

lemma steps_uploads:
  assumes "\<forall>data \<in> set datas. ip_packet data \<and> length data \<le> MAX_PKT_SIZE - 12"
    and "tunnel_established (lte (rt (proc p)))" and "tun2gre_thread (rt (proc p)) \<noteq> 0" and "exited (proc p) = None"
    and "length (tunnel_interface_name (rt (proc p))) < 9"
  shows "\<exists>q. steps p (map (Upload w) datas) q \<and> carried p (map (Upload w) datas) = datas \<and>
    gre_messages (trace (proc q)) = gre_messages (trace (proc p)) @
      upload_messages (bonding_key (haap (rt (proc p)))) (next_sequence (sender p)) datas"
  using assms
proof (induction datas arbitrary: p)
  case Nil
  then show ?case by (auto simp: upload_messages_def intro: steps_refl)
next
  case (Cons data datas)
  obtain buf where it: "tun2gre_iteration w data (sender p) (proc p) =
    Inr (\<lparr>txbuf = buf, next_sequence = next_sequence (sender p) + 1\<rparr>,
      emit (Sendmsg_Gre (interface_ip (lte (rt (proc p)))) (haap_ip (haap (rt (proc p))))
        (gre_packet (bonding_key (haap (rt (proc p)))) (the (etherproto_of data)) (next_sequence (sender p)) True data)
        (env_ok w (tick (proc p)))) ((proc p)\<lparr>tick := Suc (tick (proc p))\<rparr>))" (is "_ = Inr (?t, ?s)")
    using iteration_sent [of data "proc p" w "sender p"] Cons.prems by auto
  obtain n where name: "enter_thread (tun2gre_thread_name (snd (trim_rest p)) (tunnel_interface_name (rt (proc p))))
      (sender_name p) = Inr n"
    using enter_thread_defined(2) [OF disjI1 [OF Cons.prems(5)]] by blast
  let ?q = "p\<lparr>sender_name := Some n, sender := ?t, proc := ?s\<rparr>"
  have step: "process_step (Upload w data) p = Inr ?q" using it name Cons.prems(3) by simp
  obtain r where "steps ?q (map (Upload w) datas) r" "carried ?q (map (Upload w) datas) = datas"
    "gre_messages (trace (proc r)) = gre_messages (trace (proc ?q)) @
      upload_messages (bonding_key (haap (rt (proc ?q)))) (next_sequence (sender ?q)) datas"
    using Cons.IH [of ?q] Cons.prems by auto
  then show ?case
    using Cons.prems step by (auto simp: steps_Cons upload_messages_Cons simp del: process_step.simps)
qed

definition upload_example :: "bytes list" where
  "upload_example = [[0x45, 1], [0x60], [0x60, 2]]"

definition upload_events :: "event list" where
  "upload_events = Signal 1 # map (Upload example_env) upload_example"

lemma session_example_sender:
  "sender session_example = init_tun2gre (replicate 1500 0)" "gre_messages (trace (proc session_example)) = []"
  by (simp_all add: session_example_def initial_def second_session_def init_sys_def)

lemma upload_events_run:
  obtains q where "steps session_example upload_events q" "carried session_example upload_events = upload_example"
    "gre_messages (trace (proc q)) = upload_messages 6 0 upload_example"
proof -
  let ?p = "session_example\<lparr>proc := handle_signal 1 (proc session_example)\<rparr>"
  have "\<forall>data \<in> set upload_example. ip_packet data \<and> length data \<le> MAX_PKT_SIZE - 12"
    by (simp add: upload_example_def ip_packet_def etherproto_of_def ip_version_def byte_at_def)
  then obtain q where "steps ?p (map (Upload example_env) upload_example) q"
    "carried ?p (map (Upload example_env) upload_example) = upload_example"
    "gre_messages (trace (proc q)) = gre_messages (trace (proc ?p)) @
       upload_messages (bonding_key (haap (rt (proc ?p)))) (next_sequence (sender ?p)) upload_example"
    using steps_uploads [of upload_example ?p example_env]
    by (auto simp: session_example_def initial_def handle_signal_def second_session_def zero_lte_def init_sys_def zero_runtime_def)
  moreover have "gre_messages (trace (proc ?p)) = []" "bonding_key (haap (rt (proc ?p))) = 6" "next_sequence (sender ?p) = 0"
    by (simp_all add: session_example_def initial_def handle_signal_def second_session_def init_sys_def init_tun2gre_def)
  ultimately show thesis
    using that [of q] by (simp add: upload_events_def steps_Cons)
qed

text \<open>The uploads reach the other process over more than a minute, the last two in the wrong order.\<close>

definition carried_over :: "turn list" where
  "carried_over = [Arrive ((arrival_at 10 0 0 [0x45, 1])\<lparr>arr_key := 6\<rparr>), Idle True (Timeval 60 0) (Timeval 60 0),
     Arrive ((arrival_at 80 0 2 [0x60, 2])\<lparr>arr_key := 6, arr_proto := ETHERTYPE_IPV6\<rparr>),
     Arrive ((arrival_at 80 200000 1 [0x60])\<lparr>arr_key := 6, arr_proto := ETHERTYPE_IPV6\<rparr>)]"

lemma carried_over_ok:
  "\<forall>t \<in> set carried_over. turn_ok (Timeval 0 250000) t" "prompt (Timeval 0 250000) carried_over"
  "distinct (map arr_seq (arrivals carried_over))" "arr_seq (hd (arrivals carried_over)) = 0"
  by (simp_all add: carried_over_def)
    (auto simp: arrival_ok_def arrival_size_ok_def arrival_in_time_def normalised_def micros_def patient_def
      in_gap_def numbers_def)

theorem process_numbers_uploads_witness:
  "\<exists>q. steps session_example upload_events q \<and> next_sequence (sender q) = 3 \<and>
     map wire_content (gre_messages (trace (proc q))) = [(0, [0x45, 1]), (1, [0x60]), (2, [0x60, 2])]"
proof -
  obtain q where q: "steps session_example upload_events q" "carried session_example upload_events = upload_example"
      "gre_messages (trace (proc q)) = upload_messages 6 0 upload_example"
    using upload_events_run .
  from process_numbers_uploads [OF q(1) session_example_sender(1)] q show ?thesis
    by (auto simp: session_example_sender(2) upload_example_def)
qed

theorem processes_preserve_order_witness:
  "\<exists>q r. steps session_example upload_events q \<and>
     steps session_example (Signal 1 # map as_event (map (turn_input in6addr_any) carried_over)) r \<and>
     tunout r = upload_example"
proof -
  let ?es = "Signal 1 # map as_event (map (turn_input in6addr_any) carried_over)"
  obtain q where q: "steps session_example upload_events q" "carried session_example upload_events = upload_example"
      "gre_messages (trace (proc q)) = upload_messages 6 0 upload_example"
    using upload_events_run .
  have perm: "mset (map wire_packet (arrivals carried_over)) = mset (gre_messages (trace (proc q)))"
    by (simp add: q(3) upload_messages_def wire_packet_def upload_example_def carried_over_def
        etherproto_of_def ip_version_def byte_at_def) (simp add: arrival_at_def example_arrival_def)
  obtain st out where "run_steps (take_turn in6addr_any (Timeval 0 250000)) carried_over
      (init_gre2tun (replicate 1500 0)) = Inr (st, out)"
    using lossy_run_increases [OF _ carried_over_ok(1,3), of "replicate 1500 0" in6addr_any] by auto
  then obtain r where r: "steps session_example ?es r" using session_example_steps by blast
  have "tunout r = tunout session_example @ carried session_example upload_events"
    by (rule processes_preserve_order [OF q(1) session_example_sender _ perm _ _ _ r _ session_example_stays session_example_simps(1)])
      (use carried_over_ok in \<open>simp_all add: array_ok_def normalised_def q(2) upload_example_def del: map_map list.map\<close>)
  with q r show ?thesis by auto
qed

end
