(* ===== verification/Latency.thy ===== *)
theory Latency
  imports Composition
begin

text \<open>
  How long a packet stays in the reorder buffer. What waits is what arrived, with the time stamp of its
  arrival, so the first turn after the time-out writes a packet that was in time, whatever was lost before it.
\<close>

subsection \<open>What waits is what arrived\<close>

definition kept :: "reorder_buffer_element list \<Rightarrow> reorder_buffer_element list \<Rightarrow> bool" where
  "kept es es' \<longleftrightarrow> (\<forall>e \<in> set es'. live e \<longrightarrow> e \<in> set es)"

lemma kept_refl [simp]: "kept es es"
  by (simp add: kept_def)

lemma kept_trans: "kept es es1 \<Longrightarrow> kept es1 es2 \<Longrightarrow> kept es es2"
  by (auto simp: kept_def)

lemma kept_Cons: "kept es es' \<Longrightarrow> kept (e # es) (e # es')" "kept es es' \<Longrightarrow> kept (e # es) (flush_element e # es')"
  by (auto simp: kept_def)

lemma flush_pass_kept: "flush_pass es f = Inr (es', f', out, b) \<Longrightarrow> kept es es'"
proof (induction es f arbitrary: es' f' out b rule: flush_pass.induct)
  case (2 e es f)
  show ?case
  proof (cases "sequence e = f + 1")
    case True
    with "2.prems" show ?thesis using "2.IH"(1) by (auto simp: bind_res_eq_Inr intro: kept_Cons split: if_splits)
  next
    case False
    with "2.prems" show ?thesis using "2.IH"(2) by (auto simp: bind_res_eq_Inr intro: kept_Cons)
  qed
qed simp

lemma flush_all_kept: "flush_all es f = Inr (es', f', out) \<Longrightarrow> kept es es'"
proof (induction es f arbitrary: es' f' out rule: flush_all.induct)
  case (1 es f)
  from "1.prems" obtain es1 f1 out1 b where p: "flush_pass es f = Inr (es1, f1, out1, b)"
    by (subst (asm) flush_all.simps) (auto simp: bind_res_eq_Inr)
  show ?case
  proof (cases b)
    case True
    with "1.prems" p obtain out2 where rest: "flush_all es1 f1 = Inr (es', f', out2)"
      by (subst (asm) flush_all.simps) (auto simp: bind_res_eq_Inr)
    show ?thesis using kept_trans [OF flush_pass_kept [OF p] "1.IH" [OF p refl refl refl True rest]] .
  next
    case False
    with "1.prems" p have "es' = es1" by (subst (asm) flush_all.simps) simp
    then show ?thesis using flush_pass_kept [OF p] by simp
  qed
qed

lemma reorder_flush_kept: "reorder_flush now timeout es f = Inr (es', f', out) \<Longrightarrow> kept es es'"
proof (induction now timeout es f arbitrary: es' f' out rule: reorder_flush.induct)
  case (1 now timeout es f)
  from "1.prems" obtain es1 f1 out1 where p: "flush_all es f = Inr (es1, f1, out1)"
    by (subst (asm) reorder_flush.simps) (auto simp: bind_res_eq_Inr)
  show ?case
  proof (cases "list_ex (timed_out now timeout) es1")
    case True
    with "1.prems" p obtain out2 where rest: "reorder_flush now timeout es1 (f1 + 1) = Inr (es', f', out2)"
      by (subst (asm) reorder_flush.simps) (auto simp: bind_res_eq_Inr)
    show ?thesis using kept_trans [OF flush_all_kept [OF p] "1.IH" [OF p refl refl True rest]] .
  next
    case False
    with "1.prems" p have "es' = es1" by (subst (asm) reorder_flush.simps) simp
    then show ?thesis using flush_all_kept [OF p] by simp
  qed
qed

lemma process_kept: "process_reorder_buffer now timeout es f = Inr (es', f', out) \<Longrightarrow> kept es es'"
proof -
  assume "process_reorder_buffer now timeout es f = Inr (es', f', out)"
  then obtain es1 where es1: "reorder_flush now timeout es f = Inr (es1, f', out)" and es': "es' = compact (drop_late f' es1)"
    by (auto simp: process_reorder_buffer_def bind_res_eq_Inr)
  have "kept es1 (drop_late f' es1)" by (auto simp: kept_def drop_late_def)
  moreover have "kept (drop_late f' es1) es'"
    by (auto simp: kept_def es' compact_def split: if_splits dest: in_set_dropD)
  ultimately show ?thesis using kept_trans reorder_flush_kept [OF es1] by blast
qed

definition stamped :: "turn list \<Rightarrow> gre2tun \<Rightarrow> bool" where
  "stamped ts st \<longleftrightarrow> (\<forall>e \<in> set (packets st). live e \<longrightarrow> (\<exists>a \<in> set (arrivals ts). e = buffered a))"

lemma flush_stamped:
  assumes "flush_buffer now timeout st = Inr (st', out)" and "stamped ts st"
  shows "stamped ts st'"
  using assms process_kept unfolding flush_buffer_def stamped_def kept_def
  by (fastforce simp: bind_res_eq_Inr)

lemma turn_stamped:
  assumes "take_turn peer timeout t st = Inr (st', out)" and "stamped ts st" and "steady st" and "turn_ok timeout t"
  shows "stamped (ts @ [t]) st'"
proof (cases t)
  case (Idle again stamp now)
  then show ?thesis
    using assms(1,2) flush_stamped by (auto simp: gre2tun_iteration_def stamped_def split: if_splits)
next
  case (Arrive a)
  obtain buf where "receive peer timeout a st =
      flush_buffer (arr_now a) timeout (st\<lparr>rxbuf := buf, packets := packets st @ [buffered a]\<rparr>)"
    using receive_flush [OF assms(3), of a timeout] assms(4) Arrive by auto
  moreover have "stamped (ts @ [t]) (st\<lparr>rxbuf := buf, packets := packets st @ [buffered a]\<rparr>)"
    using assms(2) by (auto simp: stamped_def Arrive)
  ultimately show ?thesis using assms(1) flush_stamped by (simp add: Arrive)
qed

lemma run_stamped:
  assumes "turns.fresh_run timeout us st" and "stamped ts st" and "run_steps (take_turn peer timeout) us st = Inr (st', out)"
  shows "stamped (ts @ us) st'"
  using assms
proof (induction us arbitrary: ts st out)
  case (Cons t us)
  obtain st1 out1 where 1: "take_turn peer timeout t st = Inr (st1, out1)" "turns.fresh_run timeout us st1"
    using turns.first_turn [OF Cons.prems(1)] by metis
  have "steady st" "turn_ok timeout t" using Cons.prems(1) by (simp_all add: turns.fresh_run_def)
  then have "stamped (ts @ [t]) st1" using turn_stamped [OF 1(1) Cons.prems(2)] by simp
  moreover obtain out2 where "run_steps (take_turn peer timeout) us st1 = Inr (st', out2)"
    using Cons.prems(3) 1(1) by (auto simp: bind_res_eq_Inr)
  ultimately have "stamped ((ts @ [t]) @ us) st'" using Cons.IH [OF 1(2)] by blast
  then show ?case by simp
qed simp

lemma stamped_init: "stamped [] (init_gre2tun buf)"
  by (simp add: stamped_def init_gre2tun_def)

subsection \<open>The first turn after the time-out\<close>

lemma pending_element:
  assumes "pending es n = Some b"
  obtains e where "e \<in> set es" "live e" "unat (sequence e) = n"
  using assms by (auto simp: pending_def dest!: map_of_SomeD)

lemma buffered_times_out:
  assumes "arrival_ok (arr_stamp a) timeout a" and "normalised timeout" and "normalised now"
    and "micros (arr_stamp a) + micros timeout \<le> micros now"
  shows "timed_out now timeout (buffered a)"
proof -
  have "normalised (arr_stamp a)" "psize (buffered a) > 0"
    using assms(1) psize_buffered by (auto simp: arrival_ok_def arrival_in_time_def)
  then show ?thesis using assms(2-4)
    by (simp add: timed_out_def buffered_def timeval_le_iff_micros normalised_timersub micros_timersub)
qed

lemma waiting_arrival:
  assumes "stamped ts st" and "distinct (map arr_seq (arrivals ts))" and "a \<in> set (arrivals ts)"
    and "e \<in> set (packets st)" and "live e" and "sequence e = arr_seq a"
  shows "e = buffered a"
proof -
  obtain b where b: "b \<in> set (arrivals ts)" "e = buffered b" using assms(1,4,5) by (auto simp: stamped_def)
  then have "arr_seq b = arr_seq a" using assms(6) by (simp add: buffered_def)
  then have "b = a" using assms(2,3) b(1) by (auto simp: distinct_map inj_on_def)
  with b show ?thesis by simp
qed

lemma overdue_turn_writes:
  assumes "steady st" and "stamped ts st" and "distinct (map arr_seq (arrivals ts))" and "a \<in> set (arrivals ts)"
    and "pending (packets st) (unat (arr_seq a)) = Some (arr_payload a)"
    and "timed_out now timeout (buffered a)"
  shows "\<exists>st' out. take_turn peer timeout (Idle True stamp now) st = Inr (st', out) \<and> arr_payload a \<in> set out"
proof -
  let ?es = "packets st" and ?f = "sequence_flushed st" and ?n = "unat (arr_seq a)"
  have inv: "buffer_inv ?es (next_expected ?f)" and pos: "0 < next_expected ?f"
    using assms(1,5) by (auto simp: steady_def pending_simps)
  obtain es' f' out where p: "process_reorder_buffer now timeout ?es ?f = Inr (es', f', out)"
    and late: "\<forall>e \<in> set es'. \<not> timed_out now timeout e"
    and rel: "(map snd out, abs_buffer es' f') = release (next_expected f') (abs_buffer ?es ?f)"
    using process_reorder_buffer_spec [OF inv, of now timeout] pos by blast
  have w: "pending es' = pending ?es |` {next_expected f'..}"
    using rel by (simp add: release_def abs_buffer_def)
  have passed: "?n < next_expected f'"
  proof (rule ccontr)
    assume "\<not> ?n < next_expected f'"
    with w assms(5) have "pending es' ?n = Some (arr_payload a)" by simp
    then obtain e where e: "e \<in> set es'" "live e" "unat (sequence e) = ?n" by (rule pending_element)
    then have "e \<in> set ?es" "sequence e = arr_seq a"
      using process_kept [OF p] by (auto simp: kept_def word_unat_eq_iff)
    then have "e = buffered a" using waiting_arrival [OF assms(2-4)] e(2) by simp
    with late e(1) assms(6) show False by blast
  qed
  have "?n \<in> waiting_numbers ?es" using assms(5) by (auto simp flip: dom_pending)
  then have "next_expected ?f \<le> ?n" using inv by (auto simp: waiting_numbers_def buffer_inv_def element_inv_def)
  with passed assms(5) have "arr_payload a \<in> set (map snd out)"
    using rel by (force simp: release_def abs_buffer_def)
  then show ?thesis by (simp add: gre2tun_iteration_def flush_buffer_def p)
qed

lemma bind_res_Inr: "bind_res m Inr = m"
  by (cases m) simp_all

lemma run_steps_append:
  "run_steps step (xs @ ys) s = bind_res (run_steps step xs s) (\<lambda>(s, out).
     bind_res (run_steps step ys s) (\<lambda>(s, out'). Inr (s, out @ out')))"
  by (induction xs arbitrary: s) (simp_all add: bind_res_assoc bind_res_Inr split_def)

lemma in_time_packet_written:
  assumes "length buf = MAX_PKT_SIZE" and "\<forall>t \<in> set (us @ Arrive a # vs). turn_ok timeout t"
    and "distinct (map arr_seq (arrivals (us @ Arrive a # vs)))"
    and "run_steps (take_turn peer timeout) us (init_gre2tun buf) = Inr (st1, out1)"
    and "arr_seq a = 0 \<or> 0 < next_expected (sequence_flushed st1)" and "next_expected (sequence_flushed st1) \<le> unat (arr_seq a)"
    and "normalised now" and "micros (arr_stamp a) + micros timeout \<le> micros now"
    and "run_steps (take_turn peer timeout) (us @ Arrive a # vs @ [Idle True stamp now]) (init_gre2tun buf) = Inr (st, out)"
  shows "arr_payload a \<in> set out"
proof -
  let ?step = "take_turn peer timeout" and ?ts = "us @ Arrive a # vs"
  have fresh: "turns.fresh_run timeout ?ts (init_gre2tun buf)" by (rule fresh_run_init [OF assms(1-3)])
  have f1: "turns.fresh_run timeout (Arrive a # vs) st1"
    using turns.run_prefix [OF fresh, of peer] assms(4) by auto
  have "turns.fresh_run timeout us (init_gre2tun buf)" using fresh by (auto simp: turns.fresh_run_def sorted_wrt_append)
  then have m1: "stamped us st1" using run_stamped [OF _ stamped_init assms(4)] by simp
  obtain st2 out2 where r2: "run_steps ?step (Arrive a # vs) st1 = Inr (st2, out2)" and s2: "steady st2"
    using turns.run_increases [OF f1, of peer] by blast
  have all: "bind_res (?step (Idle True stamp now) st2) (\<lambda>(s, out3). Inr (s, out1 @ out2 @ out3)) = Inr (st, out)"
    using assms(9) unfolding append_assoc [symmetric] append_Cons [symmetric]
    by (simp only: append_assoc run_steps_append assms(4) r2 bind_res.simps prod.case)
      (simp add: bind_res_assoc split_def)
  have ok: "arrival_ok (arr_stamp a) timeout a" "normalised timeout" using assms(2) by simp_all
  have w: "if unat (arr_seq a) < next_expected (sequence_flushed st2) then arr_payload a \<in> set out2
      else pending (packets st2) (unat (arr_seq a)) = Some (arr_payload a)"
    using assms(5,6) by (intro turns.in_time_is_written [OF f1 _ _ _ r2]) auto
  show ?thesis
  proof (cases "unat (arr_seq a) < next_expected (sequence_flushed st2)")
    case True
    then show ?thesis using w all by (auto simp: bind_res_eq_Inr)
  next
    case False
    have "stamped ?ts st2" by (rule run_stamped [OF f1 m1 r2])
    then obtain st3 out3 where "?step (Idle True stamp now) st2 = Inr (st3, out3)" "arr_payload a \<in> set out3"
      using overdue_turn_writes [OF s2 _ assms(3), of a now timeout peer stamp] False w
        buffered_times_out [OF ok assms(7,8)] by auto
    then show ?thesis using all by auto
  qed
qed

text \<open>C14: A packet is written in time. If its number was not passed when it arrived, then in every run of the
  process with a server that keeps its address and numbers that do not come twice, the first turn of the thread that finds the line
  silent after the time-out of the packet has handed it to the tun device, whatever was lost, delayed or reordered
  before and whatever else the process did.\<close>

theorem packet_is_written_in_time:
  assumes "steps p es q" and "devices_up (proc p)" and "server_stays peer p es"
    and "receiver p = init_gre2tun buf" and "array_ok buf" and "timeout = reorder_buffer_timeout (rt (proc p))"
    and "downloads es = map (turn_input peer) (us @ Arrive a # vs @ [Idle True stamp now])"
    and "\<forall>t \<in> set (us @ Arrive a # vs). turn_ok timeout t" and "distinct (map arr_seq (arrivals (us @ Arrive a # vs)))"
    and "run_steps (take_turn peer timeout) us (init_gre2tun buf) = Inr (st1, out1)"
    and "arr_seq a = 0 \<or> 0 < next_expected (sequence_flushed st1)" and "next_expected (sequence_flushed st1) \<le> unat (arr_seq a)"
    and "normalised now" and "micros (arr_stamp a) + micros timeout \<le> micros now"
  shows "arr_payload a \<in> set (tunout q)"
proof -
  have "length buf = MAX_PKT_SIZE" using assms(5) by (simp add: array_ok_def)
  moreover obtain out where "run_steps (take_turn peer timeout) (us @ Arrive a # vs @ [Idle True stamp now]) (init_gre2tun buf) =
      Inr (receiver q, out)" and "tunout q = tunout p @ out"
    using process_run [OF assms(1-3,7)] by (auto simp: assms(4,6))
  ultimately show ?thesis using in_time_packet_written [OF _ assms(8-14)] by simp
qed

text \<open>The packet with the number 1 is lost; 2 waits for it until the time-out.\<close>

theorem packet_is_written_in_time_witness:
  "\<exists>q. steps session_example (Signal 1 # map as_event (map (turn_input in6addr_any) ([Arrive (example_arrival 0 [70])] @
       Arrive (example_arrival 2 [72]) # [] @ [Idle True (Timeval 11 0) (Timeval 11 0)]))) q \<and> [72] \<in> set (tunout q)"
proof -
  let ?us = "[Arrive (example_arrival 0 [70])]" and ?a = "example_arrival 2 [72]"
  let ?ts = "?us @ Arrive ?a # [] @ [Idle True (Timeval 11 0) (Timeval 11 0)]"
  let ?es = "Signal 1 # map as_event (map (turn_input in6addr_any) ?ts)"
  let ?step = "take_turn in6addr_any (Timeval 0 250000)" and ?b = "replicate 1500 (0 :: u8)"
  have ok: "\<forall>t \<in> set ?ts. turn_ok (Timeval 0 250000) t"
    by (simp add: arrival_ok_def example_arrival_def arrival_size_ok_def arrival_in_time_def normalised_def micros_def)
  obtain st1 where "run_steps (receive in6addr_any (Timeval 0 250000)) [example_arrival 0 [70]] (init_gre2tun ?b) = Inr (st1, [[70]])"
    and n: "next_expected (sequence_flushed st1) = 1"
    using run_delivers_permutation [of ?b "Timeval 0 250000" "[example_arrival 0 [70]]" "Timeval 10 0" "[[70]]" in6addr_any]
      example_arrival_ok [of 0 "[70]"] by (auto simp: normalised_def simp del: run_steps.simps)
  then have r1: "run_steps ?step ?us (init_gre2tun ?b) = Inr (st1, [[70]])" by simp
  obtain st out where "run_steps ?step ?ts (init_gre2tun ?b) = Inr (st, out)"
    using lossy_run_increases [OF _ ok, of ?b in6addr_any] by (auto simp del: run_steps.simps)
  then obtain q where q: "steps session_example ?es q" using session_example_steps by blast
  have "arr_payload ?a \<in> set (tunout q)"
    by (rule packet_is_written_in_time [OF q _ session_example_stays session_example_simps(1) _ _ _ _ _ r1, where a = ?a and vs = "[]" and stamp = "Timeval 11 0" and now = "Timeval 11 0"])
      (use ok in \<open>simp_all add: array_ok_def n normalised_def micros_def example_arrival_def as_event_def turn_input_def\<close>)
  with q show ?thesis by (intro exI conjI) (assumption, simp)
qed

end
