(* ===== verification/Logging.thy ===== *)
theory Logging
  imports Addresses
begin

text \<open>
  \<open>logging.c\<close>. A call of \<open>printf\<close> is the text it writes; the message of a call, which \<open>vprintf\<close>
  makes of its format, is an argument. The second component of a result says
  whether the process exits. The dump of a buffer is shown to be equal to a definition
  that works row by row.
\<close>

subsection \<open>Messages\<close>

definition print_log_header :: "u8 \<Rightarrow> string" where
  "print_log_header level =
     (if level = LOG_CRAZYDEBUG then ''CRAZYDEBUG: ''
      else if level = LOG_DEBUG then ''DEBUG: ''
      else if level = LOG_INFO then ''INFO: ''
      else if level = LOG_WARNING then ''WARNING: ''
      else if level = LOG_ERROR then ''ERROR: ''
      else if level = LOG_FATAL then ''FATAL: ''
      else [])"

definition logger :: "runtime \<Rightarrow> u8 \<Rightarrow> string \<Rightarrow> string \<times> bool" where
  "logger r level msg =
     (if unat (log_level r) \<ge> unat level then print_log_header level @ msg else [], level = LOG_FATAL)"

subsection \<open>Hexadecimal dumps\<close>

definition hex2_text :: "u8 \<Rightarrow> string" where
  "hex2_text b = (let h = hex (unat b) in replicate (2 - length h) (CHR ''0'') @ h)"

definition hex4_text :: "nat \<Rightarrow> string" where
  "hex4_text n = (let h = hex n in replicate (4 - length h) (CHR ''0'') @ h)"

text \<open>\<open>printf(" %s\n", asciibuffer)\<close> writes the characters before the first zero byte.\<close>

definition ascii_text :: "bytes \<Rightarrow> string" where
  "ascii_text asciibuffer =
     '' '' @ map (\<lambda>b. char_of (unat b)) (takeWhile (\<lambda>b. b \<noteq> 0) asciibuffer) @ [CHR 0x0A]"

definition printable :: "u8 \<Rightarrow> u8" where
  "printable b = (if b < 0x20 \<or> b > 0x7e then 0x2e else b)"

text \<open>One turn of the loop; an index outside of the 17 bytes would be an overflow.\<close>

definition hexdump_byte :: "nat \<Rightarrow> u8 \<Rightarrow> bytes \<times> string \<Rightarrow> fault + (bytes \<times> string)" where
  "hexdump_byte i b st =
     (let (asciibuffer, out) = st;
          out = (if i mod 16 = 0
                 then (if i \<noteq> 0 then out @ ascii_text asciibuffer else out) @ ''  '' @ hex4_text i
                 else out);
          out = out @ '' '' @ hex2_text b
      in if i mod 16 + 1 < length asciibuffer
         then Inr (asciibuffer[i mod 16 := printable b, i mod 16 + 1 := 0], out)
         else Inl Buffer_Overflow)"

fun hexdump_loop :: "bytes \<Rightarrow> nat \<Rightarrow> nat \<Rightarrow> bytes \<times> string \<Rightarrow> fault + (bytes \<times> string)" where
  "hexdump_loop charbuffer i 0 st = Inr st"
| "hexdump_loop charbuffer i (Suc n) st =
     (if i < length charbuffer
      then bind_res (hexdump_byte i (charbuffer ! i) st) (hexdump_loop charbuffer (Suc i) n)
      else Inl Out_Of_Bounds_Read)"

function hexdump_padding :: "nat \<Rightarrow> string" where
  "hexdump_padding i = (if i mod 16 \<noteq> 0 then ''   '' @ hexdump_padding (i + 1) else [])"
  by pat_completeness auto
termination
  by (relation "measure (\<lambda>i. (16 - i mod 16) mod 16)") (auto simp: mod_Suc)

declare hexdump_padding.simps [simp del]

definition hexdump_text :: "bytes \<Rightarrow> int \<Rightarrow> fault + string" where
  "hexdump_text buffer sz =
     bind_res (hexdump_loop buffer 0 (nat sz) (replicate 17 0, []))
       (\<lambda>(asciibuffer, out). Inr (out @ hexdump_padding (nat sz) @ ascii_text asciibuffer))"

text \<open>The level of a dump is a signed byte.\<close>

definition logger_hexdump :: "runtime \<Rightarrow> u8 \<Rightarrow> bytes \<Rightarrow> int \<Rightarrow> string \<Rightarrow> fault + (string \<times> bool)" where
  "logger_hexdump r level buffer sz msg =
     (if int (unat (log_level r)) \<ge> sint level
      then bind_res (hexdump_text buffer sz) (\<lambda>t. Inr (print_log_header level @ msg @ t, level = LOG_FATAL))
      else Inr ([], level = LOG_FATAL))"

subsection \<open>Bits\<close>

definition bit_digit :: "u8 \<Rightarrow> nat \<Rightarrow> char" where
  "bit_digit byte i = (if push_bit i (ucast byte :: u32) AND 0x80 \<noteq> 0 then CHR ''1'' else CHR ''0'')"

definition logger_bitdump :: "runtime \<Rightarrow> u8 \<Rightarrow> u8 \<Rightarrow> string \<Rightarrow> string \<times> bool" where
  "logger_bitdump r level byte msg =
     (if int (unat (log_level r)) \<ge> sint level
      then print_log_header level @ msg @ ''  '' @ map (bit_digit byte) [0..<8] @ [CHR 0x0A]
      else [], level = LOG_FATAL)"

subsection \<open>The dump row by row\<close>

definition dump_row :: "nat \<Rightarrow> bytes \<Rightarrow> string" where
  "dump_row i row =
     ''  '' @ hex4_text i @ concat (map (\<lambda>b. '' '' @ hex2_text b) row) @
     replicate (3 * (16 - length row)) (CHR '' '') @ '' '' @
     map (\<lambda>b. char_of (unat (printable b))) row @ [CHR 0x0A]"

function dump_rows :: "nat \<Rightarrow> bytes \<Rightarrow> string" where
  "dump_rows i bs = (if bs = [] then [] else dump_row i (take 16 bs) @ dump_rows (i + 16) (drop 16 bs))"
  by pat_completeness auto
termination
  by (relation "measure (\<lambda>(i, bs). length bs)") auto

declare dump_rows.simps [simp del]

lemma hexdump_loop_add:
  "hexdump_loop cb i (m + n) st = bind_res (hexdump_loop cb i m st) (hexdump_loop cb (i + m) n)"
proof (induction m arbitrary: i st)
  case (Suc m)
  have "hexdump_loop cb (Suc i) (m + n) = (\<lambda>st. bind_res (hexdump_loop cb (Suc i) m st) (hexdump_loop cb (Suc i + m) n))"
    using Suc.IH by (intro ext) simp
  then show ?case by (simp add: bind_res_assoc)
qed simp

lemma printable_nonzero [simp]: "printable b \<noteq> 0"
  by (auto simp: printable_def)

text \<open>The start of a row: the bytes so far are printed and wait in \<open>asciibuffer\<close>.\<close>

lemma hexdump_row:
  assumes "i mod 16 = 0" and "n < 16" and "i + Suc n \<le> length cb" and "length asc = 17"
  shows "\<exists>asc'. hexdump_loop cb i (Suc n) (asc, out) =
      Inr (asc', out @ (if i \<noteq> 0 then ascii_text asc else []) @ ''  '' @ hex4_text i @
        concat (map (\<lambda>b. '' '' @ hex2_text b) (take (Suc n) (drop i cb)))) \<and>
    length asc' = 17 \<and> take (Suc n) asc' = map printable (take (Suc n) (drop i cb)) \<and> asc' ! Suc n = 0"
  using assms
proof (induction n)
  case 0
  have c: "take (Suc 0) (drop i cb) = [cb ! i]" using 0 by (simp add: take_Suc_conv_app_nth)
  have "take (Suc 0) (asc[0 := printable (cb ! i), Suc 0 := 0]) = [printable (cb ! i)]"
    using 0 by (cases asc) simp_all
  then show ?case using 0 by (simp add: hexdump_byte_def c)
next
  case (Suc n)
  have le: "i + Suc n \<le> length cb" using Suc.prems(3) by simp
  obtain asc1 where one: "hexdump_loop cb i (Suc n) (asc, out) =
      Inr (asc1, out @ (if i \<noteq> 0 then ascii_text asc else []) @ ''  '' @ hex4_text i @
        concat (map (\<lambda>b. '' '' @ hex2_text b) (take (Suc n) (drop i cb))))"
    and len: "length asc1 = 17" and asc1: "take (Suc n) asc1 = map printable (take (Suc n) (drop i cb))"
    using Suc.IH [OF Suc.prems(1) Suc_lessD [OF Suc.prems(2)] le Suc.prems(4)] by blast
  have "(i + Suc n) mod 16 = (i mod 16 + Suc n) mod 16" by (simp only: mod_add_left_eq)
  then have m: "(i + Suc n) mod 16 = Suc n" using Suc.prems(1,2) by simp
  have c: "take (Suc (Suc n)) (drop i cb) = take (Suc n) (drop i cb) @ [cb ! (i + Suc n)]"
    using Suc.prems(3) by (simp add: take_Suc_conv_app_nth)
  let ?b = "cb ! (i + Suc n)"
  have "take (Suc (Suc n)) (asc1[Suc n := printable ?b, Suc (Suc n) := 0]) = take (Suc n) asc1 @ [printable ?b]"
    using len Suc.prems(2) by (simp add: take_Suc_conv_app_nth [of "Suc n"] del: take_Suc)
  then have t: "take (Suc (Suc n)) (asc1[Suc n := printable ?b, Suc (Suc n) := 0]) =
      map printable (take (Suc (Suc n)) (drop i cb))"
    by (simp add: asc1 c)
  have "hexdump_loop cb i (Suc n + 1) (asc, out) =
      bind_res (hexdump_loop cb i (Suc n) (asc, out)) (hexdump_loop cb (i + Suc n) 1)"
    by (rule hexdump_loop_add)
  also have "\<dots> = Inr (asc1[Suc n := printable ?b, Suc (Suc n) := 0],
      out @ (if i \<noteq> 0 then ascii_text asc else []) @ ''  '' @ hex4_text i @
        concat (map (\<lambda>b. '' '' @ hex2_text b) (take (Suc (Suc n)) (drop i cb))))"
    unfolding one c using Suc.prems(2,3) len m by (simp add: hexdump_byte_def)
  finally show ?case using t len Suc.prems(2) by simp
qed

text \<open>The end of a row: padding, and the waiting bytes.\<close>

lemma hexdump_padding_row:
  "i mod 16 = 0 \<Longrightarrow> 0 < k \<Longrightarrow> k \<le> 16 \<Longrightarrow> hexdump_padding (i + k) = replicate (3 * (16 - k)) (CHR '' '')"
proof (induction "16 - k" arbitrary: k)
  case 0
  then have "(i + k) mod 16 = 0" by (simp add: mod_add_left_eq [of i 16 k, symmetric])
  with 0 show ?case by (simp add: hexdump_padding.simps)
next
  case (Suc d)
  have "(i + k) mod 16 = (i mod 16 + k) mod 16" by (simp only: mod_add_left_eq)
  then have m: "(i + k) mod 16 \<noteq> 0" using Suc.prems Suc.hyps(2) by simp
  have "hexdump_padding (i + Suc k) = replicate (3 * (16 - Suc k)) (CHR '' '')"
    using Suc.hyps(2) Suc.prems by (intro Suc.hyps(1)) auto
  moreover have "3 * (16 - k) = Suc (Suc (Suc (3 * (16 - Suc k))))" using Suc.hyps(2) by arith
  ultimately show ?case using m by (subst hexdump_padding.simps) simp
qed

lemma ascii_text_waiting:
  assumes "take k asc = map printable row" and "asc ! k = 0" and "k < length asc"
  shows "ascii_text asc = '' '' @ map (\<lambda>b. char_of (unat (printable b))) row @ [CHR 0x0A]"
proof -
  have "asc = map printable row @ 0 # drop (Suc k) asc"
    using id_take_nth_drop [OF assms(3)] assms(1,2) by simp
  then have "takeWhile (\<lambda>b. b \<noteq> 0) asc = takeWhile (\<lambda>b. b \<noteq> 0) (map printable row @ 0 # drop (Suc k) asc)"
    by simp
  also have "\<dots> = map printable row" by (subst takeWhile_append2) auto
  finally show ?thesis by (simp add: ascii_text_def)
qed

lemma dump_rows_one: "row \<noteq> [] \<Longrightarrow> length row \<le> 16 \<Longrightarrow> dump_rows i row = dump_row i row"
  by (simp add: dump_rows.simps [of i] dump_rows.simps [of _ "[]"])

lemma hexdump_rest:
  assumes "i mod 16 = 0" and "0 < n" and "i + n \<le> length cb" and "length asc = 17"
  shows "\<exists>asc' out'. hexdump_loop cb i n (asc, out) = Inr (asc', out') \<and>
    out' @ hexdump_padding (i + n) @ ascii_text asc' =
      out @ (if i \<noteq> 0 then ascii_text asc else []) @ dump_rows i (take n (drop i cb))"
  using assms
proof (induction n arbitrary: i asc out rule: less_induct)
  case (less n)
  define k where "k = min n 16"
  then have b: "0 < k" "k \<le> 16" "k \<le> n" using less.prems(2) by simp_all
  then obtain j where k: "k = Suc j" "j < 16" "k \<le> n" by (cases k) simp_all
  let ?row = "take k (drop i cb)"
  have lk: "i + Suc j \<le> length cb" using less.prems(3) k by simp
  obtain asc1 where one: "hexdump_loop cb i k (asc, out) =
      Inr (asc1, out @ (if i \<noteq> 0 then ascii_text asc else []) @ ''  '' @ hex4_text i @
        concat (map (\<lambda>b. '' '' @ hex2_text b) ?row))"
    and len: "length asc1 = 17" and a1: "take k asc1 = map printable ?row" "asc1 ! k = 0"
    using hexdump_row [OF less.prems(1) k(2) lk less.prems(4)] unfolding k(1) by blast
  let ?out = "out @ (if i \<noteq> 0 then ascii_text asc else []) @ ''  '' @ hex4_text i @
        concat (map (\<lambda>b. '' '' @ hex2_text b) ?row)"
  have asc1: "ascii_text asc1 = '' '' @ map (\<lambda>b. char_of (unat (printable b))) ?row @ [CHR 0x0A]"
    using len b by (intro ascii_text_waiting [OF a1]) simp
  have row: "?out @ replicate (3 * (16 - k)) (CHR '' '') @ ascii_text asc1 =
      out @ (if i \<noteq> 0 then ascii_text asc else []) @ dump_row i ?row"
    using lk k by (simp add: dump_row_def asc1)
  show ?case
  proof (cases "n \<le> 16")
    case True
    then have n: "n = k" by (simp add: k_def)
    have "dump_rows i ?row = dump_row i ?row"
      using lk k by (intro dump_rows_one) simp_all
    then show ?thesis
      using one row hexdump_padding_row [OF less.prems(1), of k] k unfolding n by auto
  next
    case False
    then have k16: "k = 16" by (simp add: k_def)
    have m: "(i + 16) mod 16 = 0" using less.prems(1) by simp
    obtain asc2 out2 where two: "hexdump_loop cb (i + 16) (n - 16) (asc1, ?out) = Inr (asc2, out2)"
      and final: "out2 @ hexdump_padding (i + 16 + (n - 16)) @ ascii_text asc2 =
        ?out @ (if i + 16 \<noteq> 0 then ascii_text asc1 else []) @ dump_rows (i + 16) (take (n - 16) (drop (i + 16) cb))"
      using less.IH [OF _ m _ _ len, of "n - 16" ?out] False less.prems(3) by fastforce
    have run: "hexdump_loop cb i n (asc, out) = Inr (asc2, out2)"
      using hexdump_loop_add [of cb i 16 "n - 16" "(asc, out)"] False one two by (simp add: k16)
    have rows: "dump_rows i (take n (drop i cb)) =
        dump_row i ?row @ dump_rows (i + 16) (take (n - 16) (drop (i + 16) cb))"
      using less.prems(2,3) False
      by (subst dump_rows.simps) (simp add: k16 min_def drop_take add.commute)
    show ?thesis using run final row False by (auto simp: rows k16)
  qed
qed

text \<open>
  C29: The loop of the hexadecimal dump, which prints byte by byte and keeps a buffer of 17 characters for the
  right column, never leaves that buffer and writes the dump row by row: offset, 16 bytes, and their
  printable characters, with the last row padded. It reads outside of the dumped object
  exactly when the size is larger than the object.
\<close>

theorem hexdump_is_row_by_row:
  "hexdump_text buffer sz =
     (if int (length buffer) < sz then Inl Out_Of_Bounds_Read
      else if sz \<le> 0 then Inr [CHR '' '', CHR 0x0A]
      else Inr (dump_rows 0 (take (nat sz) buffer)))"
proof -
  let ?st = "(replicate 17 0, [] :: string)"
  have whole: "\<exists>asc' out'. hexdump_loop buffer 0 n ?st = Inr (asc', out') \<and>
      out' @ hexdump_padding n @ ascii_text asc' =
        (if n = 0 then [CHR '' '', CHR 0x0A] else dump_rows 0 (take n buffer))" if "n \<le> length buffer" for n
  proof (cases n)
    case 0
    then show ?thesis by (simp add: hexdump_padding.simps ascii_text_def)
  next
    case (Suc m)
    then show ?thesis using hexdump_rest [of 0 n buffer "replicate 17 0" "[]"] that by auto
  qed
  show ?thesis
  proof (cases "int (length buffer) < sz")
    case True
    then have "length buffer < nat sz" by simp
    then obtain n where n: "nat sz = length buffer + Suc n" using less_imp_Suc_add by fastforce
    obtain st where "hexdump_loop buffer 0 (length buffer) ?st = Inr st" using whole [of "length buffer"] by auto
    then have "hexdump_loop buffer 0 (nat sz) ?st = Inl Out_Of_Bounds_Read"
      unfolding n hexdump_loop_add by simp
    with True show ?thesis by (simp add: hexdump_text_def)
  next
    case False
    then have "nat sz \<le> length buffer" by simp
    from whole [OF this] False show ?thesis by (auto simp: hexdump_text_def)
  qed
qed

text \<open>
  The bits that \<open>logger_bitdump\<close> prints are the binary representation of the byte, most significant
  digit first.
\<close>

theorem bitdump_is_binary:
  "read_digits digit_value 2 0 (map (bit_digit byte) [0..<8]) = (unat byte, [])"
proof -
  have upt8: "[0..<8] = [0, 1, 2, 3, 4, 5, 6, 7 :: nat]" by code_simp
  have d: "digit_value (bit_digit byte i) = Some (of_bool (bit byte (7 - i)))" if "i < 8" for i
  proof -
    have "push_bit i (ucast byte :: u32) AND 0x80 \<noteq> 0 \<longleftrightarrow> bit (push_bit i (ucast byte :: u32)) 7"
      by (simp add: bit_iff_and_push_bit_not_eq_0 push_bit_of_1)
    also have "\<dots> \<longleftrightarrow> bit byte (7 - i)" using that by (auto simp: bit_simps)
    finally show ?thesis by (simp add: bit_digit_def digit_value_def)
  qed
  have "unat byte = take_bit 8 (unat byte)" using unat_u8_bound [of byte] by (simp add: take_bit_nat_eq_self)
  also have "\<dots> = horner_sum of_bool 2 (map (bit (unat byte)) [0..<8])"
    by (simp add: horner_sum_bit_eq_take_bit)
  finally have "unat byte = horner_sum of_bool 2 (map (bit byte) [0..<8])"
    by (simp add: bit_unsigned_iff upt8)
  then show ?thesis by (simp add: d upt8)
qed

end
