(* ===== verification/Isolation.thy ===== *)
theory Isolation
  imports Main_Loop
begin

text \<open>
  Which datagrams can influence the process at all. Packets of other hosts reach both sockets and are copied into the receive arrays
  before their source is looked at. As long as the server sends complete messages, nothing of them
  is ever read: the process behaves as if they had not been there.
\<close>

subsection \<open>Complete control messages\<close>

text \<open>The bytes a handler may read for an attribute, whatever length the attribute claims.\<close>

definition attr_reach :: "grecpattr \<Rightarrow> nat" where
  "attr_reach a =
     (if attr_id a = GRECP_MSGATTR_TIMESTAMP then 8
      else if attr_id a = GRECP_MSGATTR_ERROR_CODE \<or> attr_id a = GRECP_MSGATTR_FILTER_LIST_PACKAGE then 4
      else unat (attr_length a))"

definition complete_message :: "bytes \<Rightarrow> bool" where
  "complete_message msg \<longleftrightarrow> 9 \<le> length msg \<and>
     (\<forall>a \<in> set (parse_attrs msg 9 (int (length msg) - 9)). attr_value a + attr_reach a \<le> length msg)"

text \<open>A loop body that only reads what belongs to its attribute.\<close>

locale local_body =
  fixes body :: "bytes \<Rightarrow> grecpattr \<Rightarrow> 's \<Rightarrow> fault + 's"
  assumes local: "attr_value a + unat (attr_length a) \<le> length msg \<Longrightarrow> attr_value a + attr_reach a \<le> length msg \<Longrightarrow>
    body (msg @ rest) a s = body msg a s"

lemma read_grecpattribute_local:
  assumes "int p + sz \<le> int (length msg)"
  shows "read_grecpattribute (msg @ rest) p sz = read_grecpattribute msg p sz"
  using assms by (auto simp: read_grecpattribute_def mem_read_def)

lemma parse_attrs_local:
  "int p + sz \<le> int (length msg) \<Longrightarrow> parse_attrs (msg @ rest) p sz = parse_attrs msg p sz"
proof (induction msg p sz rule: parse_attrs.induct)
  case (1 msg p sz)
  show ?case
  proof (cases "\<exists>a. read_grecpattribute msg p sz = Inr (Some a)")
    case True
    then obtain a where a: "read_grecpattribute msg p sz = Inr (Some a)" by blast
    with "1.IH" [OF a refl] "1.prems" show ?thesis
      by (simp add: parse_attrs.simps [of _ p sz] read_grecpattribute_local)
  next
    case False
    then show ?thesis
      using "1.prems" by (auto simp: parse_attrs.simps [of _ p sz] read_grecpattribute_local
          split: sum.split option.split)
  qed
qed

context local_body begin

lemma loop_local:
  assumes "int p + sz = int (length msg)"
    and "\<forall>a \<in> set (parse_attrs msg p sz). attr_value a + attr_reach a \<le> length msg"
  shows "attr_loop body (msg @ rest) p sz s = attr_loop body msg p sz s"
proof -
  have "attr_value a + unat (attr_length a) \<le> length msg" if "a \<in> set (parse_attrs msg p sz)" for a
  proof (cases "0 < sz")
    case True
    with parse_attrs_within [OF that] assms(1) show ?thesis by linarith
  next
    case False
    with that show ?thesis by simp
  qed
  then have "fold_res (body (msg @ rest)) (parse_attrs msg p sz) s = fold_res (body msg) (parse_attrs msg p sz) s"
    using assms(2) by (intro fold_res_cong refl local) auto
  then show ?thesis using assms(1) by (simp add: attr_loop_eq_fold parse_attrs_local)
qed

end

lemma mem_read_local: "p + n \<le> length msg \<Longrightarrow> mem_read (msg @ rest) p n = mem_read msg p n"
  by (simp add: mem_read_def)

lemma attr_payload_local:
  "attr_value a + unat (attr_length a) \<le> length msg \<Longrightarrow> attr_payload (msg @ rest) a = attr_payload msg a"
  by (simp add: attr_payload_def)

interpretation accept_local: local_body accept_attribute
  by unfold_locales (simp add: accept_attribute_def attr_payload_local)

interpretation error_code_local: local_body error_code_attribute
  by unfold_locales (auto simp: error_code_attribute_def mem_read_local attr_reach_def)

interpretation hello_local: local_body "hello_attribute w t" for w t
  by unfold_locales (auto simp: hello_attribute_def mem_read_local attr_reach_def)

interpretation notify_local: local_body notify_attribute
  by unfold_locales (auto simp: notify_attribute_def mem_read_local attr_reach_def)

lemmas handler_defs = handle_grecpaccept_def handle_grecpdeny_def handle_grecphello_def
  handle_grecpteardown_def handle_grecpnotify_def

lemma header_local:
  assumes "9 \<le> length msg"
  shows "greh_flags_and_version (msg @ rest) = greh_flags_and_version msg"
    "greh_key (msg @ rest) = greh_key msg" "msgtype_and_tuntype (msg @ rest) = msgtype_and_tuntype msg"
  using assms by (simp_all add: greh_flags_and_version_def greh_key_def msgtype_and_tuntype_def)

lemma process_complete:
  assumes "complete_message msg"
  shows "process_grecpmessage w (msg @ rest) (int (length msg)) s = process_grecpmessage w msg (int (length msg)) s"
proof -
  have p: "int 9 + (int (length msg) - 9) = int (length msg)" by simp
  have r: "\<forall>a \<in> set (parse_attrs msg 9 (int (length msg) - 9)). attr_value a + attr_reach a \<le> length msg"
    and len: "9 \<le> length msg"
    using assms by (simp_all add: complete_message_def)
  show ?thesis
    by (simp only: process_grecpmessage_def handler_defs header_local [OF len]
        accept_local.loop_local [OF p r] error_code_local.loop_local [OF p r]
        hello_local.loop_local [OF p r] notify_local.loop_local [OF p r])
qed

subsection \<open>Complete data packets\<close>

definition complete_packet :: "bytes \<Rightarrow> bool" where
  "complete_packet data \<longleftrightarrow> 8 \<le> length data \<and>
     (greh_flags_and_version data = htons GRECP_FLAGSANDVERSION_WITH_SEQ \<longrightarrow> 12 \<le> length data)"

lemma gre_header_local: "8 \<le> length data \<Longrightarrow> greh_flags_and_version (data @ rest) = greh_flags_and_version data"
  by (simp add: greh_flags_and_version_def)

text \<open>Two states of the receiving thread that differ at most in the left-over bytes of the array.\<close>

definition same_packets :: "gre2tun \<Rightarrow> gre2tun \<Rightarrow> bool" where
  "same_packets st st' \<longleftrightarrow> packets st' = packets st \<and> sequence_flushed st' = sequence_flushed st"

lemma same_packets_refl [simp]: "same_packets st st" "same_packets (st\<lparr>rxbuf := b\<rparr>) st' \<longleftrightarrow> same_packets st st'"
    "same_packets st (st'\<lparr>rxbuf := b\<rparr>) \<longleftrightarrow> same_packets st st'"
  by (simp_all add: same_packets_def)

definition similar :: "('s \<Rightarrow> 's \<Rightarrow> bool) \<Rightarrow> fault + ('s \<times> 'b) \<Rightarrow> fault + ('s \<times> 'b) \<Rightarrow> bool" where
  "similar R x y \<longleftrightarrow> rel_sum (=) (rel_prod R (=)) x y"

lemma flush_buffer_similar: "same_packets st st' \<Longrightarrow> similar same_packets (flush_buffer now timeout st) (flush_buffer now timeout st')"
  by (cases "process_reorder_buffer now timeout (packets st) (sequence_flushed st)")
    (auto simp: similar_def flush_buffer_def same_packets_def case_prod_beta)

lemma similar_direct:
  "similar same_packets x y \<Longrightarrow> similar same_packets (bind_res x (\<lambda>(st, out). Inr (st, z @ out))) (bind_res y (\<lambda>(st, out). Inr (st, z @ out)))"
  by (cases x; cases y) (auto simp: similar_def)

lemma payload_local:
  assumes "12 \<le> length data" and "length data \<le> MAX_PKT_SIZE"
  shows "mem_read (data @ rest) 12 (unat (of_int (int (length data) - 12) :: u16)) = Inr (drop 12 data)"
proof -
  obtain k where k: "length data = 12 + k" using assms(1) le_Suc_ex by blast
  then have "unat (of_int (int (length data) - 12) :: u16) = k"
    using assms(2) by (simp add: unat_of_nat)
  then show ?thesis using k by (simp add: mem_read_def)
qed

text \<open>The turn on a complete packet, over the received bytes alone.\<close>

definition data_turn :: "in6_addr \<Rightarrow> timeval \<Rightarrow> in6_addr \<Rightarrow> bytes \<Rightarrow> timeval \<Rightarrow> timeval \<Rightarrow> gre2tun \<Rightarrow>
    fault + (gre2tun \<times> bytes list)" where
  "data_turn peer timeout src d stamp now st =
     (let flags = greh_flags_and_version d; n = (if flags = htons GRECP_FLAGSANDVERSION_WITH_SEQ then 12 else 8) in
      if src \<noteq> peer \<or> flags \<noteq> htons GRECP_FLAGSANDVERSION_WITH_SEQ \<and> flags \<noteq> htons GRECP_FLAGSANDVERSION
      then Inr (st, [])
      else if n = 8 \<or> (tv_sec timeout = 0 \<and> tv_usec timeout = 0)
      then bind_res (flush_buffer now timeout st) (\<lambda>(st, out). Inr (st, [drop n d] @ out))
      else flush_buffer now timeout (st\<lparr>packets := packets st @
        [\<lparr>sequence = ntohl (word_of_bytes (take 4 (drop 8 d))), timestamp = stamp, packet = drop 12 d,
          psize = of_int (int (length d) - 12), freed = False\<rparr>]\<rparr>))"

lemma iteration_data_turn:
  assumes "complete_packet d" and "d = take MAX_PKT_SIZE data" and "b = d @ drop (length data) (rxbuf st)"
  shows "gre2tun_iteration peer timeout (Received src data) stamp now st =
    data_turn peer timeout src d stamp now (st\<lparr>rxbuf := b\<rparr>)"
proof -
  have len: "8 \<le> length d" "length d \<le> MAX_PKT_SIZE" "min MAX_PKT_SIZE (length data) = length d"
    using assms(1,2) by (simp_all add: complete_packet_def)
  have flags: "greh_flags_and_version b = greh_flags_and_version d"
    unfolding assms(3) using gre_header_local [OF len(1)] by simp
  have direct: "take (length d - n) (drop n b) = drop n d" if "n \<le> length d" for n
    using that by (simp add: assms(3))
  note unfolded = gre2tun_iteration_def data_turn_def gre_input.case len(3) assms(2) [symmetric]
    assms(3) [symmetric] Let_def flags
  show ?thesis
  proof (cases "greh_flags_and_version d = htons GRECP_FLAGSANDVERSION_WITH_SEQ")
    case True
    then have 12: "12 \<le> length d" using assms(1) by (simp add: complete_packet_def)
    then have seq: "take 4 (drop 8 b) = take 4 (drop 8 d)" by (simp add: assms(3))
    have m: "mem_read b 12 (unat (of_int (int (length d) - 12) :: u16)) = Inr (drop 12 d)"
      unfolding assms(3) by (rule payload_local [OF 12 len(2)])
    show ?thesis
      unfolding unfolded True seq by (simp add: 12 direct [OF 12] m [simplified])
  next
    case False
    show ?thesis unfolding unfolded using False len(1) by (simp add: direct [OF len(1)])
  qed
qed

lemma similar_Inr: "same_packets st st' \<Longrightarrow> similar same_packets (Inr (st, x)) (Inr (st', x))"
  by (simp add: similar_def)

lemma data_turn_similar:
  assumes "same_packets st st'"
  shows "similar same_packets (data_turn peer timeout src d stamp now st) (data_turn peer timeout src d stamp now st')"
proof -
  have "same_packets (st\<lparr>packets := packets st @ [e]\<rparr>) (st'\<lparr>packets := packets st' @ [e]\<rparr>)" for e
    using assms by (simp add: same_packets_def)
  then show ?thesis
    unfolding data_turn_def Let_def
    using flush_buffer_similar [OF assms] assms
    by (auto intro!: flush_buffer_similar similar_direct similar_Inr simp: assms [unfolded same_packets_def] simp del: append_Cons)
qed

subsection \<open>Datagrams of other hosts\<close>

text \<open>\<open>purge\<close> takes the datagrams of other hosts out of a run; the server is the one of the state in which they arrive.\<close>

fun purge :: "process \<Rightarrow> event \<Rightarrow> event" where
  "purge p (Control w (Datagram src data)) =
     Control w (if src = haap_ip (haap (rt (proc p))) then Datagram src data else No_Datagram)"
| "purge p (Download (Received src data) stamp now) =
     Download (if src = haap_ip (haap (rt (proc p))) then Received src data else Nothing_Received False) stamp now"
| "purge p e = e"

fun purged :: "process \<Rightarrow> event list \<Rightarrow> event list" where
  "purged p [] = []"
| "purged p (e # es) = purge p e # (case process_step e p of Inl f \<Rightarrow> [] | Inr q \<Rightarrow> purged q es)"

fun complete_event :: "event \<Rightarrow> bool" where
  "complete_event (Control w (Datagram src data)) = complete_message (take MAX_PKT_SIZE data)"
| "complete_event (Download (Received src data) stamp now) = complete_packet (take MAX_PKT_SIZE data)"
| "complete_event e = True"

text \<open>The same state up to the left-over bytes of the receive arrays.\<close>

definition same_view :: "process \<Rightarrow> process \<Rightarrow> bool" where
  "same_view p q \<longleftrightarrow> proc p = proc q \<and> sender p = sender q \<and> tunout p = tunout q \<and>
     same_packets (receiver p) (receiver q) \<and> trim_rest p = trim_rest q \<and>
     receiver_name p = receiver_name q \<and> sender_name p = sender_name q"

lemma same_view_refl [simp]: "same_view p p"
  by (simp add: same_view_def)

lemma main_iteration_complete:
  assumes "complete_message (take MAX_PKT_SIZE data)"
  shows "main_iteration w (Datagram (haap_ip (haap (rt s))) data) (buffer, s) =
    bind_res (process_grecpmessage w (take MAX_PKT_SIZE data) (int (length (take MAX_PKT_SIZE data))) s) (\<lambda>s.
    bind_res (execute_timers w s) (\<lambda>s. Inr (receive_into buffer data, s)))"
proof -
  have "process_grecpmessage w (receive_into buffer data) (int (length (take MAX_PKT_SIZE data))) s =
      process_grecpmessage w (take MAX_PKT_SIZE data) (int (length (take MAX_PKT_SIZE data))) s"
    unfolding receive_into_def by (rule process_complete [OF assms])
  then show ?thesis
    unfolding main_iteration_def by (simp add: Let_def bind_res_assoc del: length_take)
qed

lemma control_view:
  assumes "process_step (Control w inp) p = Inr p'" and "buffers_ok p" "buffers_ok q" and "same_view p q"
    and "complete_event (purge p (Control w inp))"
  shows "\<exists>q'. process_step (purge p (Control w inp)) q = Inr q' \<and> same_view p' q'"
proof -
  obtain b s where it: "main_iteration w inp (main_buffer p, proc p) = Inr (b, s)"
    and p': "p' = p\<lparr>main_buffer := b, proc := s\<rparr>"
    using assms(1) by (auto simp: bind_res_eq_Inr)
  have q: "proc q = proc p" using assms(4) by (simp add: same_view_def)
  have view: "same_view p' (q\<lparr>main_buffer := b', proc := s\<rparr>)" for b'
    using assms(4) by (simp add: p' same_view_def)
  show ?thesis
  proof (cases inp)
    case No_Datagram
    then show ?thesis using it view [of "main_buffer q"] by (auto simp: main_iteration_def bind_res_eq_Inr q)
  next
    case (Datagram src data)
    show ?thesis
    proof (cases "src = haap_ip (haap (rt (proc p)))")
      case False
      then have "execute_timers w (proc p) = Inr s"
        using it by (auto simp: Datagram main_iteration_def Let_def bind_res_eq_Inr)
      with False show ?thesis
        using view [of "main_buffer q"] by (auto simp: Datagram main_iteration_def q)
    next
      case True
      let ?d = "take MAX_PKT_SIZE data"
      have c: "complete_message ?d" using assms(5) True by (simp add: Datagram)
      have run: "main_iteration w inp (buf, proc p) =
          bind_res (process_grecpmessage w ?d (int (length ?d)) (proc p)) (\<lambda>s.
          bind_res (execute_timers w s) (\<lambda>s. Inr (receive_into buf data, s)))" for buf
        using main_iteration_complete [OF c, of w "proc p" buf] by (simp only: Datagram True)
      have "main_iteration w inp (main_buffer q, proc q) = Inr (receive_into (main_buffer q) data, s)"
        using it unfolding q run by (auto simp: bind_res_eq_Inr)
      with True show ?thesis using view by (auto simp: Datagram)
    qed
  qed
qed

lemma similarE:
  assumes "similar R (Inr (s, x)) r"
  obtains s' where "r = Inr (s', x)" "R s s'"
  using assms by (cases r) (auto simp: similar_def)

lemma download_view:
  assumes "process_step (Download inp stamp now) p = Inr p'" and "buffers_ok p" "buffers_ok q" and "same_view p q"
    and "complete_event (purge p (Download inp stamp now))"
  shows "\<exists>q'. process_step (purge p (Download inp stamp now)) q = Inr q' \<and> same_view p' q'"
proof (cases "gre2tun_thread (rt (proc p)) = 0")
  case True
  then show ?thesis using assms by (cases inp) (auto simp: same_view_def)
next
  case False
  let ?ip = "haap_ip (haap (rt (proc p)))" and ?to = "reorder_buffer_timeout (rt (proc p))"
  have q: "proc q = proc p" and pk: "same_packets (receiver p) (receiver q)"
    using assms(4) by (simp_all add: same_view_def)
  obtain n st out where name: "enter_thread (gre2tun_thread_name (fst (trim_rest p)) (tunnel_interface_name (rt (proc p))))
      (receiver_name p) = Inr n"
    and it: "gre2tun_iteration ?ip ?to inp stamp now (receiver p) = Inr (st, out)"
    and p': "p' = p\<lparr>receiver_name := Some n, receiver := st, tunout := tunout p @ out\<rparr>"
    using assms(1) False by (auto simp: bind_res_eq_Inr)
  have fin: ?thesis if "purge p (Download inp stamp now) = Download inp' stamp now"
    and "similar same_packets (Inr (st, out)) (gre2tun_iteration ?ip ?to inp' stamp now (receiver q))" for inp'
    using that(2)
  proof (rule similarE)
    fix st' assume "gre2tun_iteration ?ip ?to inp' stamp now (receiver q) = Inr (st', out)" and "same_packets st st'"
    then show ?thesis using assms(4) False name by (simp add: that(1) p' q same_view_def)
  qed
  show ?thesis
  proof (cases inp)
    case (Nothing_Received again)
    have "similar same_packets (gre2tun_iteration ?ip ?to inp stamp now (receiver p))
        (gre2tun_iteration ?ip ?to inp stamp now (receiver q))"
      using flush_buffer_similar [OF pk] pk by (simp add: Nothing_Received gre2tun_iteration_def similar_Inr)
    then show ?thesis unfolding it by (intro fin [of inp]) (simp add: Nothing_Received)
  next
    case (Received src data)
    show ?thesis
    proof (cases "src = ?ip")
      case True
      then have c: "complete_packet (take MAX_PKT_SIZE data)" using assms(5) by (simp add: Received)
      have "similar same_packets (gre2tun_iteration ?ip ?to inp stamp now (receiver p))
          (gre2tun_iteration ?ip ?to inp stamp now (receiver q))"
        unfolding Received iteration_data_turn [OF c refl refl] by (rule data_turn_similar) (simp add: pk)
      then show ?thesis unfolding it by (intro fin [of inp]) (simp add: Received True)
    next
      case False
      then have "same_packets st (receiver q)" "out = []"
        using it pk by (auto simp: Received gre2tun_iteration_def Let_def)
      then have "similar same_packets (Inr (st, out)) (gre2tun_iteration ?ip ?to (Nothing_Received False) stamp now (receiver q))"
        by (simp add: gre2tun_iteration_def similar_Inr)
      then show ?thesis by (intro fin) (simp_all add: Received False)
    qed
  qed
qed

lemma step_view:
  assumes "process_step e p = Inr p'" and "buffers_ok p" "buffers_ok q" and "same_view p q"
    and "complete_event (purge p e)"
  shows "\<exists>q'. process_step (purge p e) q = Inr q' \<and> same_view p' q'"
proof (cases e)
  case (Control w inp)
  show ?thesis using control_view [OF assms(1) [unfolded Control] assms(2-4)] assms(5) by (simp only: Control)
next
  case (Download inp stamp now)
  show ?thesis using download_view [OF assms(1) [unfolded Download] assms(2-4)] assms(5) by (simp only: Download)
next
  case (Signal sig)
  then show ?thesis using assms(1,4) by (auto simp: same_view_def)
next
  case (Upload w data)
  then show ?thesis using assms(1,4) by (auto simp: same_view_def bind_res_eq_Inr split: if_splits)
qed

lemma steps_view:
  assumes "steps p es p'" and "buffers_ok p" "buffers_ok q" and "same_view p q"
    and "\<forall>e \<in> set (purged p es). complete_event e"
  shows "\<exists>q'. steps q (purged p es) q' \<and> same_view p' q'"
  using assms
proof (induction arbitrary: q rule: steps.induct)
  case (steps_refl p)
  then show ?case by (auto simp: steps_Nil)
next
  case (steps_step p e p1 es p2)
  have purged: "purged p (e # es) = purge p e # purged p1 es" by (simp add: steps_step(2))
  have c: "complete_event (purge p e)" "\<forall>e \<in> set (purged p1 es). complete_event e"
    using steps_step(8) unfolding purged by simp_all
  obtain q1 where q1: "process_step (purge p e) q = Inr q1" "same_view p1 q1"
    using step_view [OF steps_step(2,5,6,7) c(1)] by blast
  obtain q2 where "steps q1 (purged p1 es) q2" "same_view p2 q2"
    using steps_step.IH [OF process_step_buffers [OF steps_step(2,5)] process_step_buffers [OF q1(1) steps_step(6)] q1(2) c(2)]
    by blast
  moreover have "exited (proc q) = None" using steps_step(1,7) by (simp add: same_view_def)
  ultimately show ?case unfolding purged using q1(1) by (blast intro: steps.steps_step)
qed

text \<open>C5: Datagrams of other hosts have no effect. Take them out of a run of the process, and nothing
  changes but left-over bytes in the receive arrays: the same state, the same effects, the same packets for the
  tun device, as long as the datagrams of the server are complete.\<close>

theorem foreign_datagrams_have_no_effect:
  assumes "steps p es q" and "buffers_ok p" and "\<forall>e \<in> set (purged p es). complete_event e"
  shows "\<exists>q'. steps p (purged p es) q' \<and> proc q' = proc q \<and> sender q' = sender q \<and> tunout q' = tunout q \<and>
    packets (receiver q') = packets (receiver q) \<and> sequence_flushed (receiver q') = sequence_flushed (receiver q)"
  using steps_view [OF assms(1,2,2) _ assms(3)] by (auto simp: same_view_def same_packets_def)

text \<open>A junk packet on the data socket, then a forged tear down message of another host.\<close>

theorem foreign_datagrams_have_no_effect_witness:
  "\<exists>p q q'. steps p [Download (Received (replicate 16 1) [0x30]) (Timeval 9 0) (Timeval 9 0),
        Control (silent_env 106) (Datagram (replicate 16 1) (grecp_header 6 GRECP_MSGTYPE_TEARDOWN 0))] q \<and>
     steps p [Download (Nothing_Received False) (Timeval 9 0) (Timeval 9 0), Control (silent_env 106) No_Datagram] q' \<and>
     proc q' = proc q \<and> tunout q' = tunout q"
proof -
  let ?b = "replicate MAX_PKT_SIZE (0 :: u8)" and ?msg = "grecp_header 6 GRECP_MSGTYPE_TEARDOWN 0"
  let ?p = "initial ?b ?b ?b zero_rest second_session"
  let ?e1 = "Download (Received (replicate 16 1) [0x30]) (Timeval 9 0) (Timeval 9 0)"
  let ?e2 = "Control (silent_env 106) (Datagram (replicate 16 1) ?msg)"
  let ?p1 = "?p\<lparr>receiver_name := Some ''-recv'', receiver := (receiver ?p)\<lparr>rxbuf := 0x30 # drop 1 ?b\<rparr>\<rparr>"
  have sel: "haap_ip (haap (rt second_session)) = in6addr_any" "exited second_session = None"
      "gre2tun_thread (rt second_session) = 3" "tunnel_interface_name (rt second_session) = []"
    by (simp_all add: second_session_def init_sys_def zero_haap_def zero_runtime_def)
  have name: "gre2tun_thread_name (CHR 0x00) [] = Inr ''-recv''"
    by (simp add: gre2tun_thread_name_def thread_name_def trimifname_def numeral_eq_Suc)
  have ne: "replicate 16 1 \<noteq> in6addr_any" by (simp add: in6addr_any_def numeral_eq_Suc)
  obtain s' where s': "execute_timers (silent_env 106) second_session = Inr s'"
    using execute_timers_total [of "silent_env 106" second_session]
    by (auto simp: silent_env_def second_session_def)
  have 1: "process_step ?e1 ?p = Inr ?p1"
    using ne by (simp add: initial_def sel gre2tun_iteration_def init_gre2tun_def Let_def enter_thread_def name)
  let ?q = "?p1\<lparr>main_buffer := receive_into ?b ?msg, proc := s'\<rparr>"
  have 2: "process_step ?e2 ?p1 = Inr ?q"
    using ne s' by (simp add: initial_def sel main_iteration_def Let_def)
  have st: "steps ?p [?e1, ?e2] ?q"
    using 1 2 by (simp add: steps_Cons steps_Nil initial_def sel del: process_step.simps)
  have pu: "purged ?p [?e1, ?e2] = [Download (Nothing_Received False) (Timeval 9 0) (Timeval 9 0), Control (silent_env 106) No_Datagram]"
    using ne 1 2 by (simp add: initial_def sel del: process_step.simps)
  have "buffers_ok ?p" by (simp add: buffers_ok_def initial_def array_ok_def init_gre2tun_def init_tun2gre_def)
  from foreign_datagrams_have_no_effect [OF st this] obtain q' where "steps ?p
      [Download (Nothing_Received False) (Timeval 9 0) (Timeval 9 0), Control (silent_env 106) No_Datagram] q'"
    "proc q' = proc ?q" "tunout q' = tunout ?q" unfolding pu by auto
  with st show ?thesis by (intro exI [of _ ?p] exI [of _ ?q] exI [of _ q'] conjI)
qed

end
