(* ===== verification/Tunnels.thy ===== *)
theory Tunnels
  imports Main_Loop
begin

text \<open>
  The two tunnels as states up and down. A control message is a verdict over them, and the timers can only
  give tunnels up. \<open>Automaton\<close> adds the hellos and the process.
\<close>

subsection \<open>The abstract automaton\<close>

definition tunnels :: "runtime \<Rightarrow> bool \<times> bool" where
  "tunnels r = (tunnel_established (lte r), tunnel_established (dsl r))"

datatype verdict = Accepted u8 | Torn_Down | No_Verdict

definition verdict :: "u32 \<Rightarrow> bytes \<Rightarrow> verdict" where
  "verdict key buf =
     (let mt = msgtype_and_tuntype buf; typ = drop_bit 4 mt; tun = mt AND 0x0f in
      if ntohs (greh_flags_and_version buf) \<noteq> GRECP_FLAGSANDVERSION then No_Verdict
      else if tun \<noteq> GRECP_TUNTYPE_LTE \<and> tun \<noteq> GRECP_TUNTYPE_DSL then No_Verdict
      else if typ = GRECP_MSGTYPE_ACCEPT then Accepted tun
      else if typ = GRECP_MSGTYPE_TEARDOWN \<and> ntohl (greh_key buf) = key then Torn_Down
      else No_Verdict)"

fun tunnels_after :: "verdict \<Rightarrow> bool \<times> bool \<Rightarrow> bool \<times> bool" where
  "tunnels_after (Accepted tun) (l, d) = (if tun = GRECP_TUNTYPE_LTE then (True, d) else (l, True))"
| "tunnels_after Torn_Down (l, d) = (False, False)"
| "tunnels_after No_Verdict (l, d) = (l, d)"

subsection \<open>Messages\<close>

lemma hello_attribute_cases:
  "hello_attribute w t buf a s = Inr s' \<Longrightarrow> s' = s \<or> (\<exists>sec ms. s' = hello_received w t sec ms s)"
  by (auto simp: hello_attribute_def bind_res_eq_Inr split: if_splits)

lemma tunnels_hello_received: "tunnels (rt (hello_received w t sec ms s)) = tunnels (rt s)"
  by (simp add: hello_received_def get_uptime_eq Let_def tunnels_def)

interpretation hello_tunnels: attribute_body "hello_attribute w t" "\<lambda>s. tunnels (rt s) = x" 8 for w t x
proof
  fix s a buf s'
  assume "tunnels (rt s) = x" and "hello_attribute w t buf a s = Inr s'"
  then show "tunnels (rt s') = x"
    using hello_attribute_cases tunnels_hello_received by metis
qed (rule hello_body.reads_near)

interpretation notify_tunnels: attribute_body notify_attribute "\<lambda>s. tunnels (rt s) = x" 4 for x
proof
  fix s a buf s'
  assume "tunnels (rt s) = x" and "notify_attribute buf a s = Inr s'"
  then show "tunnels (rt s') = x"
    by (auto simp: notify_attribute_def bind_res_eq_Inr tunnels_def split: if_splits)
qed (rule notify_body.reads_near)

lemma establish_tunnels:
  "tunnels (rt (establish_tunnel w t (set_haap (\<lambda>_. h) s))) = tunnels_after (Accepted t) (tunnels (rt s))"
  by (simp add: establish_tunnel_def get_uptime_eq tunnels_def)

lemma process_tunnels:
  assumes "process_grecpmessage w buf sz s = Inr s'"
  shows "tunnels (rt s') = tunnels_after (verdict (bonding_key (haap (rt s))) buf) (tunnels (rt s))"
proof -
  have accept: "tunnels (rt s') = tunnels_after (Accepted t) (tunnels (rt s))"
    if "handle_grecpaccept w t buf 9 (sz - 9) s = Inr s'" for t
    using handle_grecpaccept_frame [OF that] establish_tunnels by blast
  have teardown: "tunnels (rt s') = (False, False)" if "handle_grecpteardown buf 9 (sz - 9) s = Inr s'"
    using handle_grecpteardown_result [OF that] by (simp add: tunnels_def)
  have none: "tunnels_after No_Verdict x = x" for x by (cases x) simp
  have down: "tunnels_after Torn_Down x = (False, False)" for x by (cases x) simp
  show ?thesis
    using assms hello_tunnels.loop_keeps [OF refl] notify_tunnels.loop_keeps [OF refl]
    by (auto simp: process_grecpmessage_def verdict_def handle_grecphello_def handle_grecpnotify_def Let_def
        none down accept teardown dest: handle_grecpdeny_unchanged split: if_splits)
qed

text \<open>No message makes more hellos missed.\<close>

definition missed :: "runtime \<Rightarrow> nat \<times> nat" where
  "missed r = (unat (missed_hellos (lte r)), unat (missed_hellos (dsl r)))"

definition missed_le :: "nat \<times> nat \<Rightarrow> sys \<Rightarrow> bool" where
  "missed_le x s \<longleftrightarrow> fst (missed (rt s)) \<le> fst x \<and> snd (missed (rt s)) \<le> snd x"

lemma missed_hello_received: "missed_le x s \<Longrightarrow> missed_le x (hello_received w t sec ms s)"
  by (simp add: hello_received_def get_uptime_eq Let_def missed_le_def missed_def)

interpretation hello_missed: attribute_body "hello_attribute w t" "missed_le x" 8 for w t x
proof
  fix s a buf s'
  assume "missed_le x s" and "hello_attribute w t buf a s = Inr s'"
  then show "missed_le x s'"
    using hello_attribute_cases missed_hello_received by metis
qed (rule hello_body.reads_near)

interpretation notify_missed: attribute_body notify_attribute "missed_le x" 4 for x
proof
  fix s a buf s'
  assume "missed_le x s" and "notify_attribute buf a s = Inr s'"
  then show "missed_le x s'"
    by (auto simp: notify_attribute_def bind_res_eq_Inr missed_le_def missed_def split: if_splits)
qed (rule notify_body.reads_near)

lemma process_missed:
  assumes "process_grecpmessage w buf sz s = Inr s'"
  shows "missed_le (missed (rt s)) s'"
proof -
  have refl: "missed_le (missed (rt s)) s" by (simp add: missed_le_def)
  have accept: "missed_le (missed (rt s)) s'" if "handle_grecpaccept w t buf 9 (sz - 9) s = Inr s'" for t
    using handle_grecpaccept_frame [OF that]
    by (auto simp: establish_tunnel_def get_uptime_eq missed_le_def missed_def)
  have teardown: "missed_le (missed (rt s)) s'" if "handle_grecpteardown buf 9 (sz - 9) s = Inr s'"
    using handle_grecpteardown_result [OF that] by (simp add: missed_le_def missed_def)
  show ?thesis
    using assms refl hello_missed.loop_keeps [OF refl] notify_missed.loop_keeps [OF refl]
    by (auto simp: process_grecpmessage_def handle_grecphello_def handle_grecpnotify_def Let_def
        intro: accept teardown dest: handle_grecpdeny_unchanged split: if_splits)
qed

subsection \<open>Timers\<close>

lemma unat_u8_Suc_le: "unat (m + 1 :: u8) \<le> unat m + 1"
  by (simp add: unat_word_ariths)

context hello_slot begin

lemma hello_timer_missed:
  "unat (missed_hellos (sel (rt (hello_timer sel upd tuntype w s)))) \<le> unat (missed_hellos (sel (rt s))) + 1"
  using unat_u8_Suc_le [of "missed_hellos (sel (rt s))"]
  by (simp add: hello_timer_def get_uptime_eq Let_def sent sel_upd)

end

text \<open>What the sections behind the verification leave of the tunnels.\<close>

lemma reset_tunnels: "tunnels (rt (reset_dsl (reset_lte s))) = tunnels (rt s)"
  by (simp add: tunnels_def reset_dsl_def reset_lte_def)

lemma bypass_tunnels: "tunnels (rt (bypass_timer w s)) = tunnels (rt s)"
proof (cases "tunnel_established (dsl (rt s))")
  case True
  obtain t where "rt (snd (send_grecpnotify_bypasstraffic w 1000 (s\<lparr>tick := Suc (tick s)\<rparr>))) =
      dsl_update (last_bypass_traffic_sent_update (\<lambda>_. t)) (rt s)"
    using rt_send_bypass [of w 1000 "s\<lparr>tick := Suc (tick s)\<rparr>"] by auto
  then show ?thesis by (simp add: bypass_timer_def get_uptime_eq Let_def tunnels_def)
qed (simp add: bypass_timer_def)

lemma timers_tunnels:
  assumes "execute_timers w s = Inr s'"
  obtains m1 m2 where "m1 \<le> fst (missed (rt s)) + 1" "m2 \<le> snd (missed (rt s)) + 1"
    "tunnels (rt s') = (fst (tunnels (rt s)) \<and> m1 < unat (hello_retry_times (haap (rt s))),
      snd (tunnels (rt s)) \<and> m2 < unat (hello_retry_times (haap (rt s))))"
proof -
  obtain s1 s2 where s1: "update_ips w s = Inr s1"
    and s2: "start_threads w (tunnel_device w (tunnel_sections w s1)) = Inr s2"
    and s': "s' = handle_pending_signal w (after_threads w s2)"
    using execute_timersE [OF assms] .
  define v where "v = verify_tunnel w (ack_filter_list w (connect_tunnels w s1))"
  define b where "b = hello_timer dsl dsl_update GRECP_TUNTYPE_DSL w (hello_timer lte lte_update GRECP_TUNTYPE_LTE w v)"
  define c where "c = hello_verification dsl dsl_update (hello_verification lte lte_update b)"
  have "tunnels (rt s') = tunnels (rt (reset_dsl (reset_lte (bypass_timer w c))))"
    unfolding s' tunnels_def session_after_timers [OF s2]
    by (simp add: tunnel_sections_def c_def b_def v_def)
  then have fin: "tunnels (rt s') = tunnels (rt c)" by (simp add: reset_tunnels bypass_tunnels)
  obtain x where x: "lte (rt v) = (lte (rt s1))\<lparr>tunnel_verification_required := x\<rparr>"
    using verify_tunnel_lte [of w "ack_filter_list w (connect_tunnels w s1)"] by (auto simp: v_def)
  have v: "tunnels (rt v) = tunnels (rt s)" "missed (rt v) = missed (rt s)" "haap (rt v) = haap (rt s)"
    using update_ips_session [OF s1] x by (auto simp: tunnels_def missed_def v_def)
  have hb: "haap (rt b) = haap (rt v)"
    by (simp add: b_def lte_hello.hello_timer_haap dsl_hello.hello_timer_haap)
  have tb: "tunnels (rt b) = tunnels (rt v)"
    by (simp add: b_def tunnels_def lte_hello.hello_timer_established dsl_hello.hello_timer_established)
  have m: "unat (missed_hellos (lte (rt b))) \<le> fst (missed (rt v)) + 1"
    "unat (missed_hellos (dsl (rt b))) \<le> snd (missed (rt v)) + 1"
    using lte_hello.hello_timer_missed [of w v]
      dsl_hello.hello_timer_missed [of w "hello_timer lte lte_update GRECP_TUNTYPE_LTE w v"]
    by (simp_all add: b_def missed_def)
  have "tunnels (rt c) = (fst (tunnels (rt b)) \<and> unat (missed_hellos (lte (rt b))) < unat (hello_retry_times (haap (rt b))),
      snd (tunnels (rt b)) \<and> unat (missed_hellos (dsl (rt b))) < unat (hello_retry_times (haap (rt b))))"
    by (simp add: c_def tunnels_def lte_hello.verification_sel dsl_hello.verification_sel lte_hello.verification_haap)
  then show thesis using that [OF m [unfolded v(2)]] by (simp add: fin hb tb v)
qed

end
