(* ===== verification/Silence.thy ===== *)
theory Silence
  imports Isolation Tunnels
begin

text \<open>
  A server that falls silent. The locale \<open>monitored_tunnel\<close> states what a round of the timers does to the
  hellos of one tunnel, without its addresses and its other timers; the detection of a dead peer in
  runs of the process is proved in it once, and both tunnels of the code are interpretations.
\<close>

subsection \<open>One round, for either tunnel\<close>

definition hello_data :: "'a tunnel_scheme \<Rightarrow> bool \<times> u8 \<times> int \<times> int" where
  "hello_data t = (tunnel_established t, missed_hellos t, last_hello_sent t, last_hello_received t)"

lemma hello_data_round:
  "hello_data t = hello_data u \<Longrightarrow> hello_data (hello_round i r now stamp t) = hello_data (hello_round i r now stamp u)"
  by (simp add: hello_data_def hello_round_def Let_def)

lemma bypass_hello_data: "hello_data (dsl (rt (bypass_timer w s))) = hello_data (dsl (rt s))"
proof (cases "tunnel_established (dsl (rt s))")
  case True
  obtain t where "rt (snd (send_grecpnotify_bypasstraffic w 1000 (s\<lparr>tick := Suc (tick s)\<rparr>))) =
      dsl_update (last_bypass_traffic_sent_update (\<lambda>_. t)) (rt s)"
    using rt_send_bypass [of w 1000 "s\<lparr>tick := Suc (tick s)\<rparr>"] by auto
  then show ?thesis by (simp add: bypass_timer_def get_uptime_eq Let_def hello_data_def)
qed (simp add: bypass_timer_def)

lemma reset_dsl_hello_data:
  "tunnel_established (dsl (rt (reset_dsl s))) = tunnel_established (dsl (rt s))"
  "tunnel_established (dsl (rt s)) \<Longrightarrow> dsl (rt (reset_dsl s)) = dsl (rt s)"
  by (simp_all add: reset_dsl_def)

text \<open>The LTE tunnel after a round, also when it is down.\<close>

lemma timers_lte_exact:
  assumes "execute_timers w s = Inr s'"
  obtains t k a b where
    "t = hello_round (active_hello_interval (haap (rt s))) (hello_retry_times (haap (rt s)))
        (fst (env_clock w k)) (hello_stamp w (Suc k))
        ((lte (rt s))\<lparr>interface_ip := a, tunnel_verification_required := b\<rparr>)"
    "lte (rt s') = (if tunnel_established t \<or> \<not> tunnel_interface_created (rt s) then t
       else t\<lparr>tunnel_established := False, missed_hellos := 0, last_hello_sent := 0,
         last_hello_received := 0, tunnel_verification_required := False\<rparr>)"
proof -
  obtain s1 s2 where s1: "update_ips w s = Inr s1"
    and s2: "start_threads w (tunnel_device w (tunnel_sections w s1)) = Inr s2"
    and s': "s' = handle_pending_signal w (after_threads w s2)"
    using execute_timersE [OF assms] .
  let ?v = "verify_tunnel w (ack_filter_list w (connect_tunnels w s1))"
  let ?t = "hello_round (active_hello_interval (haap (rt s))) (hello_retry_times (haap (rt s)))
      (fst (env_clock w (tick ?v))) (hello_stamp w (Suc (tick ?v))) (lte (rt ?v))"
  obtain a where a: "lte (rt s1) = (lte (rt s))\<lparr>interface_ip := a\<rparr>" and h: "haap (rt s1) = haap (rt s)"
    using update_ips_session [OF s1] by blast
  obtain b where "lte (rt ?v) = (lte (rt (ack_filter_list w (connect_tunnels w s1))))\<lparr>tunnel_verification_required := b\<rparr>"
    using verify_tunnel_lte by blast
  then have v: "lte (rt ?v) = (lte (rt s))\<lparr>interface_ip := a, tunnel_verification_required := b\<rparr>"
    by (simp add: a)
  define h2 where "h2 = hello_verification lte lte_update (hello_timer dsl dsl_update GRECP_TUNTYPE_DSL w
      (hello_timer lte lte_update GRECP_TUNTYPE_LTE w ?v))"
  have t: "lte (rt h2) = ?t"
    unfolding h2_def by (subst lte_hello.verification_after_timer [of _ w ?v]) (simp_all add: h lte_hello.hello_timer_haap dsl_hello.hello_timer_haap)
  let ?c = "bypass_timer w (hello_verification dsl dsl_update h2)"
  have final: "lte (rt s') = lte (rt (reset_lte ?c))"
    unfolding s' session_after_timers(1) [OF s2] by (simp add: tunnel_sections_def h2_def)
  have "flag_state (rt ?c) = flag_state (rt s)"
    using flag_state_update_ips [OF s1] by (simp add: h2_def)
  then have created: "tunnel_interface_created (rt ?c) = tunnel_interface_created (rt s)"
    by (simp add: flag_state_def device_state_def)
  have before: "lte (rt ?c) = ?t" by (simp add: t)
  show thesis
  proof (rule that)
    show "?t = hello_round (active_hello_interval (haap (rt s))) (hello_retry_times (haap (rt s)))
        (fst (env_clock w (tick ?v))) (hello_stamp w (Suc (tick ?v)))
        ((lte (rt s))\<lparr>interface_ip := a, tunnel_verification_required := b\<rparr>)"
      by (simp add: v)
    show "lte (rt s') = (if tunnel_established ?t \<or> \<not> tunnel_interface_created (rt s) then ?t
       else ?t\<lparr>tunnel_established := False, missed_hellos := 0, last_hello_sent := 0,
         last_hello_received := 0, tunnel_verification_required := False\<rparr>)"
      unfolding final reset_lte_sel before created ..
  qed
qed

lemma timers_dsl_round:
  assumes "execute_timers w s = Inr s'"
  obtains t k where
    "hello_data t = hello_data (hello_round (active_hello_interval (haap (rt s))) (hello_retry_times (haap (rt s)))
        (fst (env_clock w k)) (hello_stamp w (Suc k)) (dsl (rt s)))"
    "tunnel_established (dsl (rt s')) = tunnel_established t"
    "tunnel_established t \<longrightarrow> dsl (rt s') = t"
proof -
  obtain s1 s2 where s1: "update_ips w s = Inr s1"
    and s2: "start_threads w (tunnel_device w (tunnel_sections w s1)) = Inr s2"
    and s': "s' = handle_pending_signal w (after_threads w s2)"
    using execute_timersE [OF assms] .
  define a where "a = hello_timer lte lte_update GRECP_TUNTYPE_LTE w (verify_tunnel w (ack_filter_list w (connect_tunnels w s1)))"
  define b where "b = hello_timer dsl dsl_update GRECP_TUNTYPE_DSL w a"
  define c where "c = hello_verification dsl dsl_update (hello_verification lte lte_update b)"
  let ?t = "dsl (rt (bypass_timer w c))"
  have dsl_a: "hello_data (dsl (rt a)) = hello_data (dsl (rt s))" and haap_a: "haap (rt a) = haap (rt s)"
    using update_ips_session [OF s1] by (auto simp: a_def hello_data_def lte_hello.hello_timer_haap)
  have "dsl (rt c) = hello_round (active_hello_interval (haap (rt a))) (hello_retry_times (haap (rt a)))
      (fst (env_clock w (tick a))) (hello_stamp w (Suc (tick a))) (dsl (rt a))"
    unfolding c_def by (rule dsl_hello.verification_after_timer)
      (simp_all add: b_def dsl_hello.hello_timer_haap lte_hello.verification_haap)
  then have data: "hello_data ?t = hello_data (hello_round (active_hello_interval (haap (rt s))) (hello_retry_times (haap (rt s)))
      (fst (env_clock w (tick a))) (hello_stamp w (Suc (tick a))) (dsl (rt s)))"
    using hello_data_round [OF dsl_a] by (simp add: bypass_hello_data haap_a)
  have fin: "dsl (rt s') = dsl (rt (reset_dsl (reset_lte (bypass_timer w c))))"
    unfolding s' session_after_timers(2) [OF s2] by (simp add: tunnel_sections_def c_def b_def a_def)
  show thesis
    by (rule that [OF data]) (simp_all add: fin reset_dsl_hello_data)
qed

subsection \<open>A tunnel whose peer is silent\<close>

text \<open>
  Rounds of the timers with the clock of a Linux system: the readings of a round lie between two bounds and never decrease,
  the rounds follow each other, and the last reading of a round comes at most \<open>pace\<close> seconds after the last one of the round before.
  The main loop waits for a datagram for a second at most, so its pace is that second and the time that the round itself takes.
\<close>

definition clock_within :: "env \<Rightarrow> int \<Rightarrow> int \<Rightarrow> bool" where
  "clock_within w lo hi \<longleftrightarrow> (\<forall>k. lo \<le> fst (env_clock w k) \<and> fst (env_clock w k) \<le> hi \<and>
     fst (env_clock w k) \<le> fst (env_clock w (Suc k)))"

fun paced_rounds :: "int \<Rightarrow> int \<Rightarrow> (env \<times> int \<times> int) list \<Rightarrow> bool" where
  "paced_rounds pace t [] = True"
| "paced_rounds pace t ((w, lo, hi) # rs) \<longleftrightarrow>
     t \<le> lo \<and> hi \<le> t + pace \<and> hi < 2 ^ 32 \<and> clock_within w lo hi \<and> paced_rounds pace hi rs"

fun last_reading :: "int \<Rightarrow> (env \<times> int \<times> int) list \<Rightarrow> int" where
  "last_reading t [] = t"
| "last_reading t ((w, lo, hi) # rs) = last_reading hi rs"

text \<open>The server has echoed no hello that was not sent, and the tunnel is not given up yet.\<close>

definition watched :: "u32 \<Rightarrow> int \<Rightarrow> 'a tunnel_scheme \<Rightarrow> bool" where
  "watched retry t x \<longleftrightarrow> 0 \<le> t \<and> last_hello_sent x \<le> t \<and> last_hello_received x \<le> last_hello_sent x \<and>
     unat (missed_hellos x) < unat retry"

text \<open>The hellos that are missed for certain once the next one is due.\<close>

definition overdue :: "'a tunnel_scheme \<Rightarrow> nat" where
  "overdue t = unat (missed_hellos t) + (if last_hello_received t \<noteq> last_hello_sent t then 1 else 0)"

lemma hello_data_determines:
  assumes "hello_data t = hello_data u"
  shows "tunnel_established t = tunnel_established u" "watched r x t = watched r x u" "overdue t = overdue u"
    "last_hello_sent t = last_hello_sent u"
  using assms by (simp_all add: hello_data_def watched_def overdue_def)

lemma unat_u8_Suc: "unat m < 255 \<Longrightarrow> unat (m + 1 :: u8) = unat m + 1"
  by (simp add: unat_word_ariths)

lemma hello_stamp_within:
  assumes "clock_within w lo hi" and "0 \<le> lo" and "hi < 2 ^ 32"
  shows "lo \<le> hello_stamp w k" "hello_stamp w k \<le> hi"
proof -
  have b: "lo \<le> fst (env_clock w k)" "fst (env_clock w k) \<le> hi"
    using assms(1) by (simp_all add: clock_within_def)
  then have "hello_stamp w k = fst (env_clock w k)"
    using assms by (simp add: hello_stamp_def uint_word_of_int)
  with b show "lo \<le> hello_stamp w k" "hello_stamp w k \<le> hi" by simp_all
qed

text \<open>A round in which no hello is due, and one in which a hello is sent.\<close>

lemma watched_round:
  assumes "watched r t x" and "clock_within w lo hi" and "hi < 2 ^ 32" and "t \<le> lo" and "unat r \<le> 255"
    and "u = hello_round i r (fst (env_clock w k)) (hello_stamp w (Suc k)) x" and "tunnel_established u"
  shows "watched r hi u \<and>
    (overdue u = overdue x \<and> last_hello_sent u = last_hello_sent x \<and> lo \<le> last_hello_sent x + uint i \<or>
     overdue u = Suc (overdue x) \<and> last_hello_sent u \<le> hi)"
proof -
  let ?now = "fst (env_clock w k)" and ?stamp = "hello_stamp w (Suc k)"
  have x: "0 \<le> t" "last_hello_sent x \<le> t" "last_hello_received x \<le> last_hello_sent x"
    "unat (missed_hellos x) < unat r" using assms(1) by (simp_all add: watched_def)
  have now: "lo \<le> ?now" "?now \<le> hi" "?now \<le> fst (env_clock w (Suc k))" "fst (env_clock w (Suc k)) \<le> hi"
    using assms(2) by (simp_all add: clock_within_def)
  have up: "tunnel_established x" using hello_round_established assms(6,7) by blast
  show ?thesis
  proof (cases "hello_due (last_hello_sent x) i ?now")
    case True
    have gap: "0 \<le> uint i" by (rule uint_ge_0)
    have stamp: "?stamp = fst (env_clock w (Suc k))"
      using assms(3) x(1) assms(4) now by (simp add: hello_stamp_def uint_word_of_int)
    have later: "last_hello_sent x < ?stamp" using True gap now(3) unfolding stamp hello_due_def by linarith
    have m: "unat (missed_hellos x + 1) = unat (missed_hellos x) + 1"
      using x(4) assms(5) by (intro unat_u8_Suc) simp
    have "0 \<le> hi" using x(1) assms(4) now by linarith
    then have "watched r hi u"
      using assms(6,7) x now later unfolding stamp
      by (simp add: hello_round_def watched_def Let_def up True split: if_splits)
    moreover have "overdue u = Suc (overdue x)"
      using later x(3) by (simp add: assms(6) hello_round_def overdue_def Let_def up True m)
    moreover have "last_hello_sent u \<le> hi"
      using now unfolding assms(6) stamp by (simp add: hello_round_def Let_def up True)
    ultimately show ?thesis by blast
  next
    case False
    then have "u = x" using assms(6) x(4) by (simp add: hello_round_def Let_def up)
    with False now x assms(4) show ?thesis by (auto simp: watched_def hello_due_def)
  qed
qed

text \<open>The rounds of the main loop in a run, and runs in which the server sends no control message.\<close>

fun controls :: "event list \<Rightarrow> env list" where
  "controls [] = []"
| "controls (Control w inp # es) = w # controls es"
| "controls (Signal sig # es) = controls es"
| "controls (Download inp stamp now # es) = controls es"
| "controls (Upload w data # es) = controls es"

fun heard :: "event \<Rightarrow> bool" where
  "heard (Control w inp) \<longleftrightarrow> inp \<noteq> No_Datagram"
| "heard (Signal sig) \<longleftrightarrow> False"
| "heard (Download inp stamp now) \<longleftrightarrow> False"
| "heard (Upload w data) \<longleftrightarrow> False"

definition unheard :: "process \<Rightarrow> event list \<Rightarrow> bool" where
  "unheard p es \<longleftrightarrow> \<not> list_ex heard (purged p es)"

lemma unheard_step: "unheard p (e # es) \<Longrightarrow> process_step e p = Inr q \<Longrightarrow> unheard q es"
  by (simp add: unheard_def)

lemma unheard_control:
  assumes "unheard p (Control w inp # es)" and "process_step (Control w inp) p = Inr q"
  shows "execute_timers w (proc p) = Inr (proc q)"
  using assms by (auto simp: unheard_def main_iteration_def bind_res_eq_Inr Let_def split: received.splits if_splits)

lemma other_events:
  assumes "process_step e p = Inr q" and "controls [e] = []"
  shows "\<exists>f. rt (proc q) = signal_update f (rt (proc p))"
proof (cases e)
  case (Signal sig)
  then show ?thesis using assms by (auto simp: handle_signal_def)
next
  case (Upload w data)
  then have "rt (proc q) = rt (proc p)"
    using assms(1) by (auto simp: bind_res_eq_Inr dest!: upload_frame split: if_splits)
  then show ?thesis by (intro exI [of _ "\<lambda>x. x"]) simp
next
  case (Download inp stamp now)
  then have "rt (proc q) = rt (proc p)"
    using assms(1) by (auto simp: bind_res_eq_Inr split: if_splits)
  then show ?thesis by (intro exI [of _ "\<lambda>x. x"]) simp
qed (use assms in simp)

text \<open>A run without a message of the server, seen from its rounds: the two kinds of events.\<close>

lemma unheard_event:
  assumes "process_step e p = Inr q" and "unheard p (e # es)"
  obtains w where "controls (e # es) = w # controls es" "execute_timers w (proc p) = Inr (proc q)"
  | f where "controls (e # es) = controls es" "rt (proc q) = signal_update f (rt (proc p))"
proof (cases e)
  case (Control w inp)
  then show thesis using unheard_control [of p w inp es q] assms by (intro that(1)) simp_all
next
  case (Signal sig)
  with other_events [OF assms(1)] show thesis using that(2) by auto
next
  case (Download inp stamp now)
  with other_events [OF assms(1)] show thesis using that(2) by auto
next
  case (Upload w data)
  with other_events [OF assms(1)] show thesis using that(2) by auto
qed

text \<open>The contract: a round of the timers is one \<open>hello_round\<close> of the tunnel, as far as its hellos go.\<close>

locale monitored_tunnel =
  fixes sel :: "runtime \<Rightarrow> 'a tunnel_scheme"
  assumes signalled: "sel (signal_update f r) = sel r"
    and round: "execute_timers w s = Inr s' \<Longrightarrow>
    \<exists>k u. u = hello_round (active_hello_interval (haap (rt s))) (hello_retry_times (haap (rt s)))
        (fst (env_clock w k)) (hello_stamp w (Suc k)) (sel (rt s)) \<and>
      tunnel_established (sel (rt s')) = tunnel_established u \<and>
      (tunnel_established u \<longrightarrow> hello_data (sel (rt s')) = hello_data u)"
begin

lemma never_established:
  "execute_timers w s = Inr s' \<Longrightarrow> tunnel_established (sel (rt s')) \<Longrightarrow> tunnel_established (sel (rt s))"
  using round hello_round_established by metis

lemma stays_down:
  assumes "steps p es q" and "unheard p es" and "tunnel_established (sel (rt (proc q)))"
  shows "tunnel_established (sel (rt (proc p)))"
  using assms
proof (induction rule: steps.induct)
  case (steps_step p e q es r)
  have "tunnel_established (sel (rt (proc q)))"
    using steps_step.IH [OF unheard_step [OF steps_step(5,2)] steps_step(6)] .
  then show ?case
    using unheard_event [OF steps_step(2,5)] never_established signalled by metis
qed simp

lemma watched_timers:
  assumes "execute_timers w s = Inr s'" and "tunnel_established (sel (rt s'))"
    and "clock_within w lo hi" and "hi < 2 ^ 32" and "t \<le> lo"
    and "watched (hello_retry_times (haap (rt s))) t (sel (rt s))"
    and "unat (hello_retry_times (haap (rt s))) \<le> 255"
  shows "watched (hello_retry_times (haap (rt s))) hi (sel (rt s')) \<and>
    (overdue (sel (rt s')) = overdue (sel (rt s)) \<and> last_hello_sent (sel (rt s')) = last_hello_sent (sel (rt s)) \<and>
       lo \<le> last_hello_sent (sel (rt s)) + uint (active_hello_interval (haap (rt s))) \<or>
     overdue (sel (rt s')) = Suc (overdue (sel (rt s))) \<and> last_hello_sent (sel (rt s')) \<le> hi)"
proof -
  let ?i = "active_hello_interval (haap (rt s))" and ?r = "hello_retry_times (haap (rt s))"
  obtain k u where u: "u = hello_round ?i ?r (fst (env_clock w k)) (hello_stamp w (Suc k)) (sel (rt s))"
    and up: "tunnel_established u" and same: "hello_data (sel (rt s')) = hello_data u"
    using round [OF assms(1)] assms(2) by auto
  from watched_round [OF assms(6,3,4,5,7) u up] show ?thesis
    by (simp only: hello_data_determines [OF same])
qed

text \<open>
  The potential of a watched tunnel: a hello goes out within an interval and two paces of the hello before,
  and each one that is not answered counts. \<open>b\<close> is when the current interval began, at the latest.
\<close>

lemma silent_run:
  assumes "steps p es q" and "unheard p es" and "tunnel_established (sel (rt (proc q)))"
    and "map fst rounds = controls es" and "paced_rounds pace t rounds" and "0 \<le> pace"
    and "gap = uint (active_hello_interval (haap (rt (proc p))))" and "r = hello_retry_times (haap (rt (proc p)))"
    and "watched r t (sel (rt (proc p)))" and "unat r \<le> 255"
    and "last_hello_sent (sel (rt (proc p))) \<le> b" and "t \<le> b + gap + pace"
  shows "last_reading t rounds + (gap + 2 * pace) * int (overdue (sel (rt (proc p)))) \<le>
    b + gap + pace + (gap + 2 * pace) * int (unat r)"
  using assms
proof (induction arbitrary: rounds t b rule: steps.induct)
  case (steps_refl p)
  have "overdue (sel (rt (proc p))) \<le> unat r"
    using steps_refl(8) by (simp add: watched_def overdue_def)
  then have "int (overdue (sel (rt (proc p)))) \<le> int (unat r)" by (rule of_nat_mono)
  moreover have "0 \<le> gap + 2 * pace" using steps_refl(5,6) by simp
  ultimately have "(gap + 2 * pace) * int (overdue (sel (rt (proc p)))) \<le> (gap + 2 * pace) * int (unat r)"
    by (rule mult_left_mono)
  moreover have "rounds = []" using steps_refl(3) by simp
  ultimately show ?case using steps_refl(11) by simp
next
  case (steps_step p e q es r')
  note rest = steps_step.IH [OF unheard_step [OF steps_step(5,2)] steps_step(6)]
  show ?case
  proof (rule unheard_event [OF steps_step(2,5)])
    fix w assume c: "controls (e # es) = w # controls es" and ex: "execute_timers w (proc p) = Inr (proc q)"
    then obtain lo hi rs where rounds: "rounds = (w, lo, hi) # rs" and rs: "map fst rs = controls es"
      using steps_step(7) by (cases rounds) auto
    have up: "tunnel_established (sel (rt (proc q)))"
      using stays_down [OF steps_step(3) unheard_step [OF steps_step(5,2)] steps_step(6)] .
    note h = timers_hello_parameters [OF ex]
    have q: "t \<le> lo" "hi \<le> t + pace" "hi < 2 ^ 32" "clock_within w lo hi" "paced_rounds pace hi rs"
      using steps_step(8) by (simp_all add: rounds)
    let ?g = "gap + 2 * pace"
    from watched_timers [OF ex up q(4,3,1)] steps_step(10-13)
    have one: "watched r hi (sel (rt (proc q)))"
      and two: "overdue (sel (rt (proc q))) = overdue (sel (rt (proc p))) \<and>
          last_hello_sent (sel (rt (proc q))) = last_hello_sent (sel (rt (proc p))) \<and>
          lo \<le> last_hello_sent (sel (rt (proc p))) + gap \<or>
        overdue (sel (rt (proc q))) = Suc (overdue (sel (rt (proc p)))) \<and> last_hello_sent (sel (rt (proc q))) \<le> hi"
      by auto
    note step = rest [OF rs q(5) steps_step(9) _ _ one steps_step(13), unfolded h, OF steps_step(10,11)]
    from two show ?thesis
    proof (elim disjE conjE)
      assume "overdue (sel (rt (proc q))) = overdue (sel (rt (proc p)))"
        and same: "last_hello_sent (sel (rt (proc q))) = last_hello_sent (sel (rt (proc p)))"
        and lo: "lo \<le> last_hello_sent (sel (rt (proc p))) + gap"
      with step [of b] q(1,2) steps_step(14) show ?thesis by (simp add: rounds)
    next
      assume o: "overdue (sel (rt (proc q))) = Suc (overdue (sel (rt (proc p))))" and "last_hello_sent (sel (rt (proc q))) \<le> hi"
      moreover have "hi \<le> hi + gap + pace" using steps_step(9,10) by simp
      ultimately have "last_reading hi rs + ?g * (int (overdue (sel (rt (proc p)))) + 1) \<le> hi + gap + pace + ?g * int (unat r)"
        using step [of hi] by (simp add: algebra_simps)
      moreover have "hi \<le> b + ?g" using q(2) steps_step(15) by simp
      ultimately show ?thesis by (simp add: rounds distrib_left)
    qed
  next
    fix f assume c: "controls (e # es) = controls es" and f: "rt (proc q) = signal_update f (rt (proc p))"
    from rest [of rounds t b] steps_step(7-15) show ?thesis by (simp add: c f signalled)
  qed
qed

lemma detected:
  assumes "steps p es q" and "unheard p es" and "map fst rounds = controls es"
    and "paced_rounds pace t rounds" and "0 \<le> pace" and "r = hello_retry_times (haap (rt (proc p)))"
    and "t + (int (unat r) + 1) * (uint (active_hello_interval (haap (rt (proc p)))) + 2 * pace) < last_reading t rounds"
    and "unat r \<le> 255" and "watched r t (sel (rt (proc p)))"
  shows "\<not> tunnel_established (sel (rt (proc q)))"
proof
  let ?g = "uint (active_hello_interval (haap (rt (proc p))))"
  assume up: "tunnel_established (sel (rt (proc q)))"
  have "last_hello_sent (sel (rt (proc p))) \<le> t" using assms(9) by (simp add: watched_def)
  then have "last_reading t rounds + (?g + 2 * pace) * int (overdue (sel (rt (proc p)))) \<le>
      t + ?g + pace + (?g + 2 * pace) * int (unat r)"
    using silent_run [OF assms(1,2) up assms(3,4,5) refl assms(6,9,8)] assms(5) by simp
  moreover have "0 \<le> (?g + 2 * pace) * int (overdue (sel (rt (proc p))))"
    using assms(5) by simp
  moreover have "(int (unat r) + 1) * (?g + 2 * pace) = (?g + 2 * pace) * int (unat r) + ?g + 2 * pace"
    by (simp only: algebra_simps)
  ultimately show False using assms(5,7) by linarith
qed

text \<open>The counter is a byte: a larger number of allowed hellos is never reached.\<close>

lemma undetected:
  assumes "steps p es q" and "unheard p es" and "255 < unat (hello_retry_times (haap (rt (proc p))))"
    and "tunnel_established (sel (rt (proc p)))"
  shows "tunnel_established (sel (rt (proc q)))"
  using assms
proof (induction rule: steps.induct)
  case (steps_step p e q es r)
  let ?r = "hello_retry_times (haap (rt (proc p)))"
  have small: "unat m < unat ?r" for m :: u8
    using steps_step(6) unat_u8_bound [of m] by linarith
  have up: "tunnel_established (hello_round i ?r now stamp (sel (rt (proc p))))" for i now stamp
    using steps_step(7) by (simp add: hello_round_def Let_def small)
  have "tunnel_established (sel (rt (proc q))) \<and> hello_retry_times (haap (rt (proc q))) = ?r"
  proof (rule unheard_event [OF steps_step(2,5)])
    fix w assume "execute_timers w (proc p) = Inr (proc q)"
    then show ?thesis using round [of w "proc p" "proc q"] up timers_hello_parameters(2) by auto
  next
    fix f assume "rt (proc q) = signal_update f (rt (proc p))"
    then show ?thesis using steps_step(7) by (simp add: signalled)
  qed
  then show ?case
    using steps_step.IH [OF unheard_step [OF steps_step(5,2)]] steps_step(6) by simp
qed simp

end

interpretation lte_monitored: monitored_tunnel lte
proof unfold_locales
  show "lte (signal_update f r) = lte r" for f r by simp
next
  fix w s s'
  assume ex: "execute_timers w s = Inr s'"
  obtain t k a b where t: "t = hello_round (active_hello_interval (haap (rt s))) (hello_retry_times (haap (rt s)))
        (fst (env_clock w k)) (hello_stamp w (Suc k))
        ((lte (rt s))\<lparr>interface_ip := a, tunnel_verification_required := b\<rparr>)"
    and l: "lte (rt s') = (if tunnel_established t \<or> \<not> tunnel_interface_created (rt s) then t
       else t\<lparr>tunnel_established := False, missed_hellos := 0, last_hello_sent := 0,
         last_hello_received := 0, tunnel_verification_required := False\<rparr>)"
    using timers_lte_exact [OF ex] .
  have e: "tunnel_established (lte (rt s')) = tunnel_established t" "tunnel_established t \<longrightarrow> lte (rt s') = t"
    by (simp_all add: l)
  have d: "hello_data t = hello_data (hello_round (active_hello_interval (haap (rt s))) (hello_retry_times (haap (rt s)))
      (fst (env_clock w k)) (hello_stamp w (Suc k)) (lte (rt s)))"
    unfolding t by (rule hello_data_round) (simp add: hello_data_def)
  then show "\<exists>k u. u = hello_round (active_hello_interval (haap (rt s))) (hello_retry_times (haap (rt s)))
        (fst (env_clock w k)) (hello_stamp w (Suc k)) (lte (rt s)) \<and>
      tunnel_established (lte (rt s')) = tunnel_established u \<and>
      (tunnel_established u \<longrightarrow> hello_data (lte (rt s')) = hello_data u)"
    using e hello_data_determines(1) [OF d] by metis
qed

interpretation dsl_monitored: monitored_tunnel dsl
proof unfold_locales
  show "dsl (signal_update f r) = dsl r" for f r by simp
next
  fix w s s'
  assume ex: "execute_timers w s = Inr s'"
  obtain t k where d: "hello_data t = hello_data (hello_round (active_hello_interval (haap (rt s)))
      (hello_retry_times (haap (rt s))) (fst (env_clock w k)) (hello_stamp w (Suc k)) (dsl (rt s)))"
    and e: "tunnel_established (dsl (rt s')) = tunnel_established t" "tunnel_established t \<longrightarrow> dsl (rt s') = t"
    using timers_dsl_round [OF ex] .
  then show "\<exists>k u. u = hello_round (active_hello_interval (haap (rt s))) (hello_retry_times (haap (rt s)))
        (fst (env_clock w k)) (hello_stamp w (Suc k)) (dsl (rt s)) \<and>
      tunnel_established (dsl (rt s')) = tunnel_established u \<and>
      (tunnel_established u \<longrightarrow> hello_data (dsl (rt s')) = hello_data u)"
    using hello_data_determines(1) [OF d] by metis
qed

subsection \<open>A silent server\<close>

definition session_over :: "runtime \<Rightarrow> bool" where
  "session_over r \<longleftrightarrow> haap_ip (haap r) = anycast_ip (haap r) \<and> bonding_key (haap r) = 0 \<and> session_id (haap r) = 0"

lemma no_rounds_tunnels:
  assumes "steps p es q" and "unheard p es" and "controls es = []"
  shows "tunnels (rt (proc q)) = tunnels (rt (proc p))"
  using assms
proof (induction rule: steps.induct)
  case (steps_step p e q es r)
  show ?case
  proof (rule unheard_event [OF steps_step(2,5)])
    fix f assume "controls (e # es) = controls es" "rt (proc q) = signal_update f (rt (proc p))"
    then show ?thesis
      using steps_step.IH [OF unheard_step [OF steps_step(5,2)]] steps_step(6) by (simp add: tunnels_def)
  qed (use steps_step(6) in simp)
qed simp

lemma silence_ends_session:
  assumes "steps p es q" and "unheard p es" and "tunnels (rt (proc q)) = (False, False)"
    and "controls es \<noteq> [] \<or> session_over (rt (proc p))"
  shows "session_over (rt (proc q))"
  using assms
proof (induction rule: steps.induct)
  case (steps_step p e q es r)
  have "controls es \<noteq> [] \<or> session_over (rt (proc q))"
  proof (rule unheard_event [OF steps_step(2,5)])
    fix w assume ex: "execute_timers w (proc p) = Inr (proc q)"
    show ?thesis
    proof (cases "controls es = [] \<and> tunnels (rt (proc q)) = (False, False)")
      case True
      then show ?thesis using timers_haap [OF ex] by (simp add: session_over_def tunnels_def)
    next
      case False
      have "controls es \<noteq> []"
      proof
        assume none: "controls es = []"
        have "tunnels (rt (proc r)) = tunnels (rt (proc q))"
          using steps_step(3) unheard_step [OF steps_step(5,2)] none by (rule no_rounds_tunnels)
        with False none steps_step(6) show False by simp
      qed
      then show ?thesis ..
    qed
  next
    fix f assume "controls (e # es) = controls es" "rt (proc q) = signal_update f (rt (proc p))"
    then show ?thesis using steps_step(7) by (auto simp: session_over_def)
  qed
  then show ?case using steps_step.IH [OF unheard_step [OF steps_step(5,2)] steps_step(6)] by blast
qed simp

text \<open>
  C7: A server that falls silent is detected. Let no control message of the server arrive, and let the rounds of the main
  loop follow each other at a pace of at most \<open>pace\<close> seconds, under a clock that does not go back, whatever the
  threads, the signals and other hosts do meanwhile. Once the silence has lasted longer than one more than the allowed number of
  hellos times the hello interval and twice the pace, a tunnel that was watched at the start is down, and when both were, the session
  is over: key and session number are forgotten and messages go to the anycast address. Watched means: fewer missed hellos
  than allowed, no hello that was sent in the future, and no echo of a hello that was not sent. The allowed number must not exceed 255,
  and the clock stays below 2 to the 32.
\<close>

theorem dead_peer_is_detected:
  assumes "steps p es q" and "unheard p es" and "map fst rounds = controls es"
    and "paced_rounds pace t rounds" and "0 \<le> pace" and "r = hello_retry_times (haap (rt (proc p)))"
    and "t + (int (unat r) + 1) * (uint (active_hello_interval (haap (rt (proc p)))) + 2 * pace) < last_reading t rounds"
    and "unat r \<le> 255"
  shows "(watched r t (lte (rt (proc p))) \<longrightarrow> \<not> tunnel_established (lte (rt (proc q)))) \<and>
    (watched r t (dsl (rt (proc p))) \<longrightarrow> \<not> tunnel_established (dsl (rt (proc q)))) \<and>
    (watched r t (lte (rt (proc p))) \<and> watched r t (dsl (rt (proc p))) \<longrightarrow> session_over (rt (proc q)))"
proof -
  note d = lte_monitored.detected [OF assms] dsl_monitored.detected [OF assms]
  have "0 \<le> (int (unat r) + 1) * (uint (active_hello_interval (haap (rt (proc p)))) + 2 * pace)"
    using assms(5) by simp
  then have "rounds \<noteq> []" using assms(7) by auto
  then have "controls es \<noteq> []" using assms(3) by auto
  then show ?thesis using d silence_ends_session [OF assms(1,2)] by (simp add: tunnels_def)
qed

text \<open>Both tunnels are up and two hellos may be missed. A signal and a forged tear down message come in between.\<close>

definition silent_session :: process where
  "silent_session = initial [] [] [] zero_rest (silent_sys\<lparr>rt := dsl_update (\<lambda>t. t\<lparr>tunnel_established := True,
     last_hello_sent := 100, last_hello_received := 100\<rparr>) (rt silent_sys)\<rparr>)"

definition silent_tail :: "int list" where
  "silent_tail = [118, 124, 130, 136, 142, 148, 154]"

abbreviation silent_turn :: "int \<Rightarrow> event" where
  "silent_turn n \<equiv> Control (silent_env n) No_Datagram"

definition silent_events :: "event list" where
  "silent_events = [silent_turn 106, Signal 1,
     Control (silent_env 112) (Datagram (replicate 16 1) (grecp_header 6 GRECP_MSGTYPE_TEARDOWN 0))] @
     map silent_turn silent_tail"

definition silent_rounds :: "(env \<times> int \<times> int) list" where
  "silent_rounds = map (\<lambda>n. (silent_env n, n, n)) (106 # 112 # silent_tail)"

lemma silent_round:
  assumes "\<not> bonding (rt s)" and "exited s = None" and "runtime.signal (rt s) \<notin> {SIGINT, SIGTERM}"
  obtains s' where "execute_timers (silent_env n) s = Inr s'" "\<not> bonding (rt s')" "exited s' = None"
    "runtime.signal (rt s') = 0" "haap_ip (haap (rt s')) \<in> {haap_ip (haap (rt s)), anycast_ip (haap (rt s))}"
    "anycast_ip (haap (rt s')) = anycast_ip (haap (rt s))"
proof -
  obtain s' where s': "execute_timers (silent_env n) s = Inr s'"
    using execute_timers_total [of "silent_env n" s] assms(1) by (auto simp: silent_env_def)
  with execute_timers_bonding [OF s'] signal_outcome [OF s'] timers_haap [OF s'] assms show thesis
    using that [of s'] by (simp split: if_splits)
qed

lemma silent_turns:
  assumes "\<not> bonding (rt (proc p))" and "exited (proc p) = None" and "runtime.signal (rt (proc p)) \<notin> {SIGINT, SIGTERM}"
  shows "\<exists>q. steps p (map silent_turn ns) q"
  using assms
proof (induction ns arbitrary: p)
  case (Cons n ns)
  obtain s' where s': "execute_timers (silent_env n) (proc p) = Inr s'" "\<not> bonding (rt s')" "exited s' = None"
      "runtime.signal (rt s') = 0"
    by (rule silent_round [OF Cons.prems, of n])
  then obtain q where "steps (p\<lparr>proc := s'\<rparr>) (map silent_turn ns) q"
    using Cons.IH [of "p\<lparr>proc := s'\<rparr>"] by auto
  with s'(1) Cons.prems(2) show ?case by (auto simp: steps_Cons main_iteration_def)
qed (auto simp: steps_Nil)

lemma unheard_turns: "unheard p (map silent_turn ns)"
  by (induction ns arbitrary: p) (auto simp: unheard_def split: sum.split)

lemma silent_session_run:
  obtains q where "steps silent_session silent_events q" "unheard silent_session silent_events"
proof -
  let ?s = "proc silent_session" and ?msg = "grecp_header 6 GRECP_MSGTYPE_TEARDOWN 0"
  have ne: "replicate 16 1 \<noteq> in6addr_any" by (simp add: in6addr_any_def numeral_eq_Suc)
  have s: "\<not> bonding (rt ?s)" "exited ?s = None" "runtime.signal (rt ?s) = 0"
    "haap_ip (haap (rt ?s)) = in6addr_any" "anycast_ip (haap (rt ?s)) = in6addr_any"
    by (simp_all add: silent_session_def initial_def silent_sys_def init_sys_def zero_runtime_def zero_haap_def)
  obtain s1 where s1: "execute_timers (silent_env 106) ?s = Inr s1" "\<not> bonding (rt s1)" "exited s1 = None"
      "haap_ip (haap (rt s1)) = in6addr_any" "anycast_ip (haap (rt s1)) = in6addr_any"
    by (rule silent_round [of ?s 106]) (use s in simp_all)
  let ?t = "handle_signal 1 s1"
  obtain s2 where s2: "execute_timers (silent_env 112) ?t = Inr s2" "\<not> bonding (rt s2)" "exited s2 = None"
      "runtime.signal (rt s2) = 0"
    by (rule silent_round [of ?t 112]) (use s1 in \<open>simp_all add: handle_signal_def\<close>)
  let ?p1 = "silent_session\<lparr>proc := s1\<rparr>" and ?b = "receive_into (main_buffer silent_session) ?msg"
  let ?p2 = "silent_session\<lparr>proc := ?t\<rparr>" and ?p3 = "silent_session\<lparr>main_buffer := ?b, proc := s2\<rparr>"
  let ?e3 = "Control (silent_env 112) (Datagram (replicate 16 1) ?msg)"
  have 1: "process_step (Control (silent_env 106) No_Datagram) silent_session = Inr ?p1"
    by (simp add: main_iteration_def s1(1))
  have 2: "process_step (Signal 1) ?p1 = Inr ?p2" by simp
  have 3: "process_step ?e3 ?p2 = Inr ?p3"
    using ne by (simp add: main_iteration_def Let_def handle_signal_def [of 1 s1] s1(4)) (simp flip: handle_signal_def add: s2(1))
  obtain q where 4: "steps ?p3 (map silent_turn silent_tail) q" using silent_turns [of ?p3 silent_tail] s2(2,3,4) by auto
  have 5: "unheard ?p3 (map silent_turn silent_tail)" by (rule unheard_turns)
  have "exited ?t = None" "haap_ip (haap (rt ?t)) \<noteq> replicate 16 1"
    using s1(3,4) ne by (simp_all add: handle_signal_def)
  then show thesis
    using that [of q] 1 2 3 4 5 s(2) s1(3) s2(3)
    by (simp add: silent_events_def steps_Cons unheard_def del: process_step.simps list.map)
qed

theorem dead_peer_is_detected_witness:
  "\<exists>q. steps silent_session silent_events q \<and> tunnels (rt (proc silent_session)) = (True, True) \<and>
     tunnels (rt (proc q)) = (False, False) \<and> session_over (rt (proc q))"
proof -
  obtain q where q: "steps silent_session silent_events q" "unheard silent_session silent_events"
    using silent_session_run .
  let ?r = "rt (proc silent_session)"
  have h: "active_hello_interval (haap ?r) = 5" "hello_retry_times (haap ?r) = 2"
    by (simp_all add: silent_session_def initial_def silent_sys_def init_sys_def zero_runtime_def zero_haap_def)
  have w: "watched 2 100 (lte ?r)" "watched 2 100 (dsl ?r)" and up: "tunnels ?r = (True, True)"
    by (simp_all add: silent_session_def initial_def silent_sys_def init_sys_def zero_runtime_def zero_lte_def
        zero_dsl_def watched_def tunnels_def)
  have "paced_rounds 6 100 silent_rounds" "last_reading 100 silent_rounds = 154"
    by (simp_all add: silent_rounds_def silent_tail_def silent_env_def clock_within_def)
  with dead_peer_is_detected [OF q, of silent_rounds 6 100 2] have "\<not> tunnel_established (lte (rt (proc q)))"
    "\<not> tunnel_established (dsl (rt (proc q)))" "session_over (rt (proc q))"
    using w by (simp_all add: h silent_events_def silent_rounds_def silent_tail_def)
  with q(1) up show ?thesis by (auto simp: tunnels_def)
qed

text \<open>
  The server can switch the detection off. \<open>missed_hellos\<close> is a byte, so with more than 255 hellos
  allowed silence never takes an established tunnel down.
\<close>

theorem no_detection_beyond_255:
  assumes "steps p es q" and "unheard p es" and "255 < unat (hello_retry_times (haap (rt (proc p))))"
  shows "tunnels (rt (proc q)) = tunnels (rt (proc p))"
  using lte_monitored.undetected [OF assms] lte_monitored.stays_down [OF assms(1,2)]
    dsl_monitored.undetected [OF assms] dsl_monitored.stays_down [OF assms(1,2)]
  by (auto simp: tunnels_def)

end
