(* ===== verification/Automaton.thy ===== *)
theory Automaton
  imports Silence
begin

text \<open>
  The automaton of the two tunnels with their hellos, independent of bytes, records and calls, and the proof that the
  process implements it exactly: given the datagram of a turn and the readings of its clock, the state of both
  tunnels after the turn is determined.
\<close>

subsection \<open>The abstract automaton\<close>

record link =
  link_up :: bool
  link_missed :: u8
  link_sent :: int
  link_heard :: int

text \<open>A control message: a grant at a point in time, the echo of hellos with their stamps, a tear down, or nothing.\<close>

datatype control = Granted u8 int | Echoed u8 "u32 list" | Taken_Down | Ignored

definition on_link :: "u8 \<Rightarrow> (link \<Rightarrow> link) \<Rightarrow> link \<times> link \<Rightarrow> link \<times> link" where
  "on_link tun f x = (if tun = GRECP_TUNTYPE_LTE then (f (fst x), snd x) else (fst x, f (snd x)))"

fun after_control :: "control \<Rightarrow> link \<times> link \<Rightarrow> link \<times> link" where
  "after_control (Granted tun now) x = on_link tun (\<lambda>l. l\<lparr>link_up := True, link_sent := now, link_heard := now\<rparr>) x"
| "after_control (Echoed tun stamps) x =
     (if stamps = [] then x else on_link tun (\<lambda>l. l\<lparr>link_missed := 0, link_heard := uint (last stamps)\<rparr>) x)"
| "after_control Taken_Down x = ((fst x)\<lparr>link_up := False\<rparr>, (snd x)\<lparr>link_up := False\<rparr>)"
| "after_control Ignored x = x"

text \<open>
  The timers. A hello goes out when the last one is older than the interval; if that one was not echoed it counts as missed. A
  link with as many missed hellos as allowed goes down, and a link that is down is cleared while the device exists.
\<close>

definition hello_out :: "u32 \<Rightarrow> int \<Rightarrow> int \<Rightarrow> link \<Rightarrow> link" where
  "hello_out interval now stamp l =
     (if link_up l \<and> link_sent l < now - uint interval
      then l\<lparr>link_missed := (if link_heard l = link_sent l then link_missed l else link_missed l + 1), link_sent := stamp\<rparr>
      else l)"

definition give_up :: "u32 \<Rightarrow> bool \<Rightarrow> link \<Rightarrow> link" where
  "give_up retry created l =
     (if link_up l \<and> unat (link_missed l) < unat retry then l
      else if created then \<lparr>link_up = False, link_missed = 0, link_sent = 0, link_heard = 0\<rparr>
      else l\<lparr>link_up := False\<rparr>)"

subsection \<open>The links of the process\<close>

definition link_of :: "'a tunnel_scheme \<Rightarrow> link" where
  "link_of t = \<lparr>link_up = tunnel_established t, link_missed = missed_hellos t, link_sent = last_hello_sent t,
     link_heard = last_hello_received t\<rparr>"

definition links :: "runtime \<Rightarrow> link \<times> link" where
  "links r = (link_of (lte r), link_of (dsl r))"

definition stamps :: "bytes \<Rightarrow> grecpattr list \<Rightarrow> u32 list" where
  "stamps buf as = map (\<lambda>a. ntohl (word_of_bytes (take 4 (drop (attr_value a) buf))))
     (filter (\<lambda>a. attr_id a = GRECP_MSGATTR_TIMESTAMP) as)"

definition control_of :: "u32 \<Rightarrow> bytes \<Rightarrow> int \<Rightarrow> int \<Rightarrow> control" where
  "control_of key buf sz now =
     (let mt = msgtype_and_tuntype buf; typ = drop_bit 4 mt; tun = mt AND 0x0f in
      if ntohs (greh_flags_and_version buf) \<noteq> GRECP_FLAGSANDVERSION then Ignored
      else if tun \<noteq> GRECP_TUNTYPE_LTE \<and> tun \<noteq> GRECP_TUNTYPE_DSL then Ignored
      else if typ = GRECP_MSGTYPE_ACCEPT then Granted tun now
      else if ntohl (greh_key buf) \<noteq> key then Ignored
      else if typ = GRECP_MSGTYPE_HELLO then Echoed tun (stamps buf (parse_attrs buf 9 (sz - 9)))
      else if typ = GRECP_MSGTYPE_TEARDOWN then Taken_Down
      else Ignored)"

subsection \<open>Messages\<close>

lemma links_hello_received:
  "links (rt (hello_received w t sec ms s)) = after_control (Echoed t [sec]) (links (rt s))"
  by (simp add: hello_received_def get_uptime_eq Let_def links_def link_of_def on_link_def)

lemma links_hello_fold:
  "fold_res (hello_attribute w t buf) as s = Inr s' \<Longrightarrow>
     links (rt s') = after_control (Echoed t (stamps buf as)) (links (rt s))"
proof (induction as arbitrary: s)
  case (Cons a as)
  then obtain s1 where s1: "hello_attribute w t buf a s = Inr s1" and rest: "fold_res (hello_attribute w t buf) as s1 = Inr s'"
    by (auto simp: bind_res_eq_Inr)
  show ?case
  proof (cases "attr_id a = GRECP_MSGATTR_TIMESTAMP")
    case True
    then obtain ms where "s1 = hello_received w t (ntohl (word_of_bytes (take 4 (drop (attr_value a) buf)))) ms s"
      using s1 by (auto simp: hello_attribute_def bind_res_eq_Inr mem_read_eq_Inr)
    with Cons.IH [OF rest] True show ?thesis
      by (auto simp: links_hello_received stamps_def on_link_def)
  next
    case False
    with s1 Cons.IH [OF rest] show ?thesis by (simp add: hello_attribute_def stamps_def)
  qed
qed (simp add: stamps_def)

lemma links_notify_fold: "fold_res (notify_attribute buf) as s = Inr s' \<Longrightarrow> links (rt s') = links (rt s)"
proof (induction as arbitrary: s)
  case (Cons a as)
  then obtain s1 where s1: "notify_attribute buf a s = Inr s1" and rest: "fold_res (notify_attribute buf) as s1 = Inr s'"
    by (auto simp: bind_res_eq_Inr)
  have "links (rt s1) = links (rt s)"
    using s1 by (auto simp: notify_attribute_def bind_res_eq_Inr links_def link_of_def split: if_splits)
  with Cons.IH [OF rest] show ?case by simp
qed simp

interpretation hello_later: attribute_body "hello_attribute w t" "\<lambda>s. n \<le> tick s" 8 for w t n
proof
  fix s a buf s'
  assume "n \<le> tick s" and "hello_attribute w t buf a s = Inr s'"
  moreover have "tick (hello_received w t sec ms s) = Suc (tick s)" for sec ms
    by (simp add: hello_received_def get_uptime_eq Let_def)
  ultimately show "n \<le> tick s'" using hello_attribute_cases by fastforce
qed (rule hello_body.reads_near)

interpretation notify_later: attribute_body notify_attribute "\<lambda>s. n \<le> tick s" 4 for n
proof
  fix s a buf s'
  assume "n \<le> tick s" and "notify_attribute buf a s = Inr s'"
  then show "n \<le> tick s'"
    by (auto simp: notify_attribute_def bind_res_eq_Inr split: if_splits)
qed (rule notify_body.reads_near)

lemma process_links:
  assumes "process_grecpmessage w buf sz s = Inr s'" and "sz \<le> int (length buf)"
  shows "links (rt s') = after_control (control_of (bonding_key (haap (rt s))) buf sz (fst (env_clock w (tick s)))) (links (rt s))"
proof -
  have loop: "attr_loop h buf 9 (sz - 9) x = fold_res (h buf) (parse_attrs buf 9 (sz - 9)) x" for h and x :: sys
    using assms(2) by (intro attr_loop_eq_fold) simp
  have accept: "links (rt s') = after_control (Granted t (fst (env_clock w (tick s)))) (links (rt s))"
    if "handle_grecpaccept w t buf 9 (sz - 9) s = Inr s'" for t
    using that by (auto simp: handle_grecpaccept_def bind_res_eq_Inr establish_tunnel_def get_uptime_eq links_def
        link_of_def on_link_def)
  have teardown: "links (rt s') = after_control Taken_Down (links (rt s))" if "handle_grecpteardown buf 9 (sz - 9) s = Inr s'"
    using handle_grecpteardown_result [OF that] by (simp add: links_def link_of_def)
  have hello: "links (rt s') = after_control (Echoed t (stamps buf (parse_attrs buf 9 (sz - 9)))) (links (rt s))"
    if "handle_grecphello w t buf 9 (sz - 9) s = Inr s'" for t
    using that links_hello_fold by (simp add: handle_grecphello_def loop)
  have notify: "links (rt s') = links (rt s)" if "handle_grecpnotify t buf 9 (sz - 9) s = Inr s'" for t
    using that links_notify_fold by (simp add: handle_grecpnotify_def loop)
  show ?thesis
    using assms(1) accept teardown hello notify
    by (auto simp: process_grecpmessage_def control_of_def Let_def simp del: after_control.simps(1-3)
        dest: handle_grecpdeny_unchanged split: if_splits)
qed

subsection \<open>The order of the calls\<close>

text \<open>No operation goes back in the sequence of the calls.\<close>

definition later :: "sys \<Rightarrow> sys \<Rightarrow> bool" where
  "later s t \<longleftrightarrow> tick s \<le> tick t"

lemma later_refl [simp]: "later s s"
  by (simp add: later_def)

lemma later_trans: "later s t \<Longrightarrow> later t u \<Longrightarrow> later s u"
  by (simp add: later_def)

lemma later_if: "later s t \<Longrightarrow> later s u \<Longrightarrow> later s (if c then t else u)"
  by simp

lemma later_let: "later s t \<Longrightarrow> (\<And>x. later s x \<Longrightarrow> later s (f x)) \<Longrightarrow> later s (let x = t in f x)"
  by simp

lemma later_calls :
  "later s t \<Longrightarrow> later s (emit e t)" "later s t \<Longrightarrow> later s (rt_update f t)"
  "later s t \<Longrightarrow> later s (snd (ask_ok w t))" "later s t \<Longrightarrow> later s (snd (ask_int w t))"
  "later s t \<Longrightarrow> later s (snd (ask_text w t))" "later s t \<Longrightarrow> later s (snd (ask_status w t))"
  "later s t \<Longrightarrow> later s (snd (ask_output w t))" "later s t \<Longrightarrow> later s (snd (get_uptime w t))"
  "later s t \<Longrightarrow> later s (t\<lparr>sockfd_gre := i\<rparr>)" "later s t \<Longrightarrow> later s (t\<lparr>sockfd_tun := i\<rparr>)"
  "later s t \<Longrightarrow> later s (t\<lparr>udhcpc_pipe := p\<rparr>)" "later s t \<Longrightarrow> later s (t\<lparr>udhcpc6_pipe := p\<rparr>)"
  "later s t \<Longrightarrow> later s (t\<lparr>exited := x\<rparr>)"
  by (simp_all add: later_def call_defs)

lemma later_event : "later s t \<Longrightarrow> later s (trigger_event w name t)"
  by (simp add: trigger_event_def Let_def case_prod_beta later_calls)

lemma later_send : "later s t \<Longrightarrow> later s (snd (send_grecpmessage w m tt a t))"
  by (simp add: send_grecpmessage_def Let_def case_prod_beta later_calls)

lemma later_sends :
  "later s t \<Longrightarrow> later s (snd (send_grecprequest w tt t))"
  "later s t \<Longrightarrow> later s (snd (send_grecpnotify_filterlistpackageack w c t))"
  "later s t \<Longrightarrow> later s (snd (send_grecpnotify_tunnelverify w t))"
  "later s t \<Longrightarrow> later s (snd (send_grecpnotify_linkfailure w tt t))"
  "later s t \<Longrightarrow> later s (snd (send_grecpnotify_bypasstraffic w k t))"
  "later s t \<Longrightarrow> later s (snd (send_grecphello w tt t))"
  by (simp_all add: send_grecprequest_def send_grecpnotify_filterlistpackageack_def
      send_grecpnotify_tunnelverify_def send_grecpnotify_linkfailure_def
      send_grecpnotify_bypasstraffic_def send_grecphello_def Let_def case_prod_beta later_calls later_send)

lemma later_dhcp :
  "later s t \<Longrightarrow> later s (snd (start_udhcpc w t))" "later s t \<Longrightarrow> later s (snd (start_udhcpc6 w t))"
  "later s t \<Longrightarrow> later s (snd (kill_udhcpc w t))" "later s t \<Longrightarrow> later s (snd (kill_udhcpc6 w t))"
  "later s t \<Longrightarrow> later s (process_udhcpc_output w t)" "later s t \<Longrightarrow> later s (process_udhcpc6_output w t)"
  "later s t \<Longrightarrow> later s (snd (delete_dhcp_script w t))"
  by (simp_all add: start_udhcpc_def start_udhcpc6_def open_pipe_def kill_udhcpc_def kill_udhcpc6_def
      process_udhcpc_output_def process_udhcpc6_output_def delete_dhcp_script_def Let_def case_prod_beta
      later_calls later_event)

lemma later_get_primary_ip6: "get_primary_ip6 w ifname t = Inr (ip, t') \<Longrightarrow> later s t \<Longrightarrow> later s t'"
  by (auto simp: get_primary_ip6_def Let_def case_prod_beta bind_res_eq_Inr later_calls split: option.splits)

lemma later_update_ips: "update_ips w t = Inr t' \<Longrightarrow> later t t'"
  by (auto simp: update_ips_def Let_def bind_res_eq_Inr split: if_splits
      intro!: later_calls(2) elim!: later_get_primary_ip6)

lemma later_tunnel_section :
  "later s t \<Longrightarrow> later s (connect_tunnels w t)" "later s t \<Longrightarrow> later s (ack_filter_list w t)"
  "later s t \<Longrightarrow> later s (verify_tunnel w t)" "later s t \<Longrightarrow> later s (hello_timer sel upd tt w t)"
  "later s t \<Longrightarrow> later s (hello_verification sel upd t)" "later s t \<Longrightarrow> later s (bypass_timer w t)"
  "later s t \<Longrightarrow> later s (reset_lte t)" "later s t \<Longrightarrow> later s (reset_dsl t)"
  "later s t \<Longrightarrow> later s (reset_dhcp w t)" "later s t \<Longrightarrow> later s (reset_dhcp6 w t)"
  by (simp_all add: connect_tunnels_def ack_filter_list_def verify_tunnel_def hello_timer_def
      hello_verification_def bypass_timer_def reset_lte_def reset_dsl_def reset_dhcp_def reset_dhcp6_def
      Let_def case_prod_beta later_calls later_sends later_event later_dhcp)

lemma later_device :
  "later s t \<Longrightarrow> later s (reset_session w t)" "later s t \<Longrightarrow> later s (tunnel_device w t)"
  by (simp_all add: reset_session_def tunnel_device_def create_tunnel_dev_def create_tun_tunnel_dev_def
      create_gre_tunnel_dev_def destroy_tunnel_dev_def destroy_tun_tunnel_dev_def destroy_gre_tunnel_dev_def
      Let_def case_prod_beta later_calls later_event later_tunnel_section)

lemma later_start_threads: "start_threads w t = Inr t' \<Longrightarrow> later s t \<Longrightarrow> later s t'"
  by (auto simp: start_threads_def open_gre_socket_def Let_def case_prod_beta bind_res_eq_Inr later_calls split: if_splits)

lemma later_late_section :
  "later s t \<Longrightarrow> later s (cancel_threads t)" "later s t \<Longrightarrow> later s (stop_threads t)"
  "later s t \<Longrightarrow> later s (dhcp_client w t)" "later s t \<Longrightarrow> later s (dhcp6_client w t)"
  "later s t \<Longrightarrow> later s (lease_expiry w t)" "later s t \<Longrightarrow> later s (lease6_expiry w t)"
proof -
  show c: "later s (cancel_threads t)" if "later s t" for t
    using that by (simp add: cancel_threads_def close_gre_socket_def Let_def later_calls)
  show "later s (stop_threads t)" if "later s t" for t
    using that c by (simp add: stop_threads_def)
qed (simp_all add: dhcp_client_def start_dhcp_client_def reap_dhcp_client_def dhcp6_client_def start_dhcp6_client_def
    reap_dhcp6_client_def lease_expiry_def lease6_expiry_def Let_def case_prod_beta later_calls later_event later_dhcp)

lemma later_destroy : "later s t \<Longrightarrow> later s (snd (destroy_tunnel_dev w t))"
  by (simp add: destroy_tunnel_dev_def destroy_tun_tunnel_dev_def destroy_gre_tunnel_dev_def
      Let_def case_prod_beta later_calls later_event)

lemma later_signal : "later s t \<Longrightarrow> later s (handle_pending_signal w t)"
proof -
  assume t: "later s t"
  have "later s (shutdown w t)"
    unfolding shutdown_def
    by (intro later_let later_if later_calls later_event later_dhcp later_late_section later_destroy later_sends t)
      (rule t | assumption)+
  with t show ?thesis by (simp add: handle_pending_signal_def later_calls)
qed

lemma hello_timer_reads:
  assumes "tunnel_established (sel (rt s))"
  shows "tick s < tick (hello_timer sel upd tt w s)"
proof -
  have "later (snd (get_uptime w s)) (hello_timer sel upd tt w s)"
    using assms by (simp add: hello_timer_def Let_def case_prod_beta later_calls later_sends)
  then show ?thesis by (simp add: later_def get_uptime_eq)
qed

lemma tunnel_sections_later:
  "later (bypass_timer w (hello_verification dsl dsl_update (hello_verification lte lte_update (hello_timer dsl dsl_update GRECP_TUNTYPE_DSL w
      (hello_timer lte lte_update GRECP_TUNTYPE_LTE w (verify_tunnel w (ack_filter_list w (connect_tunnels w s))))))))
     (tunnel_sections w s)"
  unfolding tunnel_sections_def Let_def by (intro later_device later_tunnel_section later_refl)

lemma final_sections_later:
  assumes "start_threads w (tunnel_device w t) = Inr s2"
  shows "later t (handle_pending_signal w (after_threads w s2))"
proof -
  have "later t s2" by (rule later_start_threads [OF assms]) (intro later_device later_refl)
  then show ?thesis unfolding after_threads_def by (intro later_signal later_late_section)
qed

subsection \<open>The timers\<close>

lemma link_of_round:
  "give_up retry created (hello_out interval now stamp (link_of t)) =
     (let u = hello_round interval retry now stamp t
      in if tunnel_established u \<or> \<not> created then link_of u
         else \<lparr>link_up = False, link_missed = 0, link_sent = 0, link_heard = 0\<rparr>)"
  by (simp add: hello_round_def hello_due_def give_up_def hello_out_def link_of_def Let_def)

lemma timers_links:
  assumes "execute_timers w s = Inr s'"
  obtains k l where
    "links (rt s') =
       (give_up (hello_retry_times (haap (rt s))) (tunnel_interface_created (rt s))
          (hello_out (active_hello_interval (haap (rt s))) (fst (env_clock w k)) (hello_stamp w (Suc k)) (link_of (lte (rt s)))),
        give_up (hello_retry_times (haap (rt s))) (tunnel_interface_created (rt s))
          (hello_out (active_hello_interval (haap (rt s))) (fst (env_clock w l)) (hello_stamp w (Suc l)) (link_of (dsl (rt s)))))"
    "tick s \<le> k" "k \<le> l" "l \<le> tick s'" "tunnel_established (lte (rt s)) \<Longrightarrow> k < tick s'"
    "tunnel_established (dsl (rt s)) \<Longrightarrow> l < tick s'"
proof -
  obtain s1 s2 where s1: "update_ips w s = Inr s1"
    and s2: "start_threads w (tunnel_device w (tunnel_sections w s1)) = Inr s2"
    and s': "s' = handle_pending_signal w (after_threads w s2)"
    using execute_timersE [OF assms] .
  define v where "v = verify_tunnel w (ack_filter_list w (connect_tunnels w s1))"
  define a where "a = hello_timer lte lte_update GRECP_TUNTYPE_LTE w v"
  define b where "b = hello_timer dsl dsl_update GRECP_TUNTYPE_DSL w a"
  define c where "c = bypass_timer w (hello_verification dsl dsl_update (hello_verification lte lte_update b))"
  let ?i = "active_hello_interval (haap (rt s))" and ?r = "hello_retry_times (haap (rt s))"
  let ?c = "tunnel_interface_created (rt s)"
  let ?l = "hello_round ?i ?r (fst (env_clock w (tick v))) (hello_stamp w (Suc (tick v))) (lte (rt v))"
  let ?d = "hello_round ?i ?r (fst (env_clock w (tick a))) (hello_stamp w (Suc (tick a))) (dsl (rt a))"
  obtain x where "lte (rt v) = (lte (rt s1))\<lparr>tunnel_verification_required := x\<rparr>"
    using verify_tunnel_lte [of w "ack_filter_list w (connect_tunnels w s1)"] by (auto simp: v_def)
  then have v: "link_of (lte (rt v)) = link_of (lte (rt s))" "haap (rt v) = haap (rt s)"
    using update_ips_session [OF s1] by (auto simp: link_of_def v_def)
  have a: "link_of (dsl (rt a)) = link_of (dsl (rt s))" "haap (rt a) = haap (rt s)"
    using update_ips_session [OF s1] by (auto simp: link_of_def a_def v_def lte_hello.hello_timer_haap)
  have b: "haap (rt b) = haap (rt s)" by (simp add: b_def dsl_hello.hello_timer_haap a)
  have "lte (rt (hello_verification lte lte_update b)) = ?l"
    using lte_hello.verification_after_timer [of b w v] by (simp add: a_def b_def v b [unfolded b_def a_def])
  then have l: "lte (rt c) = ?l" by (simp add: c_def)
  have "dsl (rt (hello_verification dsl dsl_update (hello_verification lte lte_update b))) = ?d"
    using dsl_hello.verification_after_timer [of "hello_verification lte lte_update b" w a]
    by (simp add: b_def a lte_hello.verification_haap dsl_hello.hello_timer_haap)
  moreover have "link_of (dsl (rt (bypass_timer w t))) = link_of (dsl (rt t))" for t
    using bypass_hello_data [of w t] by (simp add: link_of_def hello_data_def)
  ultimately have d: "link_of (dsl (rt c)) = link_of ?d" by (simp add: c_def)
  have "flag_state (rt c) = flag_state (rt s)"
    using flag_state_update_ips [OF s1] by (simp add: c_def b_def a_def v_def)
  then have created: "tunnel_interface_created (rt c) = ?c" by (simp add: flag_state_def device_state_def)
  have sections: "tunnel_sections w s1 = reset_session w (reset_dsl (reset_lte c))"
    by (simp add: tunnel_sections_def c_def b_def a_def v_def Let_def)
  have fin: "links (rt s') = (link_of (lte (rt (reset_lte c))), link_of (dsl (rt (reset_dsl (reset_lte c)))))"
    unfolding links_def s' session_after_timers [OF s2] sections by simp
  have lte: "link_of (lte (rt (reset_lte c))) = give_up ?r ?c (hello_out ?i (fst (env_clock w (tick v)))
      (hello_stamp w (Suc (tick v))) (link_of (lte (rt s))))"
    unfolding v(1) [symmetric] link_of_round Let_def reset_lte_sel created l by (simp add: link_of_def)
  have "tunnel_established (dsl (rt c)) = tunnel_established ?d" using d by (simp add: link_of_def)
  moreover have "tunnel_interface_created (rt (reset_lte c)) = ?c" by (simp add: reset_lte_def created)
  ultimately have dsl: "link_of (dsl (rt (reset_dsl (reset_lte c)))) = give_up ?r ?c (hello_out ?i (fst (env_clock w (tick a)))
      (hello_stamp w (Suc (tick a))) (link_of (dsl (rt s))))"
    unfolding a(1) [symmetric] link_of_round Let_def using d
    by (simp add: reset_dsl_def) (simp add: link_of_def)
  have "later s v" using later_update_ips [OF s1] unfolding v_def by (intro later_tunnel_section)
  moreover have "later v a" unfolding a_def by (intro later_tunnel_section later_refl)
  moreover have "later a b" unfolding b_def by (intro later_tunnel_section later_refl)
  moreover have "later b (tunnel_sections w s1)"
    using tunnel_sections_later [of w s1, folded v_def, folded a_def, folded b_def, folded c_def]
    by (rule later_trans [rotated]) (unfold c_def, intro later_tunnel_section later_refl)
  moreover have "later (tunnel_sections w s1) s'" unfolding s' by (rule final_sections_later [OF s2])
  moreover have "tick v < tick a" if "tunnel_established (lte (rt s))"
    unfolding a_def by (rule hello_timer_reads) (use that v(1) in \<open>simp add: link_of_def\<close>)
  moreover have "tick a < tick b" if "tunnel_established (dsl (rt s))"
    unfolding b_def by (rule hello_timer_reads) (use that a(1) in \<open>simp add: link_of_def\<close>)
  ultimately have order: "tick s \<le> tick v" "tick v \<le> tick a" "tick a \<le> tick s'"
      "tunnel_established (lte (rt s)) \<Longrightarrow> tick v < tick s'" "tunnel_established (dsl (rt s)) \<Longrightarrow> tick a < tick s'"
    unfolding later_def by linarith+
  show thesis by (rule that [of "tick v" "tick a"]) (use order in \<open>simp_all add: fin lte dsl\<close>)
qed

subsection \<open>Refinement\<close>

lemma process_later:
  assumes "process_grecpmessage w buf sz s = Inr s'"
  shows "tick s \<le> tick s'"
proof -
  have accept: "tick s \<le> tick s'" if "handle_grecpaccept w t buf 9 (sz - 9) s = Inr s'" for t
    using handle_grecpaccept_frame [OF that] by (auto simp: establish_tunnel_def get_uptime_eq Let_def)
  have teardown: "tick s \<le> tick s'" if "handle_grecpteardown buf 9 (sz - 9) s = Inr s'"
    using handle_grecpteardown_result [OF that] by simp
  show ?thesis
    using assms accept teardown hello_later.loop_keeps [of "tick s" s] notify_later.loop_keeps [of "tick s" s]
    by (auto simp: process_grecpmessage_def handle_grecphello_def handle_grecpnotify_def Let_def
        dest: handle_grecpdeny_unchanged split: if_splits)
qed

lemma process_created:
  assumes "process_grecpmessage w buf sz s = Inr s'"
  shows "tunnel_interface_created (rt s') = tunnel_interface_created (rt s)"
  using message_change_device(2) [OF process_change [OF assms]] by (simp add: device_state_def)

text \<open>The message that the main loop handles in a turn, as the automaton sees it.\<close>

definition heard_control :: "event \<Rightarrow> process \<Rightarrow> control" where
  "heard_control e p =
     (case e of
        Control w (Datagram src data) \<Rightarrow>
          if src = haap_ip (haap (rt (proc p)))
          then control_of (bonding_key (haap (rt (proc p)))) (receive_into (main_buffer p) data)
                 (int (length (take MAX_PKT_SIZE data))) (fst (env_clock w (tick (proc p))))
          else Ignored
      | _ \<Rightarrow> Ignored)"

text \<open>
  One turn: the message, the hello timer of either link with its own reading of the clock, and the check for missed hellos. The
  interval and the allowed number are those after the message. A link that is up has its clock read by a call of this turn.
\<close>

definition link_turn :: "env \<Rightarrow> nat \<Rightarrow> nat \<Rightarrow> haap \<Rightarrow> bool \<Rightarrow> link \<times> link \<Rightarrow> link \<times> link" where
  "link_turn w k l h created x =
     (give_up (hello_retry_times h) created
        (hello_out (active_hello_interval h) (fst (env_clock w k)) (hello_stamp w (Suc k)) (fst x)),
      give_up (hello_retry_times h) created
        (hello_out (active_hello_interval h) (fst (env_clock w l)) (hello_stamp w (Suc l)) (snd x)))"

definition tunnel_transition :: "event \<Rightarrow> process \<Rightarrow> process \<Rightarrow> bool" where
  "tunnel_transition e p q \<longleftrightarrow>
     (case e of
        Control w inp \<Rightarrow>
          (let x = after_control (heard_control e p) (links (rt (proc p)))
           in \<exists>k l. links (rt (proc q)) =
                link_turn w k l (haap (rt (proc q))) (tunnel_interface_created (rt (proc p))) x \<and>
              tick (proc p) \<le> k \<and> k \<le> l \<and> (link_up (fst x) \<longrightarrow> k < tick (proc q)) \<and> (link_up (snd x) \<longrightarrow> l < tick (proc q)))
      | _ \<Rightarrow> links (rt (proc q)) = links (rt (proc p)))"

lemma link_up_links: "link_up (fst (links r)) = tunnel_established (lte r)" "link_up (snd (links r)) = tunnel_established (dsl r)"
  by (simp_all add: links_def link_of_def)

lemma timers_transition:
  assumes "execute_timers w s = Inr s'"
  shows "\<exists>k l. links (rt s') = link_turn w k l (haap (rt s')) (tunnel_interface_created (rt s)) (links (rt s)) \<and>
    tick s \<le> k \<and> k \<le> l \<and> (link_up (fst (links (rt s))) \<longrightarrow> k < tick s') \<and> (link_up (snd (links (rt s))) \<longrightarrow> l < tick s')"
  by (rule timers_links [OF assms]; unfold link_up_links link_turn_def timers_hello_parameters [OF assms])
    (auto simp: links_def)

text \<open>
  C12: The process implements the automaton of the two tunnels, step for step. Signals and data packets leave the links alone. A turn of
  the main loop first does what the datagram says, if it came from the server: an accept brings its link up with the time of
  its arrival as the last hello, echoed hellos clear the missed ones and count as heard, a tear down with the bonding key takes both
  down, everything else changes nothing. Then for either link, at a reading of the clock in this turn, a due
  hello goes out and the one before counts as missed if it was not heard, and the link goes down exactly when the allowed
  number is reached. Established flag, missed hellos and both times are determined, given those readings.
\<close>

theorem tunnels_refine_automaton:
  assumes "process_step e p = Inr q" and "buffers_ok p"
  shows "tunnel_transition e p q"
proof (cases e)
  case (Control w inp)
  then have it: "main_iteration w inp (main_buffer p, proc p) = Inr (main_buffer q, proc q)"
    using assms(1) by (auto simp: bind_res_eq_Inr)
  show ?thesis
  proof (cases "\<exists>data. inp = Datagram (haap_ip (haap (rt (proc p)))) data")
    case True
    then obtain data where inp: "inp = Datagram (haap_ip (haap (rt (proc p)))) data" ..
    let ?b = "receive_into (main_buffer p) data" and ?n = "int (length (take MAX_PKT_SIZE data))"
    obtain s1 where s1: "process_grecpmessage w ?b ?n (proc p) = Inr s1" and ex: "execute_timers w s1 = Inr (proc q)"
      using it by (auto simp: inp main_iteration_def Let_def bind_res_eq_Inr)
    have "array_ok ?b" using assms(2) by (intro length_receive_into) (simp add: buffers_ok_def)
    then have "?n \<le> int (length ?b)" by (simp add: array_ok_def)
    then have x: "links (rt s1) = after_control (heard_control e p) (links (rt (proc p)))"
      using process_links [OF s1] by (simp add: heard_control_def Control inp)
    obtain k l where "links (rt (proc q)) = link_turn w k l (haap (rt (proc q))) (tunnel_interface_created (rt (proc p)))
        (after_control (heard_control e p) (links (rt (proc p))))"
      "tick s1 \<le> k" "k \<le> l" "link_up (fst (after_control (heard_control e p) (links (rt (proc p))))) \<longrightarrow> k < tick (proc q)"
      "link_up (snd (after_control (heard_control e p) (links (rt (proc p))))) \<longrightarrow> l < tick (proc q)"
      using timers_transition [OF ex] unfolding x process_created [OF s1] by blast
    moreover have "tick (proc p) \<le> k" using process_later [OF s1] \<open>tick s1 \<le> k\<close> by simp
    ultimately show ?thesis
      unfolding tunnel_transition_def Let_def by (simp only: Control event.case) blast
  next
    case False
    then have ex: "execute_timers w (proc p) = Inr (proc q)"
      using it by (auto simp: main_iteration_def Let_def bind_res_eq_Inr split: received.splits if_splits)
    have "heard_control e p = Ignored"
      using False by (auto simp: heard_control_def Control split: received.split)
    with timers_transition [OF ex] show ?thesis
      by (simp add: tunnel_transition_def Control)
  qed
next
  case (Signal sig)
  then show ?thesis using assms(1) by (auto simp: tunnel_transition_def links_def handle_signal_def)
next
  case (Download inp stamp now)
  then show ?thesis using assms(1) by (auto simp: tunnel_transition_def bind_res_eq_Inr split: if_splits)
next
  case (Upload w data)
  then show ?thesis
    using assms(1) upload_frame by (fastforce simp: tunnel_transition_def bind_res_eq_Inr split: if_splits)
qed

text \<open>A round in which a hello of the LTE tunnel is due: the last one was echoed, so none is missed.\<close>

theorem tunnels_refine_automaton_witness:
  "\<exists>q. process_step (Control (silent_env 106) No_Datagram)
       (initial (replicate 1500 0) (replicate 1500 0) (replicate 1500 0) zero_rest silent_sys) = Inr q \<and>
     fst (links (rt (proc q))) = \<lparr>link_up = True, link_missed = 0, link_sent = 106, link_heard = 100\<rparr>"
proof -
  let ?b = "replicate 1500 (0 :: u8)"
  let ?p = "initial ?b ?b ?b zero_rest silent_sys"
  obtain s' where s': "execute_timers (silent_env 106) silent_sys = Inr s'"
    using execute_timers_total [of "silent_env 106" silent_sys]
    by (auto simp: silent_env_def silent_sys_def zero_runtime_def)
  then have q: "process_step (Control (silent_env 106) No_Datagram) ?p = Inr (?p\<lparr>proc := s'\<rparr>)"
    by (simp add: initial_def main_iteration_def)
  have "buffers_ok ?p" by (simp add: buffers_ok_def initial_def array_ok_def init_gre2tun_def init_tun2gre_def)
  from tunnels_refine_automaton [OF q this]
  have "fst (links (rt s')) = \<lparr>link_up = True, link_missed = 0, link_sent = 106, link_heard = 100\<rparr>"
    using timers_hello_parameters [OF s']
    by (auto simp: tunnel_transition_def heard_control_def link_turn_def links_def link_of_def initial_def silent_sys_def
        silent_env_def zero_runtime_def zero_haap_def zero_lte_def hello_out_def give_up_def hello_stamp_def Let_def)
  with q show ?thesis by (intro exI [of _ "?p\<lparr>proc := s'\<rparr>"]) simp
qed

end
