(* ===== verification/Leases.thy ===== *)
theory Leases
  imports Silence
begin

text \<open>
  The IPv4 lease in a round of the timers: what the sections before the DHCP clients leave of it, and when the round
  drops it. The readings of the clock are those of the round: \<open>execute_timers\<close> gets the environment of one round.
\<close>

definition lease_pair :: "runtime \<Rightarrow> dhcp4 \<times> dhcp6" where
  "lease_pair r = (dhcp r, dhcp6 r)"

definition lease_end :: "dhcp4 \<Rightarrow> int" where
  "lease_end d = dhcp_lease_obtained d + uint (dhcp_lease_time d)"

definition prefix_end :: "dhcp6 \<Rightarrow> int" where
  "prefix_end d = dhcp6_lease_obtained d + uint (dhcp6_lease_time d)"

definition no_lease :: "dhcp4 \<Rightarrow> dhcp4" where
  "no_lease d = d\<lparr>dhcp_ip := inaddr_any, dhcp_lease_time := 0, dhcp_lease_obtained := 0\<rparr>"

subsection \<open>The sections before the clients\<close>

lemma lease_pair_update_ips: "update_ips w s = Inr s' \<Longrightarrow> lease_pair (rt s') = lease_pair (rt s)"
  by (erule rt_update_ips) (simp add: lease_pair_def)

lemma lease_pair_sections [simp]:
  "lease_pair (rt (connect_tunnels w s)) = lease_pair (rt s)"
  "lease_pair (rt (ack_filter_list w s)) = lease_pair (rt s)"
  "lease_pair (rt (verify_tunnel w s)) = lease_pair (rt s)"
  "lease_pair (rt (hello_timer lte lte_update GRECP_TUNTYPE_LTE w s)) = lease_pair (rt s)"
  "lease_pair (rt (hello_timer dsl dsl_update GRECP_TUNTYPE_DSL w s)) = lease_pair (rt s)"
  "lease_pair (rt (hello_verification lte lte_update s)) = lease_pair (rt s)"
  "lease_pair (rt (hello_verification dsl dsl_update s)) = lease_pair (rt s)"
  "lease_pair (rt (bypass_timer w s)) = lease_pair (rt s)"
  "lease_pair (rt (reset_lte s)) = lease_pair (rt s)" "lease_pair (rt (reset_dsl s)) = lease_pair (rt s)"
  "lease_pair (rt (tunnel_device w s)) = lease_pair (rt s)" "lease_pair (rt (stop_threads s)) = lease_pair (rt s)"
proof -
  show "lease_pair (rt (hello_timer lte lte_update GRECP_TUNTYPE_LTE w s)) = lease_pair (rt s)"
    using rt_hello_timer_lte [of w s] by (auto simp: lease_pair_def)
  show "lease_pair (rt (hello_timer dsl dsl_update GRECP_TUNTYPE_DSL w s)) = lease_pair (rt s)"
    using rt_hello_timer_dsl [of w s] by (auto simp: lease_pair_def)
  show "lease_pair (rt (bypass_timer w s)) = lease_pair (rt s)"
    using rt_bypass_timer [of w s] by (auto simp: lease_pair_def)
qed (simp_all add: lease_pair_def connect_tunnels_def ack_filter_list_def verify_tunnel_def hello_verification_def
    reset_lte_def reset_dsl_def tunnel_device_def Let_def case_prod_beta)

lemma lease_pair_threads: "start_threads w s = Inr s' \<Longrightarrow> lease_pair (rt s') = lease_pair (rt s)"
  by (auto simp: start_threads_def lease_pair_def Let_def case_prod_beta bind_res_eq_Inr dest!: rt_open_gre_socket
      split: if_splits)

lemma lease_pair_tunnel_sections:
  assumes "tunnel_established (lte (rt (tunnel_sections w s))) \<or> tunnel_established (dsl (rt (tunnel_sections w s)))"
  shows "lease_pair (rt (tunnel_sections w s)) = lease_pair (rt s)"
proof -
  have "rt (reset_session w t) = rt t"
    if "tunnel_established (lte (rt (reset_session w t))) \<or> tunnel_established (dsl (rt (reset_session w t)))" for t
    using that by (auto simp: reset_session_def Let_def)
  from this [OF assms [unfolded tunnel_sections_def Let_def]] show ?thesis
    by (simp add: tunnel_sections_def Let_def)
qed

subsection \<open>The clients and the expiry\<close>

lemma dhcp_client_idle:
  assumes "dhcp_lease_time (dhcp (rt s)) \<noteq> 0" and "udhcpc_pid (dhcp (rt s)) = 0"
  shows "dhcp_client w s = s"
  using assms by (simp add: dhcp_client_def start_dhcp_client_def reap_dhcp_client_def)

lemma dhcp6_client_dhcp: "dhcp (rt (dhcp6_client w s)) = dhcp (rt s)"
proof -
  have "dhcp (rt (process_udhcpc6_output w t)) = dhcp (rt t)" for t
    using process_udhcpc6_output_frame [of w t] by auto
  then show ?thesis
    by (simp add: dhcp6_client_def start_dhcp6_client_def reap_dhcp6_client_def Let_def case_prod_beta)
qed

lemma lease_expiry_cases:
  "dhcp (rt (lease_expiry w s)) =
     (if dhcp_lease_time (dhcp (rt s)) \<noteq> 0 \<and> lease_end (dhcp (rt s)) \<le> fst (env_clock w (tick s))
      then no_lease (dhcp (rt s)) else dhcp (rt s))"
  "dhcp6 (rt (lease_expiry w s)) = dhcp6 (rt s)"
  by (simp_all add: lease_expiry_def get_uptime_eq Let_def no_lease_def lease_end_def)

lemma lease6_expiry_cases:
  "dhcp (rt (lease6_expiry w s)) =
     (if dhcp6_lease_time (dhcp6 (rt s)) \<noteq> 0 \<and> prefix_end (dhcp6 (rt s)) \<le> fst (env_clock w (tick s))
      then no_lease (dhcp (rt s)) else dhcp (rt s))"
  "dhcp6 (rt (lease6_expiry w s)) = dhcp6 (rt s)"
  by (simp_all add: lease6_expiry_def get_uptime_eq Let_def no_lease_def prefix_end_def)

lemma no_lease_simps [simp]: "dhcp_lease_time (no_lease d) = 0" "no_lease (no_lease d) = no_lease d"
  by (simp_all add: no_lease_def)

lemma handle_pending_signal_leases: "lease_pair (rt (handle_pending_signal w s)) = lease_pair (rt s)"
  by (simp add: handle_pending_signal_def lease_pair_def)

text \<open>
  C28: A DHCP lease lives as long as it was granted for. When all readings of the clock in a round lie between \<open>lo\<close> and \<open>hi\<close>,
  a lease that is there after the round was not over at \<open>lo\<close>, be it the old one or one that was reported in the round. If no client of it is
  running and a tunnel stays up, a lease that was over at \<open>lo\<close> is dropped, and one that lasts longer than \<open>hi\<close> stays exactly
  as it is. This needs that no lease of a prefix runs out, which would take the address away instead.
\<close>

theorem lease_lives_as_granted:
  assumes "execute_timers w s = Inr s'" and "\<forall>k. lo \<le> fst (env_clock w k) \<and> fst (env_clock w k) \<le> hi"
  shows "(dhcp_lease_time (dhcp (rt s')) = 0 \<or> lo < lease_end (dhcp (rt s'))) \<and>
    (dhcp_lease_time (dhcp (rt s)) \<noteq> 0 \<and> udhcpc_pid (dhcp (rt s)) = 0 \<and>
       (tunnel_established (lte (rt s')) \<or> tunnel_established (dsl (rt s'))) \<longrightarrow>
     (lease_end (dhcp (rt s)) \<le> lo \<longrightarrow> dhcp (rt s') = no_lease (dhcp (rt s))) \<and>
     (hi < lease_end (dhcp (rt s)) \<and> (dhcp6_lease_time (dhcp6 (rt s')) = 0 \<or> hi < prefix_end (dhcp6 (rt s'))) \<longrightarrow>
        dhcp (rt s') = dhcp (rt s)))"
proof -
  obtain s1 s2 where s1: "update_ips w s = Inr s1"
    and s2: "start_threads w (tunnel_device w (tunnel_sections w s1)) = Inr s2"
    and s': "s' = handle_pending_signal w (after_threads w s2)"
    using execute_timersE [OF assms(1)] .
  define t where "t = dhcp6_client w (dhcp_client w (stop_threads s2))"
  have fin: "dhcp (rt s') = dhcp (rt (lease6_expiry w (lease_expiry w t)))"
    "dhcp6 (rt s') = dhcp6 (rt (lease6_expiry w (lease_expiry w t)))"
    using handle_pending_signal_leases [of w "after_threads w s2"]
    by (simp_all add: s' after_threads_def t_def lease_pair_def)
  have clock: "lo \<le> fst (env_clock w k)" "fst (env_clock w k) \<le> hi" for k using assms(2) by simp_all
  have one: "dhcp_lease_time (dhcp (rt s')) = 0 \<or> lo < lease_end (dhcp (rt s'))"
    using clock(1) [of "tick t"] by (auto simp: fin lease6_expiry_cases lease_expiry_cases)
  moreover have two: "(lease_end (dhcp (rt s)) \<le> lo \<longrightarrow> dhcp (rt s') = no_lease (dhcp (rt s))) \<and>
      (hi < lease_end (dhcp (rt s)) \<and> (dhcp6_lease_time (dhcp6 (rt s')) = 0 \<or> hi < prefix_end (dhcp6 (rt s'))) \<longrightarrow>
        dhcp (rt s') = dhcp (rt s))"
    if lease: "dhcp_lease_time (dhcp (rt s)) \<noteq> 0" "udhcpc_pid (dhcp (rt s)) = 0"
      and up: "tunnel_established (lte (rt s')) \<or> tunnel_established (dsl (rt s'))"
  proof -
    have "lease_pair (rt (stop_threads s2)) = lease_pair (rt s)"
      using up lease_pair_tunnel_sections [of w s1] lease_pair_update_ips [OF s1] lease_pair_threads [OF s2]
      unfolding s' session_after_timers [OF s2] by simp
    then have same: "dhcp (rt (stop_threads s2)) = dhcp (rt s)" by (simp add: lease_pair_def)
    have t: "dhcp (rt t) = dhcp (rt s)"
      using dhcp_client_idle [of "stop_threads s2" w, unfolded same, OF lease] by (simp only: t_def dhcp6_client_dhcp same)
    show ?thesis
      using clock [of "tick t"] clock [of "tick (lease_expiry w t)"] lease
      by (auto simp: fin lease6_expiry_cases lease_expiry_cases t)
  qed
  ultimately show ?thesis by blast
qed

text \<open>When no call succeeds, no DHCPv6 client is started and the prefix stays what it is.\<close>

lemma prefix_kept:
  assumes "execute_timers w s = Inr s'" and "\<forall>k. \<not> env_ok w k" and "udhcpc6_pid (dhcp6 (rt s)) = 0"
    and lease: "dhcp_lease_time (dhcp (rt s)) \<noteq> 0" "udhcpc_pid (dhcp (rt s)) = 0"
    and "tunnel_established (lte (rt s')) \<or> tunnel_established (dsl (rt s'))"
  shows "dhcp6_lease_time (dhcp6 (rt s')) = dhcp6_lease_time (dhcp6 (rt s))"
proof -
  obtain s1 s2 where s1: "update_ips w s = Inr s1"
    and s2: "start_threads w (tunnel_device w (tunnel_sections w s1)) = Inr s2"
    and s': "s' = handle_pending_signal w (after_threads w s2)"
    using execute_timersE [OF assms(1)] .
  have "lease_pair (rt (stop_threads s2)) = lease_pair (rt s)"
    using assms(6) lease_pair_tunnel_sections [of w s1] lease_pair_update_ips [OF s1] lease_pair_threads [OF s2]
    unfolding s' session_after_timers [OF s2] by simp
  then have same: "dhcp (rt (stop_threads s2)) = dhcp (rt s)" "dhcp6 (rt (stop_threads s2)) = dhcp6 (rt s)"
    by (simp_all only: lease_pair_def prod.inject)
  have "dhcp6_lease_time (dhcp6 (rt (dhcp6_client w t))) = dhcp6_lease_time (dhcp6 (rt t))"
    if "udhcpc6_pid (dhcp6 (rt t)) = 0" for t
    using that assms(2) by (simp add: dhcp6_client_def start_dhcp6_client_def reap_dhcp6_client_def start_udhcpc6_def ask_ok_def)
  then have "dhcp6_lease_time (dhcp6 (rt (dhcp6_client w (dhcp_client w (stop_threads s2))))) = dhcp6_lease_time (dhcp6 (rt s))"
    using dhcp_client_idle [of "stop_threads s2" w, unfolded same, OF lease] assms(3) by (simp only: same)
  then show ?thesis
    using handle_pending_signal_leases [of w "after_threads w s2"]
    by (simp add: s' after_threads_def lease_pair_def lease6_expiry_cases lease_expiry_cases)
qed

definition leased_sys :: "u32 \<Rightarrow> sys" where
  "leased_sys n = set_dhcp (\<lambda>d. d\<lparr>dhcp_ip := [100, 64, 0, 9], dhcp_lease_time := n, dhcp_lease_obtained := 50\<rparr>) silent_sys"

theorem lease_lives_as_granted_witness:
  "\<exists>s' t'. execute_timers (silent_env 102) (leased_sys 60) = Inr s' \<and> dhcp (rt s') = dhcp (rt (leased_sys 60)) \<and>
     execute_timers (silent_env 102) (leased_sys 30) = Inr t' \<and> dhcp_lease_time (dhcp (rt t')) = 0"
proof -
  have run: "\<exists>s'. execute_timers (silent_env 102) (leased_sys n) = Inr s'" for n
    using execute_timers_total [of "silent_env 102" "leased_sys n"]
    by (auto simp: silent_env_def leased_sys_def silent_sys_def zero_runtime_def)
  obtain s' t' where s': "execute_timers (silent_env 102) (leased_sys 60) = Inr s'"
    and t': "execute_timers (silent_env 102) (leased_sys 30) = Inr t'" using run by meson
  have up: "tunnel_established (lte (rt s'))" if ex: "execute_timers (silent_env 102) (leased_sys n) = Inr s'" for n s'
  proof -
    obtain k u where "u = hello_round 5 2 (fst (env_clock (silent_env 102) k)) (hello_stamp (silent_env 102) (Suc k))
        (lte (rt (leased_sys n)))" and "tunnel_established (lte (rt s')) = tunnel_established u"
      using lte_monitored.round [OF ex] by (auto simp: leased_sys_def silent_sys_def zero_runtime_def zero_haap_def)
    then show ?thesis
      by (simp add: leased_sys_def silent_sys_def zero_runtime_def zero_haap_def silent_env_def zero_lte_def hello_round_def
          hello_due_def Let_def)
  qed
  have clock: "\<forall>k. 102 \<le> fst (env_clock (silent_env 102) k) \<and> fst (env_clock (silent_env 102) k) \<le> 102"
    by (simp add: silent_env_def)
  have prefix: "dhcp6_lease_time (dhcp6 (rt s')) = 0"
    using prefix_kept [OF s'] up [OF s']
    by (simp add: leased_sys_def silent_sys_def silent_env_def zero_runtime_def zero_dhcp4_def zero_dhcp6_def)
  show ?thesis
    using s' t' lease_lives_as_granted [OF s' clock] lease_lives_as_granted [OF t' clock] up [OF s'] up [OF t']
    by (auto simp: leased_sys_def silent_sys_def zero_runtime_def zero_dhcp4_def lease_end_def prefix)
qed

end
