(* ===== verification/Establishment.thy ===== *)
theory Establishment
  imports Tunnels
begin

text \<open>
  How a session comes up: when the server accepts a tunnel and the system calls succeed, the round in which
  the message arrives ends with the tunnel up and the devices of the session in place.
\<close>

subsection \<open>What the hellos of one round cost\<close>

context hello_slot begin

lemma hello_timer_missed_down:
  "\<not> tunnel_established (sel (rt s)) \<Longrightarrow>
     missed_hellos (sel (rt (hello_timer sel upd tuntype w s))) = missed_hellos (sel (rt s))"
  by (simp add: hello_timer_down)

lemma hello_timer_missed_le:
  "unat (missed_hellos (sel (rt (hello_timer sel upd tuntype w s)))) \<le>
     unat (missed_hellos (sel (rt s))) + (if tunnel_established (sel (rt s)) then 1 else 0)"
  using hello_timer_missed [of w s] hello_timer_missed_down [of s w] by auto

end

lemma reset_missed:
  "fst (missed (rt (reset_dsl (reset_lte s)))) \<le> fst (missed (rt s))"
  "snd (missed (rt (reset_dsl (reset_lte s)))) \<le> snd (missed (rt s))"
  by (simp_all add: missed_def reset_dsl_def reset_lte_def)

lemma bypass_missed: "missed (rt (bypass_timer w s)) = missed (rt s)"
proof (cases "tunnel_established (dsl (rt s))")
  case True
  obtain t where "rt (snd (send_grecpnotify_bypasstraffic w 1000 (s\<lparr>tick := Suc (tick s)\<rparr>))) =
      dsl_update (last_bypass_traffic_sent_update (\<lambda>_. t)) (rt s)"
    using rt_send_bypass [of w 1000 "s\<lparr>tick := Suc (tick s)\<rparr>"] by auto
  then show ?thesis by (simp add: bypass_timer_def get_uptime_eq Let_def missed_def)
qed (simp add: bypass_timer_def)

lemma verification_missed:
  "missed (rt (hello_verification lte lte_update s)) = missed (rt s)"
  "missed (rt (hello_verification dsl dsl_update s)) = missed (rt s)"
  by (simp_all add: hello_verification_def missed_def)

lemma timers_missed:
  assumes "execute_timers w s = Inr s'"
  shows "fst (missed (rt s')) \<le> fst (missed (rt s)) + (if fst (tunnels (rt s)) then 1 else 0)"
    "snd (missed (rt s')) \<le> snd (missed (rt s)) + (if snd (tunnels (rt s)) then 1 else 0)"
proof -
  obtain s1 s2 where s1: "update_ips w s = Inr s1"
    and s2: "start_threads w (tunnel_device w (tunnel_sections w s1)) = Inr s2"
    and s': "s' = handle_pending_signal w (after_threads w s2)"
    using execute_timersE [OF assms] .
  define v where "v = verify_tunnel w (ack_filter_list w (connect_tunnels w s1))"
  define a where "a = hello_timer lte lte_update GRECP_TUNTYPE_LTE w v"
  define b where "b = hello_timer dsl dsl_update GRECP_TUNTYPE_DSL w a"
  define c where "c = bypass_timer w (hello_verification dsl dsl_update (hello_verification lte lte_update b))"
  obtain x where x: "lte (rt v) = (lte (rt s1))\<lparr>tunnel_verification_required := x\<rparr>"
    using verify_tunnel_lte [of w "ack_filter_list w (connect_tunnels w s1)"] by (auto simp: v_def)
  have v: "tunnels (rt v) = tunnels (rt s)" "missed (rt v) = missed (rt s)"
    using update_ips_session [OF s1] x by (auto simp: tunnels_def missed_def v_def)
  have end_: "missed (rt s') = missed (rt (reset_dsl (reset_lte c)))"
    unfolding s' missed_def session_after_timers [OF s2]
    by (simp add: tunnel_sections_def c_def b_def a_def v_def)
  have c: "missed (rt c) = missed (rt b)" by (simp add: c_def bypass_missed verification_missed)
  have "fst (missed (rt b)) \<le> fst (missed (rt v)) + (if fst (tunnels (rt v)) then 1 else 0)"
    using lte_hello.hello_timer_missed_le [of w v] by (simp add: b_def a_def missed_def tunnels_def)
  with reset_missed(1) [of c] show "fst (missed (rt s')) \<le> fst (missed (rt s)) + (if fst (tunnels (rt s)) then 1 else 0)"
    unfolding end_ c v by linarith
  have "snd (missed (rt b)) \<le> snd (missed (rt v)) + (if snd (tunnels (rt v)) then 1 else 0)"
    using dsl_hello.hello_timer_missed_le [of w a] by (simp add: b_def a_def missed_def tunnels_def)
  with reset_missed(2) [of c] show "snd (missed (rt s')) \<le> snd (missed (rt s)) + (if snd (tunnels (rt s)) then 1 else 0)"
    unfolding end_ c v by linarith
qed

text \<open>With allowance for one more missed hello no tunnel is lost in a round.\<close>

lemma timers_keep_tunnels:
  assumes "execute_timers w s = Inr s'"
    and "fst (missed (rt s)) + 1 < unat (hello_retry_times (haap (rt s)))"
    and "snd (missed (rt s)) + 1 < unat (hello_retry_times (haap (rt s)))"
  shows "tunnels (rt s') = tunnels (rt s)"
proof -
  obtain m1 m2 where "m1 \<le> fst (missed (rt s)) + 1" "m2 \<le> snd (missed (rt s)) + 1"
    "tunnels (rt s') = (fst (tunnels (rt s)) \<and> m1 < unat (hello_retry_times (haap (rt s))),
      snd (tunnels (rt s)) \<and> m2 < unat (hello_retry_times (haap (rt s))))"
    using timers_tunnels [OF assms(1)] .
  with assms(2,3) show ?thesis by (cases "tunnels (rt s)") auto
qed

subsection \<open>The devices of the session\<close>

text \<open>Every call succeeds; descriptors and thread handles are positive, as Linux gives them to a process whose
  standard streams are open. Every reading of the interface table gives one that the kernel prints. The status of a child and
  the output of a DHCP client are arbitrary.\<close>

definition good_calls :: "env \<Rightarrow> bool" where
  "good_calls w \<longleftrightarrow> (\<forall>k. env_ok w k \<and> 0 < env_int w k \<and> printed_table (env_text w k))"

lemma good_callsD:
  assumes "good_calls w"
  shows "env_ok w k" "0 < env_int w k" "env_int w k \<noteq> 0" "\<not> env_int w k < 0"
proof -
  show "env_ok w k" and pos: "0 < env_int w k" using assms by (simp_all add: good_calls_def)
  from pos show "env_int w k \<noteq> 0" "\<not> env_int w k < 0" by simp_all
qed

lemma good_timers: "good_calls w \<Longrightarrow> \<exists>s'. execute_timers w s = Inr s'"
  unfolding good_calls_def by (metis execute_timers_total less_imp_le)

lemma tunnel_device_created:
  assumes "good_calls w" and "bonding (rt s)" and "tunnels (rt s) \<noteq> (False, False)"
  shows "tunnel_interface_created (rt (tunnel_device w s))" "bonding (rt (tunnel_device w s))"
proof -
  have "fst (create_tunnel_dev w s)"
    using assms(2) good_callsD [OF assms(1)]
    by (simp add: create_tunnel_dev_def create_tun_tunnel_dev_def ask_int_def ask_ok_def Let_def case_prod_beta)
  with assms(2,3) show "tunnel_interface_created (rt (tunnel_device w s))" "bonding (rt (tunnel_device w s))"
    by (auto simp: tunnel_device_def tunnels_def Let_def case_prod_beta)
qed

lemma start_threads_good:
  assumes "good_calls w" and "bonding (rt s)" and "tunnel_interface_created (rt s)" and "start_threads w s = Inr s'"
  shows "devices_up s'"
  using assms(2-4) good_callsD [OF assms(1)]
  by (auto simp: start_threads_def open_gre_socket_def devices_up_def ask_int_def ask_ok_def
      Let_def bind_res_eq_Inr split: if_splits)

lemma timers_bring_devices:
  assumes "execute_timers w s = Inr s'" and "good_calls w" and "bonding (rt s)" and "tunnels (rt s') \<noteq> (False, False)"
  shows "devices_up s'"
proof -
  obtain s1 s2 where s1: "update_ips w s = Inr s1"
    and s2: "start_threads w (tunnel_device w (tunnel_sections w s1)) = Inr s2"
    and s': "s' = handle_pending_signal w (after_threads w s2)"
    using execute_timersE [OF assms(1)] .
  let ?t = "tunnel_sections w s1"
  have "bonding (rt ?t)"
    using flag_state_update_ips [OF s1] flag_state_tunnel_sections [of w s1] assms(3)
    by (simp add: flag_state_def device_state_def)
  moreover have "tunnels (rt ?t) \<noteq> (False, False)"
    using assms(4) by (simp add: s' tunnels_def session_after_timers [OF s2])
  ultimately have "devices_up s2"
    using tunnel_device_created [OF assms(2)] start_threads_good [OF assms(2) _ _ s2] by blast
  moreover have "device_state (rt s') = device_state (rt s2)" "device_log s' = device_log s2"
    using device_state_of_flags [OF flag_state_after_threads] device_log_of_process [OF process_log_after_threads]
    by (simp_all add: s' device_state_signal device_log_signal)
  ultimately show ?thesis using devices_up_cong by blast
qed

subsection \<open>An accept message\<close>

definition accept_datagram :: "u32 \<Rightarrow> u8 \<Rightarrow> (u8 \<times> bytes) list \<Rightarrow> bytes" where
  "accept_datagram key tun xs = message_in key GRECP_MSGTYPE_ACCEPT tun xs []"

definition accept_ok :: "u8 \<Rightarrow> (u8 \<times> bytes) list \<Rightarrow> bool" where
  "accept_ok tun xs \<longleftrightarrow> tun \<in> {GRECP_TUNTYPE_LTE, GRECP_TUNTYPE_DSL} \<and> (\<forall>x \<in> set xs. exact_tlv x) \<and>
     message_size xs \<le> int MAX_PKT_SIZE"

lemma main_iteration_accept:
  assumes "accept_ok tun xs" and "wf_sys s"
  shows "main_iteration w (Datagram (haap_ip (haap (rt s))) (accept_datagram key tun xs)) (buffer, s) =
    bind_res (execute_timers w (establish_tunnel w tun (set_haap (fold accept_tlv xs) s))) (\<lambda>s.
      Inr (receive_into buffer (accept_datagram key tun xs), s))"
proof -
  let ?d = "accept_datagram key tun xs"
  have size: "message_size xs = int (length ?d)"
    by (simp add: accept_datagram_def message_in_def message_size_def)
  then have take: "take MAX_PKT_SIZE ?d = ?d" using assms(1) by (simp add: accept_ok_def)
  have buf: "receive_into buffer ?d = message_in key GRECP_MSGTYPE_ACCEPT tun xs (drop (length ?d) buffer)"
    unfolding receive_into_def take by (simp add: accept_datagram_def message_in_def)
  have "process_grecpmessage w (receive_into buffer ?d) (int (length ?d)) s =
      Inr (establish_tunnel w tun (set_haap (fold accept_tlv xs) s))"
    unfolding buf size [symmetric]
    using assms by (intro process_accept) (auto simp: accept_ok_def)
  then show ?thesis unfolding main_iteration_def by (simp add: Let_def take del: length_take)
qed

definition allowance :: "sys \<Rightarrow> haap \<Rightarrow> bool" where
  "allowance s h \<longleftrightarrow> fst (missed (rt s)) + 1 < unat (hello_retry_times h) \<and>
     snd (missed (rt s)) + 1 < unat (hello_retry_times h)"

lemma accepted_state:
  assumes "t = establish_tunnel w tun (set_haap f s)"
  shows "haap (rt t) = f (haap (rt s))" "missed (rt t) = missed (rt s)" "bonding (rt t) = bonding (rt s)"
    "tunnels (rt t) = tunnels_after (Accepted tun) (tunnels (rt s))"
    "runtime.signal (rt t) = runtime.signal (rt s)" "exited t = exited s"
  by (simp_all add: assms establish_tunnel_def get_uptime_eq missed_def tunnels_def)

lemma accept_tlv_anycast: "anycast_ip (accept_tlv x h) = anycast_ip h"
  by (simp add: accept_tlv_def Let_def)

lemma fold_accept_anycast: "anycast_ip (fold accept_tlv xs h) = anycast_ip h"
  by (induction xs arbitrary: h) (simp_all add: accept_tlv_anycast)

lemma fold_accept_ip:
  "\<forall>x \<in> set xs. exact_tlv x \<Longrightarrow> length (haap_ip h) = 16 \<Longrightarrow> length (haap_ip (fold accept_tlv xs h)) = 16"
  by (induction xs arbitrary: h) (simp_all add: accept_tlv_ip)

lemma accepted_up: "tunnels_after (Accepted tun) x \<noteq> (False, False)"
  by (cases x) simp

text \<open>A signal in the way would be handled in the same round.\<close>

definition undisturbed :: "sys \<Rightarrow> bool" where
  "undisturbed s \<longleftrightarrow> wf_sys s \<and> bonding (rt s) \<and> runtime.signal (rt s) = 0 \<and> exited s = None"

lemma timers_undisturbed:
  assumes "execute_timers w s = Inr s'" and "undisturbed s"
  shows "undisturbed s'"
proof -
  obtain s1 s2 where s1: "update_ips w s = Inr s1"
    and s2: "start_threads w (tunnel_device w (tunnel_sections w s1)) = Inr s2"
    and s': "s' = handle_pending_signal w (after_threads w s2)"
    using execute_timersE [OF assms(1)] .
  have "s' = after_threads w s2"
    using process_before_signal(1) [OF s1 s2] assms(2) by (simp add: s' handle_pending_signal_def undisturbed_def)
  with process_before_signal [OF s1 s2] have "runtime.signal (rt s') = 0" "exited s' = None"
    using assms(2) by (simp_all add: undisturbed_def)
  moreover have "wf_sys s'"
    using wf_timers.execute_timers_keeps [OF _ assms(1)] assms(2) by (simp add: undisturbed_def wf_sys_def)
  ultimately show ?thesis using execute_timers_bonding [OF assms(1)] assms(2) by (simp add: undisturbed_def)
qed

lemma accept_round:
  assumes "accept_ok tun xs" and "good_calls w" and "undisturbed s" and "h = fold accept_tlv xs (haap (rt s))"
    and "allowance s h"
  obtains b s' where
    "main_iteration w (Datagram (haap_ip (haap (rt s))) (accept_datagram key tun xs)) (buffer, s) = Inr (b, s')"
    "tunnels (rt s') = tunnels_after (Accepted tun) (tunnels (rt s))" "haap (rt s') = h" "devices_up s'" "undisturbed s'"
    "fst (missed (rt s')) \<le> fst (missed (rt s)) + (if fst (tunnels (rt s')) then 1 else 0)"
    "snd (missed (rt s')) \<le> snd (missed (rt s)) + (if snd (tunnels (rt s')) then 1 else 0)"
proof -
  define t where "t = establish_tunnel w tun (set_haap (fold accept_tlv xs) s)"
  note t = accepted_state [OF t_def]
  obtain s' where ex: "execute_timers w t = Inr s'" using good_timers [OF assms(2)] by blast
  have wf: "wf_sys s" using assms(3) by (simp add: undisturbed_def)
  have it: "main_iteration w (Datagram (haap_ip (haap (rt s))) (accept_datagram key tun xs)) (buffer, s) =
      Inr (receive_into buffer (accept_datagram key tun xs), s')"
    using main_iteration_accept [OF assms(1) wf] by (simp add: t_def [symmetric] ex)
  have tun: "tunnels (rt s') = tunnels_after (Accepted tun) (tunnels (rt s))"
    using timers_keep_tunnels [OF ex] assms(4,5) by (simp add: t allowance_def)
  have "wf_runtime (rt t)"
  proof -
    have "length (haap_ip (fold accept_tlv xs (haap (rt s)))) = 16"
      using fold_accept_ip [of xs "haap (rt s)"] assms(1) wf
      by (simp add: accept_ok_def wf_sys_def wf_runtime_def)
    moreover have "anycast_ip (fold accept_tlv xs (haap (rt s))) = anycast_ip (haap (rt s))"
      by (rule fold_accept_anycast)
    ultimately show ?thesis
      using wf by (simp add: t_def establish_tunnel_def get_uptime_eq wf_sys_def wf_runtime_def)
  qed
  then have und: "undisturbed t" using assms(3) by (simp add: undisturbed_def wf_sys_def t)
  show thesis
  proof (rule that [OF it tun])
    have "tunnels (rt s') \<noteq> (False, False)" unfolding tun by (rule accepted_up)
    then show "haap (rt s') = h"
      using timers_haap [OF ex] assms(4) by (auto simp: t tunnels_def split: if_splits)
    show "devices_up s'"
      using timers_bring_devices [OF ex assms(2)] assms(3) \<open>tunnels (rt s') \<noteq> _\<close> by (simp add: t undisturbed_def)
    show "undisturbed s'" by (rule timers_undisturbed [OF ex und])
    show "fst (missed (rt s')) \<le> fst (missed (rt s)) + (if fst (tunnels (rt s')) then 1 else 0)"
      "snd (missed (rt s')) \<le> snd (missed (rt s)) + (if snd (tunnels (rt s')) then 1 else 0)"
      using timers_missed [OF ex] by (simp_all add: t tun)
  qed
qed

subsection \<open>The session comes up\<close>

text \<open>An accept message takes effect in the round in which it arrives, whatever was in the receive array: at the end of the
  round its tunnel is up, the other one is as before, the record of the server is the one of the
  message, and tun device, data socket and both threads exist. It needs system calls that succeed
  and allowance for one more missed hello.\<close>

theorem accept_brings_session_up:
  assumes "accept_ok tun xs" and "good_calls w" and "undisturbed s"
    and "h = fold accept_tlv xs (haap (rt s))" and "allowance s h"
  shows "\<exists>b s'. main_iteration w (Datagram (haap_ip (haap (rt s))) (accept_datagram key tun xs)) (buffer, s) = Inr (b, s') \<and>
    tunnels (rt s') = tunnels_after (Accepted tun) (tunnels (rt s)) \<and> haap (rt s') = h \<and>
    devices_up s' \<and> exited s' = None"
  by (rule accept_round [OF assms, of key buffer]) (auto simp: undisturbed_def)

definition forgotten :: "haap \<Rightarrow> haap" where
  "forgotten h = h\<lparr>haap_ip := anycast_ip h, bonding_key := 0, session_id := 0, commit_count := 0\<rparr>"

text \<open>A process that has just started, and an accept message with three allowed hellos, a bonding key and an
  address for the second request.\<close>

definition boot_sys :: sys where
  "boot_sys = init_sys\<lparr>rt := zero_runtime\<lparr>bonding := True\<rparr>\<rparr>"

definition accept_example :: "(u8 \<times> bytes) list" where
  "accept_example = [(15, [0, 0, 0, 3]), (20, [0, 0, 0, 9]), (2, replicate 16 5), (255, [])]"

lemma good_example_env: "good_calls example_env"
  by (auto simp: good_calls_def example_env_def)

lemma boot_simps:
  "undisturbed boot_sys" "tunnels (rt boot_sys) = (False, False)" "missed (rt boot_sys) = (0, 0)"
  "haap (rt boot_sys) = zero_haap"
  using wf_init_sys
  by (simp_all add: undisturbed_def boot_sys_def tunnels_def missed_def zero_lte_def zero_dsl_def
      zero_runtime_def init_sys_def wf_sys_def wf_runtime_def)

lemma accept_example_ok: "accept_ok GRECP_TUNTYPE_LTE accept_example" "accept_ok GRECP_TUNTYPE_DSL [(255, [])]"
  by (simp_all add: accept_ok_def accept_example_def exact_tlv_def word_attribute_def message_size_def length_encode_attr)

lemma accept_example_fields:
  "hello_retry_times (fold accept_tlv accept_example (forgotten zero_haap)) = 3"
  "haap_ip (fold accept_tlv accept_example (forgotten zero_haap)) = replicate 16 5"
  "hello_retry_times (fold accept_tlv accept_example zero_haap) = 3"
  by (simp_all add: accept_example_def accept_tlv_def Let_def forgotten_def zero_haap_def)

theorem accept_brings_session_up_witness:
  "\<exists>b s'. main_iteration example_env (Datagram in6addr_any (accept_datagram 0 GRECP_TUNTYPE_LTE accept_example)) ([], boot_sys) = Inr (b, s') \<and>
     tunnels (rt s') = (True, False) \<and> hello_retry_times (haap (rt s')) = 3 \<and> devices_up s'"
proof -
  have "allowance boot_sys (fold accept_tlv accept_example (haap (rt boot_sys)))"
    by (simp add: allowance_def boot_simps accept_example_fields)
  from accept_brings_session_up [OF accept_example_ok(1) good_example_env boot_simps(1) refl this, of 0 "[]"]
  show ?thesis by (auto simp: boot_simps zero_haap_def [THEN arg_cong [of _ _ haap_ip]] accept_example_fields)
qed

text \<open>Whatever messages come later, the number of allowed hellos stays.\<close>

lemma accept_tlv_retry: "hello_retry_times h \<noteq> 0 \<Longrightarrow> hello_retry_times (accept_tlv x h) = hello_retry_times h"
  by (simp add: accept_tlv_def Let_def)

lemma fold_accept_retry: "hello_retry_times h \<noteq> 0 \<Longrightarrow> hello_retry_times (fold accept_tlv xs h) = hello_retry_times h"
  by (induction xs arbitrary: h) (simp_all add: accept_tlv_retry)

definition rounds :: "(env \<times> received) list \<Rightarrow> bytes \<times> sys \<Rightarrow> fault + (bytes \<times> sys)" where
  "rounds ins = fold_res (\<lambda>(w, inp). main_iteration w inp) ins"

lemma idle_round:
  assumes "good_calls w" and "undisturbed s" and "tunnels (rt s) = (False, False)" and "missed (rt s) = (0, 0)"
  obtains s' where "main_iteration w No_Datagram (buffer, s) = Inr (buffer, s')" "undisturbed s'"
    "tunnels (rt s') = (False, False)" "missed (rt s') = (0, 0)" "haap (rt s') = forgotten (haap (rt s))"
proof -
  obtain s' where ex: "execute_timers w s = Inr s'" using good_timers [OF assms(1)] by blast
  obtain m1 m2 where t: "tunnels (rt s') = (False, False)"
    using timers_tunnels [OF ex] assms(3) by auto
  have "missed (rt s') = (0, 0)" using timers_missed [OF ex] assms(3,4) by (cases "missed (rt s')") simp
  moreover have "haap (rt s') = forgotten (haap (rt s))"
    using timers_haap [OF ex] t by (simp add: tunnels_def forgotten_def)
  ultimately show thesis
    using that t timers_undisturbed [OF ex assms(2)] ex by (simp add: main_iteration_def)
qed

lemma handshake_rounds:
  assumes "undisturbed s" and "tunnels (rt s) = (False, False)" and "missed (rt s) = (0, 0)"
    and "good_calls w0" and "good_calls w1" and "good_calls w2"
    and "accept_ok GRECP_TUNTYPE_LTE xs1" and "accept_ok GRECP_TUNTYPE_DSL xs2"
    and "h1 = fold accept_tlv xs1 (forgotten (haap (rt s)))" and "2 < unat (hello_retry_times h1)"
  shows "\<exists>b s'. rounds
      [(w0, No_Datagram),
       (w1, Datagram (anycast_ip (haap (rt s))) (accept_datagram k1 GRECP_TUNTYPE_LTE xs1)),
       (w2, Datagram (haap_ip h1) (accept_datagram k2 GRECP_TUNTYPE_DSL xs2))] (buffer, s) = Inr (b, s') \<and>
    tunnels (rt s') = (True, True) \<and> haap (rt s') = fold accept_tlv xs2 h1 \<and> devices_up s' \<and> exited s' = None"
proof -
  obtain s0 where 0: "main_iteration w0 No_Datagram (buffer, s) = Inr (buffer, s0)" "undisturbed s0"
    and s0: "tunnels (rt s0) = (False, False)" "missed (rt s0) = (0, 0)" "haap (rt s0) = forgotten (haap (rt s))"
    using idle_round [OF assms(4,1,2,3)] .
  have h1: "h1 = fold accept_tlv xs1 (haap (rt s0))" and ip0: "haap_ip (haap (rt s0)) = anycast_ip (haap (rt s))"
    using assms(9) by (simp_all add: s0 forgotten_def)
  have "allowance s0 h1" using assms(10) by (simp add: allowance_def s0)
  from accept_round [OF assms(7,5) 0(2) h1 this, of k1 buffer] obtain b1 s1 where
    1: "main_iteration w1 (Datagram (haap_ip (haap (rt s0))) (accept_datagram k1 GRECP_TUNTYPE_LTE xs1)) (buffer, s0) = Inr (b1, s1)"
    and t1: "tunnels (rt s1) = tunnels_after (Accepted GRECP_TUNTYPE_LTE) (tunnels (rt s0))" "haap (rt s1) = h1"
    and d1: "devices_up s1" "undisturbed s1"
    and m1: "fst (missed (rt s1)) \<le> fst (missed (rt s0)) + (if fst (tunnels (rt s1)) then 1 else 0)"
      "snd (missed (rt s1)) \<le> snd (missed (rt s0)) + (if snd (tunnels (rt s1)) then 1 else 0)" .
  have s1: "tunnels (rt s1) = (True, False)" "fst (missed (rt s1)) \<le> 1" "snd (missed (rt s1)) = 0"
    using t1(1) m1 by (simp_all add: s0)
  let ?h2 = "fold accept_tlv xs2 h1"
  have "hello_retry_times ?h2 = hello_retry_times h1" using assms(10) by (intro fold_accept_retry) auto
  then have "allowance s1 ?h2" using assms(10) s1(2,3) by (simp add: allowance_def)
  from accept_round [OF assms(8,6) d1(2) _ this, of k2 b1] obtain b2 s2 where
    2: "main_iteration w2 (Datagram (haap_ip (haap (rt s1))) (accept_datagram k2 GRECP_TUNTYPE_DSL xs2)) (b1, s1) = Inr (b2, s2)"
    and t2: "tunnels (rt s2) = tunnels_after (Accepted GRECP_TUNTYPE_DSL) (tunnels (rt s1))" "haap (rt s2) = ?h2"
    and d2: "devices_up s2" "undisturbed s2"
    using t1(2) by blast
  have "tunnels (rt s2) = (True, True)" using t2(1) by (simp add: s1)
  moreover have "rounds [(w0, No_Datagram),
       (w1, Datagram (anycast_ip (haap (rt s))) (accept_datagram k1 GRECP_TUNTYPE_LTE xs1)),
       (w2, Datagram (haap_ip h1) (accept_datagram k2 GRECP_TUNTYPE_DSL xs2))] (buffer, s) = Inr (b2, s2)"
    using 0(1) 1 2 by (simp add: rounds_def ip0 t1(2))
  ultimately show ?thesis using t2(2) d2 by (auto simp: d2(1) undisturbed_def)
qed

text \<open>
  C6: The handshake completes. A bonding process without tunnels, missed hellos and pending signals, whose requests the
  server answers, the one for the LTE tunnel from its anycast address and the one for the DSL tunnel from the address it announced,
  has both tunnels, the record that the two messages describe and all devices after three rounds, if the system calls
  in these rounds succeed, the interface table is one that the kernel prints, and more than two missed
  hellos are allowed.
\<close>

theorem handshake_completes:
  assumes "undisturbed s" and "tunnels (rt s) = (False, False)" and "missed (rt s) = (0, 0)"
    and "good_calls w0" and "good_calls w1" and "good_calls w2"
    and "accept_ok GRECP_TUNTYPE_LTE xs1" and "accept_ok GRECP_TUNTYPE_DSL xs2"
    and "h1 = fold accept_tlv xs1 (forgotten (haap (rt s)))" and "2 < unat (hello_retry_times h1)"
  shows "\<exists>b s'. rounds
      [(w0, No_Datagram),
       (w1, Datagram (anycast_ip (haap (rt s))) (accept_datagram k1 GRECP_TUNTYPE_LTE xs1)),
       (w2, Datagram (haap_ip h1) (accept_datagram k2 GRECP_TUNTYPE_DSL xs2))] (buffer, s) = Inr (b, s') \<and>
    tunnels (rt s') = (True, True) \<and> haap (rt s') = fold accept_tlv xs2 h1 \<and> devices_up s' \<and> exited s' = None"
  using assms by (rule handshake_rounds)

theorem handshake_completes_witness:
  "\<exists>b s'. rounds
      [(example_env, No_Datagram),
       (example_env, Datagram in6addr_any (accept_datagram 0 GRECP_TUNTYPE_LTE accept_example)),
       (example_env, Datagram (replicate 16 5) (accept_datagram 0 GRECP_TUNTYPE_DSL [(255, [])]))] ([], boot_sys) = Inr (b, s') \<and>
     tunnels (rt s') = (True, True) \<and> devices_up s'"
proof -
  have "2 < unat (hello_retry_times (fold accept_tlv accept_example (forgotten (haap (rt boot_sys)))))"
    by (simp add: boot_simps accept_example_fields)
  from handshake_completes [OF boot_simps(1-3) good_example_env good_example_env good_example_env accept_example_ok refl this, of 0 0 "[]"]
  show ?thesis by (auto simp: boot_simps accept_example_fields zero_haap_def [THEN arg_cong [of _ _ anycast_ip]])
qed

end
