(* ===== verification/Attribute_Meaning.thy ===== *)
theory Attribute_Meaning
  imports Dispatch
begin

text \<open>
  What a control message means, attribute by attribute. The locale \<open>attribute_reader\<close> is the contract of a loop
  body that looks at one attribute only: at its number, and at as many bytes of its value as it needs. The
  four bodies of the handlers meet it, so a message acts as the list of its attributes, and the
  attributes of the protocol that no handler knows can be left out of it.
\<close>

subsection \<open>Bodies that look at one attribute\<close>

text \<open>An attribute whose value lies at the beginning of the buffer.\<close>

definition standalone :: "u8 \<times> bytes \<Rightarrow> grecpattr" where
  "standalone x = \<lparr>attr_id = fst x, attr_length = of_nat (length (snd x)), attr_value = 0\<rparr>"

locale attribute_reader =
  fixes body :: "bytes \<Rightarrow> grecpattr \<Rightarrow> 's \<Rightarrow> fault + 's"
    and needs :: "u8 \<Rightarrow> nat"
    and known :: "u8 \<Rightarrow> bool"
  assumes local: "attr_value a + unat (attr_length a) \<le> length buf \<Longrightarrow>
      needs (attr_id a) \<le> unat (attr_length a) \<Longrightarrow>
      body buf a s = body (attr_payload buf a) (standalone (attr_view buf a)) s"
    and skips: "\<not> known (attr_id a) \<Longrightarrow> body buf a s = Inr s"
begin

definition meaning :: "u8 \<times> bytes \<Rightarrow> 's \<Rightarrow> fault + 's" where
  "meaning x = body (snd x) (standalone x)"

lemma fold_meaning:
  assumes "\<And>a. a \<in> set as \<Longrightarrow> attr_value a + unat (attr_length a) \<le> length buf \<and>
      needs (attr_id a) \<le> unat (attr_length a)"
  shows "fold_res (body buf) as s = fold_res meaning (map (attr_view buf) as) s"
  using assms
proof (induction as arbitrary: s)
  case (Cons a as)
  have "body buf a s = meaning (attr_view buf a) s"
    using Cons.prems [of a] local by (simp add: meaning_def attr_view_def)
  moreover have "fold_res (body buf) as = fold_res meaning (map (attr_view buf) as)"
    using Cons by (intro ext) auto
  ultimately show ?case by simp
qed simp

lemma fold_known: "fold_res meaning (filter (\<lambda>x. known (fst x)) xs) s = fold_res meaning xs s"
proof (induction xs arbitrary: s)
  case (Cons x xs)
  have "meaning x t = Inr t" if "\<not> known (fst x)" for t
    using that skips [of "standalone x"] by (simp add: meaning_def standalone_def)
  moreover have "fold_res meaning (filter (\<lambda>x. known (fst x)) xs) = fold_res meaning xs"
    using Cons by (intro ext) simp
  ultimately show ?case by simp
qed simp

lemma loop_meaning:
  assumes "\<And>x. x \<in> set xs \<Longrightarrow> length (snd x) < 2 ^ 16 \<and> needs (fst x) \<le> length (snd x)"
  shows "attr_loop body (message_in key typ tun xs stale) 9 (message_size xs - 9) s = fold_res meaning xs s"
proof -
  let ?buf = "message_in key typ tun xs stale" and ?sz = "message_size xs - 9"
  let ?as = "parse_attrs ?buf 9 ?sz"
  have xs: "map (attr_view ?buf) ?as = xs" by (rule parse_message_in) (use assms in blast)
  have "attr_value a + unat (attr_length a) \<le> length ?buf \<and> needs (attr_id a) \<le> unat (attr_length a)"
    if a: "a \<in> set ?as" for a
  proof
    show b: "attr_value a + unat (attr_length a) \<le> length ?buf"
      using parse_attrs_within [OF a] message_in_bound [of xs key "typ" tun stale]
      by (simp add: message_size_def)
    from a have "attr_view ?buf a \<in> set (map (attr_view ?buf) ?as)" by simp
    then have "attr_view ?buf a \<in> set xs" unfolding xs .
    from assms [OF this] show "needs (attr_id a) \<le> unat (attr_length a)"
      using length_attr_payload [OF b] by (simp add: attr_view_def)
  qed
  then have "fold_res (body ?buf) ?as s = fold_res meaning xs s"
    using fold_meaning [of ?as ?buf] xs by simp
  then show ?thesis
    using attr_loop_eq_fold [of 9 ?sz ?buf body s] message_in_bound [of xs key "typ" tun stale] by simp
qed

lemma loop_skips:
  assumes "\<And>x. x \<in> set xs \<Longrightarrow> length (snd x) < 2 ^ 16 \<and> needs (fst x) \<le> length (snd x)"
    and "ys = filter (\<lambda>x. known (fst x)) xs"
  shows "attr_loop body (message_in key typ tun xs stale) 9 (message_size xs - 9) s =
    attr_loop body (message_in key typ tun ys stale') 9 (message_size ys - 9) s"
proof -
  have "attr_loop body (message_in key typ tun ys stale') 9 (message_size ys - 9) s = fold_res meaning ys s"
    using assms by (intro loop_meaning) auto
  then show ?thesis using loop_meaning [OF assms(1)] fold_known by (simp add: assms(2))
qed

end

subsection \<open>The four bodies\<close>

definition accept_known :: "u8 \<Rightarrow> bool" where
  "accept_known i \<longleftrightarrow> i \<in> {GRECP_MSGATTR_H_IPV6_ADDRESS, GRECP_MSGATTR_SESSION_ID,
     GRECP_MSGATTR_ACTIVE_HELLO_INTERVAL, GRECP_MSGATTR_HELLO_RETRY_TIMES,
     GRECP_MSGATTR_BONDING_KEY_VALUE, GRECP_MSGATTR_BYPASS_BANDWIDTH_CHECK_INTERVAL}"

lemma id_standalone: "attr_id (standalone (attr_view buf a)) = attr_id a"
  by (simp add: standalone_def attr_view_def)

lemma payload_standalone: "attr_payload (attr_payload buf a) (standalone (attr_view buf a)) = attr_payload buf a"
proof -
  have "length (attr_payload buf a) \<le> unat (attr_length a)" by (simp add: attr_payload_def)
  then have "unat (of_nat (length (attr_payload buf a)) :: u16) = length (attr_payload buf a)"
    using unsigned_less [of "attr_length a", where 'a = nat] by (intro unat_of_nat_u16) simp
  then show ?thesis by (simp add: attr_payload_def [of "attr_payload buf a"] standalone_def attr_view_def)
qed

text \<open>A part of the value read through the attribute is the same part of the value.\<close>

lemma mem_read_payload:
  assumes "attr_value a + unat (attr_length a) \<le> length buf" and "k + n \<le> unat (attr_length a)"
  shows "mem_read (attr_payload buf a) k n = mem_read buf (attr_value a + k) n"
proof -
  have "take n (drop k (attr_payload buf a)) = take n (drop (attr_value a + k) buf)"
    using assms by (simp add: attr_payload_def drop_take min_def add.commute)
  then show ?thesis using assms length_attr_payload [OF assms(1)] by (simp add: mem_read_within)
qed

interpretation accept_meaning: attribute_reader accept_attribute "\<lambda>_. 0" accept_known
proof
  fix a :: grecpattr and buf :: bytes and h
  show "accept_attribute buf a h = accept_attribute (attr_payload buf a) (standalone (attr_view buf a)) h"
    by (simp add: accept_attribute_def payload_standalone id_standalone cong: if_cong)
  show "\<not> accept_known (attr_id a) \<Longrightarrow> accept_attribute buf a h = Inr h"
    by (simp add: accept_attribute_def accept_known_def)
qed

interpretation error_code_meaning: attribute_reader error_code_attribute
  "\<lambda>i. if i = GRECP_MSGATTR_ERROR_CODE then 4 else 0" "\<lambda>i. i = GRECP_MSGATTR_ERROR_CODE"
proof
  fix a :: grecpattr and buf :: bytes and e
  assume "attr_value a + unat (attr_length a) \<le> length buf"
    and "(if attr_id a = GRECP_MSGATTR_ERROR_CODE then 4 else 0) \<le> unat (attr_length a)"
  then show "error_code_attribute buf a e =
      error_code_attribute (attr_payload buf a) (standalone (attr_view buf a)) e"
    using mem_read_payload [of a buf 0 4]
    by (simp add: error_code_attribute_def standalone_def attr_view_def split: if_splits)
qed (simp add: error_code_attribute_def)

interpretation hello_meaning: attribute_reader "hello_attribute w t"
  "\<lambda>i. if i = GRECP_MSGATTR_TIMESTAMP then 8 else 0" "\<lambda>i. i = GRECP_MSGATTR_TIMESTAMP" for w t
proof
  fix a :: grecpattr and buf :: bytes and s
  assume "attr_value a + unat (attr_length a) \<le> length buf"
    and "(if attr_id a = GRECP_MSGATTR_TIMESTAMP then 8 else 0) \<le> unat (attr_length a)"
  then show "hello_attribute w t buf a s =
      hello_attribute w t (attr_payload buf a) (standalone (attr_view buf a)) s"
    using mem_read_payload [of a buf 0 4] mem_read_payload [of a buf 4 4]
    by (simp add: hello_attribute_def standalone_def attr_view_def split: if_splits)
qed (simp add: hello_attribute_def)

interpretation notify_meaning: attribute_reader notify_attribute
  "\<lambda>i. if i = GRECP_MSGATTR_FILTER_LIST_PACKAGE then 4 else 0"
  "\<lambda>i. i = GRECP_MSGATTR_FILTER_LIST_PACKAGE \<or> i = GRECP_MSGATTR_TUNNEL_VERIFICATION"
proof
  fix a :: grecpattr and buf :: bytes and s
  assume "attr_value a + unat (attr_length a) \<le> length buf"
    and "(if attr_id a = GRECP_MSGATTR_FILTER_LIST_PACKAGE then 4 else 0) \<le> unat (attr_length a)"
  then show "notify_attribute buf a s =
      notify_attribute (attr_payload buf a) (standalone (attr_view buf a)) s"
    using mem_read_payload [of a buf 0 4]
    by (simp add: notify_attribute_def standalone_def attr_view_def split: if_splits)
qed (simp add: notify_attribute_def)

subsection \<open>Attributes that no handler knows\<close>

definition known_in :: "u8 \<Rightarrow> u8 \<Rightarrow> bool" where
  "known_in t i \<longleftrightarrow>
     (if t = GRECP_MSGTYPE_ACCEPT then accept_known i
      else if t = GRECP_MSGTYPE_DENY \<or> t = GRECP_MSGTYPE_TEARDOWN then i = GRECP_MSGATTR_ERROR_CODE
      else if t = GRECP_MSGTYPE_HELLO then i = GRECP_MSGATTR_TIMESTAMP
      else if t = GRECP_MSGTYPE_NOTIFY then
        i = GRECP_MSGATTR_FILTER_LIST_PACKAGE \<or> i = GRECP_MSGATTR_TUNNEL_VERIFICATION
      else False)"

text \<open>The bytes of the value that the handler reads whatever the length of the attribute is.\<close>

definition needed_in :: "u8 \<Rightarrow> u8 \<Rightarrow> nat" where
  "needed_in t i =
     (if t \<in> {GRECP_MSGTYPE_DENY, GRECP_MSGTYPE_TEARDOWN} \<and> i = GRECP_MSGATTR_ERROR_CODE then 4
      else if t = GRECP_MSGTYPE_HELLO \<and> i = GRECP_MSGATTR_TIMESTAMP then 8
      else if t = GRECP_MSGTYPE_NOTIFY \<and> i = GRECP_MSGATTR_FILTER_LIST_PACKAGE then 4
      else 0)"

text \<open>The attributes that \<open>grecp.h\<close> numbers and no code handles when they arrive.\<close>

definition unhandled_attributes :: "u8 list" where
  "unhandled_attributes =
     [GRECP_MSGATTR_H_IPV4_ADDRESS, GRECP_MSGATTR_CLIENT_IDENTIFICATION_NAME, GRECP_MSGATTR_BYPASS_TRAFFIC_RATE,
      GRECP_MSGATTR_DSL_SYNCHRONIZATION_RATE, GRECP_MSGATTR_RTT_DIFFERENCE_THRESHOLD,
      GRECP_MSGATTR_SWITCHING_TO_DSL_TUNNEL, GRECP_MSGATTR_OVERFLOWING_TO_LTE_TUNNEL,
      GRECP_MSGATTR_IPV6_PREFIX_ASSIGNED_BY_HAAP, GRECP_MSGATTR_IDLE_TIMEOUT, GRECP_MSGATTR_DSL_LINK_FAILURE,
      GRECP_MSGATTR_LTE_LINK_FAILURE, GRECP_MSGATTR_IPV6_PREFIX_ASSIGNED_TO_HOST,
      GRECP_MSGATTR_CONFIGURED_DSL_UPSTREAM_BANDWIDTH, GRECP_MSGATTR_CONFIGURED_DSL_DOWNSTREAM_BANDWIDTH,
      GRECP_MSGATTR_RTT_DIFFERENCE_THRESHOLD_VIOLATION, GRECP_MSGATTR_RTT_DIFFERENCE_THRESHOLD_COMPLIANCE,
      GRECP_MSGATTR_DIAGNOSTIC_START_BONDING_TUNNEL, GRECP_MSGATTR_DIAGNOSTIC_START_DSL_TUNNEL,
      GRECP_MSGATTR_DIAGNOSTIC_START_LTE_TUNNEL, GRECP_MSGATTR_DIAGNOSTIC_END,
      GRECP_MSGATTR_FILTER_LIST_PACKAGE_ACK, GRECP_MSGATTR_IDLE_HELLO_INTERVAL,
      GRECP_MSGATTR_NO_TRAFFIC_MONITORED_INTERVAL, GRECP_MSGATTR_SWITCHING_TO_ACTIVE_HELLO_STATE,
      GRECP_MSGATTR_SWITCHING_TO_IDLE_HELLO_STATE, GRECP_MSGATTR_PADDING]"

lemma unhandled_unknown: "known_in t i \<Longrightarrow> i \<notin> set unhandled_attributes"
  by (auto simp: known_in_def accept_known_def unhandled_attributes_def split: if_splits)

definition readable :: "u8 \<Rightarrow> (u8 \<times> bytes) list \<Rightarrow> bool" where
  "readable t xs \<longleftrightarrow> (\<forall>x \<in> set xs. length (snd x) < 2 ^ 16 \<and> needed_in t (fst x) \<le> length (snd x))"

lemma readableD:
  "readable t xs \<Longrightarrow> x \<in> set xs \<Longrightarrow> length (snd x) < 2 ^ 16 \<and> needed_in t (fst x) \<le> length (snd x)"
  by (simp add: readable_def)

text \<open>Each loop on the whole message is the loop on the attributes that the handler knows.\<close>

lemma accept_skips:
  assumes "readable t xs" and "ys = filter (\<lambda>x. known_in t (fst x)) xs" and "t = GRECP_MSGTYPE_ACCEPT"
  shows "attr_loop accept_attribute (message_in key t tun xs stale) 9 (message_size xs - 9) s =
    attr_loop accept_attribute (message_in key t tun ys stale') 9 (message_size ys - 9) s"
  by (rule accept_meaning.loop_skips)
    (use assms(2,3) readableD [OF assms(1)] in \<open>force simp: known_in_def needed_in_def\<close>)+

lemma error_code_skips:
  assumes "readable t xs" and "ys = filter (\<lambda>x. known_in t (fst x)) xs" and "t = GRECP_MSGTYPE_DENY \<or> t = GRECP_MSGTYPE_TEARDOWN"
  shows "attr_loop error_code_attribute (message_in key t tun xs stale) 9 (message_size xs - 9) s =
    attr_loop error_code_attribute (message_in key t tun ys stale') 9 (message_size ys - 9) s"
  by (rule error_code_meaning.loop_skips)
    (use assms(2,3) readableD [OF assms(1)] in \<open>force simp: known_in_def needed_in_def\<close>)+

lemma hello_skips:
  assumes "readable t xs" and "ys = filter (\<lambda>x. known_in t (fst x)) xs" and "t = GRECP_MSGTYPE_HELLO"
  shows "attr_loop (hello_attribute w tun) (message_in key t tun xs stale) 9 (message_size xs - 9) s =
    attr_loop (hello_attribute w tun) (message_in key t tun ys stale') 9 (message_size ys - 9) s"
  by (rule hello_meaning.loop_skips)
    (use assms(2,3) readableD [OF assms(1)] in \<open>force simp: known_in_def needed_in_def\<close>)+

lemma notify_skips:
  assumes "readable t xs" and "ys = filter (\<lambda>x. known_in t (fst x)) xs" and "t = GRECP_MSGTYPE_NOTIFY"
  shows "attr_loop notify_attribute (message_in key t tun xs stale) 9 (message_size xs - 9) s =
    attr_loop notify_attribute (message_in key t tun ys stale') 9 (message_size ys - 9) s"
  by (rule notify_meaning.loop_skips)
    (use assms(2,3) readableD [OF assms(1)] in \<open>force simp: known_in_def needed_in_def\<close>)+

text \<open>C11: A control message means what the attributes mean that its handler knows. Attributes of other kinds, among
  them the twenty-six of the protocol that no handler knows, can be anywhere in the message: it acts like the
  message without them, whatever the key is and whatever follows the message in the receive array. The values
  that a handler reads must be as long as what it reads.\<close>

theorem unknown_attributes_do_not_matter:
  assumes "t \<in> {GRECP_MSGTYPE_REQUEST, GRECP_MSGTYPE_ACCEPT, GRECP_MSGTYPE_DENY, GRECP_MSGTYPE_HELLO,
      GRECP_MSGTYPE_TEARDOWN, GRECP_MSGTYPE_NOTIFY}"
    and "tun \<in> {GRECP_TUNTYPE_LTE, GRECP_TUNTYPE_DSL}"
    and "readable t xs" and "ys = filter (\<lambda>x. known_in t (fst x)) xs"
  shows "process_grecpmessage w (message_in key t tun xs stale) (message_size xs) s =
      process_grecpmessage w (message_in key t tun ys stale') (message_size ys) s \<and>
    fst ` set ys \<inter> set unhandled_attributes = {}"
proof
  let ?buf = "message_in key t tun xs stale" and ?buf' = "message_in key t tun ys stale'"
  show "process_grecpmessage w ?buf (message_size xs) s = process_grecpmessage w ?buf' (message_size ys) s"
  proof (cases "t = GRECP_MSGTYPE_ACCEPT \<or> key = bonding_key (haap (rt s))")
    case True
    note skips = accept_skips [OF assms(3,4)] error_code_skips [OF assms(3,4)]
      hello_skips [OF assms(3,4)] notify_skips [OF assms(3,4)]
    show ?thesis
      unfolding process_message_in [OF assms(1,2) True refl] handle_grecpaccept_def handle_grecpdeny_def
        handle_grecphello_def handle_grecpteardown_def handle_grecpnotify_def
      using skips [where key = key and tun = tun and stale = stale and stale' = stale'] by auto
  next
    case False
    have mt: "drop_bit 4 (msgtype_and_tuntype (message_in key t tun zs r)) \<noteq> GRECP_MSGTYPE_ACCEPT" for zs r
      using False type_nibbles(1) [OF assms(1,2)] by (simp add: message_in_fields)
    have "process_grecpmessage w (message_in key t tun zs r) sz s = Inr s" for zs r sz
      using False mt by (simp add: process_grecpmessage_def Let_def message_in_fields)
    then show ?thesis by simp
  qed
  show "fst ` set ys \<inter> set unhandled_attributes = {}"
    using unhandled_unknown by (auto simp: assms(4))
qed

text \<open>A hello with an identification name in front of the time stamp.\<close>

theorem unknown_attributes_do_not_matter_witness:
  "process_grecpmessage example_env
     (message_in 0 GRECP_MSGTYPE_HELLO 8 [(3, [72, 73]), (5, [0, 0, 0, 1, 0, 0, 0, 2]), (255, [])] [7]) 28 example_sys =
   process_grecpmessage example_env (message_in 0 GRECP_MSGTYPE_HELLO 8 [(5, [0, 0, 0, 1, 0, 0, 0, 2])] []) 20 example_sys"
proof -
  let ?xs = "[(3, [72, 73]), (5, [0, 0, 0, 1, 0, 0, 0, 2]), (255, [])] :: (u8 \<times> bytes) list"
  have "message_size ?xs = 28" "message_size [(5, [0, 0, 0, 1, 0, 0, 0, 2])] = 20"
    by (simp_all add: message_size_def length_encode_attr)
  moreover have "readable GRECP_MSGTYPE_HELLO ?xs" by (simp add: readable_def needed_in_def)
  moreover have "[(5, [0, 0, 0, 1, 0, 0, 0, 2])] = filter (\<lambda>x. known_in GRECP_MSGTYPE_HELLO (fst x)) ?xs"
    by (simp add: known_in_def)
  ultimately show ?thesis
    using unknown_attributes_do_not_matter [of GRECP_MSGTYPE_HELLO 8 ?xs "[(5, [0, 0, 0, 1, 0, 0, 0, 2])]" example_env 0 "[7]" example_sys "[]"]
    by simp
qed

end
