(* ===== verification/Renewal.thy ===== *)
theory Renewal
  imports Establishment Attribute_Meaning
begin

text \<open>
  A session that the server tears down and grants again: the tear down message takes both tunnels down and
  clears the session in the round in which it arrives, and the handshake of \<open>Establishment\<close> runs from the state
  it leaves.
\<close>

subsection \<open>The tear down message\<close>

definition teardown_datagram :: "u32 \<Rightarrow> u8 \<Rightarrow> (u8 \<times> bytes) list \<Rightarrow> bytes" where
  "teardown_datagram key tun xs = message_in key GRECP_MSGTYPE_TEARDOWN tun xs []"

definition teardown_ok :: "u8 \<Rightarrow> (u8 \<times> bytes) list \<Rightarrow> bool" where
  "teardown_ok tun xs \<longleftrightarrow> tun \<in> {GRECP_TUNTYPE_LTE, GRECP_TUNTYPE_DSL} \<and>
     readable GRECP_MSGTYPE_TEARDOWN xs \<and> message_size xs \<le> int MAX_PKT_SIZE"

definition torn_down :: "sys \<Rightarrow> sys" where
  "torn_down s = set_dsl (tunnel_established_update (\<lambda>_. False))
     (set_lte (tunnel_established_update (\<lambda>_. False)) s)"

lemma error_code_loop:
  assumes "readable GRECP_MSGTYPE_TEARDOWN xs"
  shows "\<exists>e. attr_loop error_code_attribute (message_in key GRECP_MSGTYPE_TEARDOWN tun xs stale) 9 (message_size xs - 9) 0 = Inr e"
proof -
  have size: "length (snd x) < 2 ^ 16 \<and> (if fst x = GRECP_MSGATTR_ERROR_CODE then 4 else 0) \<le> length (snd x)"
    if "x \<in> set xs" for x
    using readableD [OF assms that] by (auto simp: needed_in_def split: if_splits)
  have "\<exists>e'. error_code_meaning.meaning x e = Inr e' \<and> True" if "x \<in> set xs" for x e
    using size [OF that]
    by (auto simp: error_code_meaning.meaning_def error_code_attribute_def standalone_def mem_read_within
        split: if_splits)
  then have "\<exists>e. fold_res error_code_meaning.meaning xs 0 = Inr e \<and> True"
    by (intro fold_res_total) auto
  then show ?thesis using error_code_meaning.loop_meaning [OF size] by simp
qed

lemma main_iteration_teardown:
  assumes "teardown_ok tun xs"
  shows "main_iteration w (Datagram (haap_ip (haap (rt s))) (teardown_datagram (bonding_key (haap (rt s))) tun xs)) (buffer, s) =
    bind_res (execute_timers w (torn_down s)) (\<lambda>s'.
      Inr (receive_into buffer (teardown_datagram (bonding_key (haap (rt s))) tun xs), s'))"
proof -
  let ?key = "bonding_key (haap (rt s))"
  let ?d = "teardown_datagram ?key tun xs"
  have size: "message_size xs = int (length ?d)"
    by (simp add: teardown_datagram_def message_in_def message_size_def)
  then have take: "take MAX_PKT_SIZE ?d = ?d" using assms by (simp add: teardown_ok_def)
  have buf: "receive_into buffer ?d = message_in ?key GRECP_MSGTYPE_TEARDOWN tun xs (drop (length ?d) buffer)"
    unfolding receive_into_def take by (simp add: teardown_datagram_def message_in_def)
  have tun: "tun \<in> {GRECP_TUNTYPE_LTE, GRECP_TUNTYPE_DSL}" and read: "readable GRECP_MSGTYPE_TEARDOWN xs"
    using assms by (simp_all add: teardown_ok_def)
  obtain e where "attr_loop error_code_attribute (receive_into buffer ?d) 9 (message_size xs - 9) 0 = Inr e"
    using error_code_loop [OF read] unfolding buf by blast
  then have "process_grecpmessage w (receive_into buffer ?d) (int (length ?d)) s = Inr (torn_down s)"
    using process_message_in [OF _ tun _ buf, of s w] unfolding size
    by (simp add: handle_grecpteardown_def torn_down_def)
  then show ?thesis unfolding main_iteration_def by (simp add: Let_def take del: length_take)
qed

subsection \<open>What it leaves\<close>

lemma reset_missed_zero:
  assumes "tunnels (rt s) = (False, False)" and "tunnel_interface_created (rt s)"
  shows "missed (rt (reset_dsl (reset_lte s))) = (0, 0)"
  using assms by (simp add: missed_def tunnels_def reset_dsl_def reset_lte_def)

lemma timers_clear_missed:
  assumes "execute_timers w s = Inr s'" and "tunnels (rt s) = (False, False)" and "tunnel_interface_created (rt s)"
  shows "missed (rt s') = (0, 0)"
proof -
  obtain s1 s2 where s1: "update_ips w s = Inr s1"
    and s2: "start_threads w (tunnel_device w (tunnel_sections w s1)) = Inr s2"
    and s': "s' = handle_pending_signal w (after_threads w s2)"
    using execute_timersE [OF assms(1)] .
  define v where "v = verify_tunnel w (ack_filter_list w (connect_tunnels w s1))"
  define b where "b = hello_timer dsl dsl_update GRECP_TUNTYPE_DSL w (hello_timer lte lte_update GRECP_TUNTYPE_LTE w v)"
  define c where "c = bypass_timer w (hello_verification dsl dsl_update (hello_verification lte lte_update b))"
  obtain x where x: "lte (rt v) = (lte (rt s1))\<lparr>tunnel_verification_required := x\<rparr>"
    using verify_tunnel_lte [of w "ack_filter_list w (connect_tunnels w s1)"] by (auto simp: v_def)
  have "tunnels (rt v) = (False, False)"
    using update_ips_session [OF s1] x assms(2) by (auto simp: tunnels_def v_def)
  then have "tunnels (rt c) = (False, False)"
    by (simp add: c_def b_def bypass_tunnels) (simp add: tunnels_def hello_timer_def hello_verification_def)
  moreover have "flag_state (rt c) = flag_state (rt s)"
    using flag_state_update_ips [OF s1] by (simp add: c_def b_def v_def)
  then have "tunnel_interface_created (rt c)"
    using assms(3) by (simp add: flag_state_def device_state_def)
  ultimately have "missed (rt (reset_dsl (reset_lte c))) = (0, 0)" by (rule reset_missed_zero)
  moreover have "missed (rt s') = missed (rt (reset_dsl (reset_lte c)))"
    unfolding s' missed_def session_after_timers [OF s2] by (simp add: tunnel_sections_def c_def b_def v_def)
  ultimately show ?thesis by simp
qed

lemma teardown_round:
  assumes "teardown_ok tun xs" and "good_calls w" and "undisturbed s" and "tunnel_interface_created (rt s)"
    and "key = bonding_key (haap (rt s))"
  obtains b s' where
    "main_iteration w (Datagram (haap_ip (haap (rt s))) (teardown_datagram key tun xs)) (buffer, s) = Inr (b, s')"
    "undisturbed s'" "tunnels (rt s') = (False, False)" "missed (rt s') = (0, 0)"
    "haap (rt s') = forgotten (haap (rt s))"
proof -
  let ?t = "torn_down s"
  have t: "tunnels (rt ?t) = (False, False)" "haap (rt ?t) = haap (rt s)"
    "tunnel_interface_created (rt ?t)" "undisturbed ?t"
    using assms(3,4) by (simp_all add: torn_down_def tunnels_def undisturbed_def wf_sys_def wf_runtime_def)
  obtain s' where ex: "execute_timers w ?t = Inr s'" using good_timers [OF assms(2)] by blast
  show thesis
  proof (rule that)
    show "main_iteration w (Datagram (haap_ip (haap (rt s))) (teardown_datagram key tun xs)) (buffer, s) =
        Inr (receive_into buffer (teardown_datagram key tun xs), s')"
      unfolding assms(5) main_iteration_teardown [OF assms(1)] by (simp add: ex)
    show "undisturbed s'" by (rule timers_undisturbed [OF ex t(4)])
    show down: "tunnels (rt s') = (False, False)" using timers_tunnels [OF ex] t(1) by auto
    show "missed (rt s') = (0, 0)" by (rule timers_clear_missed [OF ex t(1,3)])
    show "haap (rt s') = forgotten (haap (rt s))"
      using timers_haap [OF ex] down by (simp add: t(2) tunnels_def forgotten_def)
  qed
qed

subsection \<open>The session is granted again\<close>

lemma forgotten_idem: "forgotten (forgotten h) = forgotten h"
  by (simp add: forgotten_def)

lemma forgotten_anycast: "anycast_ip (forgotten h) = anycast_ip h"
  by (simp add: forgotten_def)

text \<open>
  C8: A session that the server tears down is granted again without any help. In the round in which the tear down message
  arrives, with the current bonding key, both tunnels go down and key, session number and address of the server are forgotten; when
  the server answers the requests that follow, three rounds later both tunnels are up with the record of the new
  session, and devices and threads are there. The hellos missed in the old session do not count in the new one. This is
  for a bonding process with its devices and without a pending signal, if the system calls in the four rounds
  succeed, the interface table is one that the kernel prints, and more than two missed hellos are allowed.
\<close>

theorem torn_down_session_is_renewed:
  assumes "undisturbed s" and "devices_up s" and "teardown_ok tun xs" and "key = bonding_key (haap (rt s))"
    and "good_calls w" and "good_calls w0" and "good_calls w1" and "good_calls w2"
    and "accept_ok GRECP_TUNTYPE_LTE xs1" and "accept_ok GRECP_TUNTYPE_DSL xs2"
    and "h1 = fold accept_tlv xs1 (forgotten (haap (rt s)))" and "2 < unat (hello_retry_times h1)"
  shows "\<exists>b0 s0 b s'. main_iteration w (Datagram (haap_ip (haap (rt s))) (teardown_datagram key tun xs)) (buffer, s) = Inr (b0, s0) \<and>
    tunnels (rt s0) = (False, False) \<and> haap (rt s0) = forgotten (haap (rt s)) \<and>
    rounds
      [(w0, No_Datagram),
       (w1, Datagram (anycast_ip (haap (rt s))) (accept_datagram k1 GRECP_TUNTYPE_LTE xs1)),
       (w2, Datagram (haap_ip h1) (accept_datagram k2 GRECP_TUNTYPE_DSL xs2))] (b0, s0) = Inr (b, s') \<and>
    tunnels (rt s') = (True, True) \<and> haap (rt s') = fold accept_tlv xs2 h1 \<and> devices_up s' \<and> exited s' = None"
proof -
  have created: "tunnel_interface_created (rt s)" using assms(2) by (simp add: devices_up_def)
  obtain b0 s0 where r: "main_iteration w (Datagram (haap_ip (haap (rt s))) (teardown_datagram key tun xs)) (buffer, s) = Inr (b0, s0)"
    and s0: "undisturbed s0" "tunnels (rt s0) = (False, False)" "missed (rt s0) = (0, 0)"
      "haap (rt s0) = forgotten (haap (rt s))"
    using teardown_round [OF assms(3,5,1) created assms(4)] .
  have "h1 = fold accept_tlv xs1 (forgotten (haap (rt s0)))"
    by (simp add: s0 forgotten_idem assms(11))
  from handshake_rounds [OF s0(1-3) assms(6-10) this assms(12), of k1 k2 b0] r s0
  show ?thesis by (simp add: forgotten_anycast)
qed

text \<open>The session of the earlier example, torn down with error code 1 when two hellos were missed on each tunnel.\<close>

definition running_sys :: sys where
  "running_sys = boot_sys\<lparr>rt := (rt boot_sys)\<lparr>haap := zero_haap\<lparr>bonding_key := 4, hello_retry_times := 3\<rparr>,
     tunnel_interface_created := True, gre2tun_thread := 1, tun2gre_thread := 2,
     lte := zero_lte\<lparr>tunnel_established := True, missed_hellos := 2\<rparr>,
     dsl := zero_dsl\<lparr>tunnel_established := True, missed_hellos := 2\<rparr>\<rparr>, sockfd_gre := 5\<rparr>"

theorem torn_down_session_is_renewed_witness:
  "\<exists>b0 s0 b s'. tunnels (rt running_sys) = (True, True) \<and>
     main_iteration example_env (Datagram in6addr_any (teardown_datagram 4 GRECP_TUNTYPE_LTE [(17, [0, 0, 0, 1])])) ([], running_sys) = Inr (b0, s0) \<and>
     tunnels (rt s0) = (False, False) \<and>
     rounds
      [(example_env, No_Datagram),
       (example_env, Datagram in6addr_any (accept_datagram 0 GRECP_TUNTYPE_LTE accept_example)),
       (example_env, Datagram (replicate 16 5) (accept_datagram 0 GRECP_TUNTYPE_DSL [(255, [])]))] (b0, s0) = Inr (b, s') \<and>
     tunnels (rt s') = (True, True) \<and> devices_up s'"
proof -
  have h: "haap_ip (haap (rt running_sys)) = in6addr_any" "anycast_ip (haap (rt running_sys)) = in6addr_any"
    "bonding_key (haap (rt running_sys)) = 4" "forgotten (haap (rt running_sys)) = (forgotten zero_haap)\<lparr>hello_retry_times := 3\<rparr>"
    by (simp_all add: running_sys_def zero_haap_def forgotten_def)
  have und: "undisturbed running_sys"
    using boot_simps(1) by (simp add: undisturbed_def running_sys_def wf_sys_def wf_runtime_def boot_sys_def
        zero_runtime_def zero_haap_def init_sys_def)
  have up: "devices_up running_sys" "tunnels (rt running_sys) = (True, True)"
    by (simp_all add: running_sys_def devices_up_def tunnels_def boot_sys_def)
  have ok: "teardown_ok GRECP_TUNTYPE_LTE [(17, [0, 0, 0, 1])]"
    by (simp add: teardown_ok_def readable_def needed_in_def message_size_def length_encode_attr)
  let ?h = "fold accept_tlv accept_example (forgotten (haap (rt running_sys)))"
  have "2 < unat (hello_retry_times ?h)" and ip: "haap_ip ?h = replicate 16 5"
    by (simp_all add: h accept_example_def accept_tlv_def Let_def)
  from torn_down_session_is_renewed [OF und up(1) ok h(3) [symmetric] good_example_env good_example_env good_example_env
      good_example_env accept_example_ok refl this(1), of "[]" 0 0] up(2)
  show ?thesis by (auto simp: h(1,2) ip)
qed

end
