(* ===== verification/Stuck.thy ===== *)
theory Stuck
  imports Silence Establishment
begin

text \<open>
  A tunnel that is given up while its device does not exist. The counter of missed hellos is cleared only
  when there is a device, and an accept message does not clear it, so the tunnel is given up again in the
  round in which it is granted.
\<close>

subsection \<open>One round\<close>

text \<open>As many hellos are missed as are allowed, and the LTE tunnel is down or was granted just now.\<close>

definition exhausted :: "runtime \<Rightarrow> bool" where
  "exhausted r \<longleftrightarrow> \<not> tunnel_interface_created r \<and> \<not> tunnel_established (dsl r) \<and>
     hello_retry_times (haap r) \<noteq> 0 \<and> unat (hello_retry_times (haap r)) \<le> unat (missed_hellos (lte r)) \<and>
     (tunnel_established (lte r) \<longrightarrow> last_hello_received (lte r) = last_hello_sent (lte r))"

definition stuck :: "runtime \<Rightarrow> bool" where
  "stuck r \<longleftrightarrow> exhausted r \<and> \<not> tunnel_established (lte r)"

lemma exhausted_hello_round:
  assumes "tunnel_established t \<longrightarrow> last_hello_received t = last_hello_sent t"
    and "unat r \<le> unat (missed_hellos t)"
  shows "\<not> tunnel_established (hello_round i r now stamp t)"
    "missed_hellos (hello_round i r now stamp t) = missed_hellos t"
  using assms by (auto simp: hello_round_def Let_def)

lemma no_device_without_tunnels:
  assumes "execute_timers w s = Inr s'" and "tunnels (rt s') = (False, False)" and "\<not> tunnel_interface_created (rt s)"
  shows "\<not> tunnel_interface_created (rt s')"
proof -
  obtain s1 s2 where s1: "update_ips w s = Inr s1"
    and s2: "start_threads w (tunnel_device w (tunnel_sections w s1)) = Inr s2"
    and s': "s' = handle_pending_signal w (after_threads w s2)"
    using execute_timersE [OF assms(1)] .
  let ?t = "tunnel_sections w s1"
  have "flag_state (rt ?t) = flag_state (rt s)"
    using flag_state_update_ips [OF s1] by simp
  then have c: "\<not> tunnel_interface_created (rt ?t)"
    using assms(3) by (simp add: flag_state_def device_state_def)
  have "tunnels (rt ?t) = (False, False)"
    using assms(2) by (simp add: s' tunnels_def session_after_timers [OF s2])
  with c have "tunnel_device w ?t = ?t" by (simp add: tunnel_device_def tunnels_def)
  with c s2 have "s2 = ?t" by (simp add: start_threads_def)
  moreover have "device_state (rt s') = device_state (rt s2)"
    unfolding s' device_state_signal by (rule device_state_of_flags [OF flag_state_after_threads])
  ultimately show ?thesis using c by (simp add: device_state_def)
qed

lemma exhausted_round:
  assumes "execute_timers w s = Inr s'" and "exhausted (rt s)"
  shows "stuck (rt s')"
proof -
  obtain t k a b where t: "t = hello_round (active_hello_interval (haap (rt s))) (hello_retry_times (haap (rt s)))
        (fst (env_clock w k)) (hello_stamp w (Suc k)) ((lte (rt s))\<lparr>interface_ip := a, tunnel_verification_required := b\<rparr>)"
    and l: "lte (rt s') = (if tunnel_established t \<or> \<not> tunnel_interface_created (rt s) then t
       else t\<lparr>tunnel_established := False, missed_hellos := 0, last_hello_sent := 0,
         last_hello_received := 0, tunnel_verification_required := False\<rparr>)"
    using timers_lte_exact [OF assms(1)] .
  have ex: "\<not> tunnel_interface_created (rt s)" "\<not> tunnel_established (dsl (rt s))" "hello_retry_times (haap (rt s)) \<noteq> 0"
    "unat (hello_retry_times (haap (rt s))) \<le> unat (missed_hellos (lte (rt s)))"
    "tunnel_established (lte (rt s)) \<longrightarrow> last_hello_received (lte (rt s)) = last_hello_sent (lte (rt s))"
    using assms(2) by (simp_all add: exhausted_def)
  have lt: "\<not> tunnel_established t" "missed_hellos t = missed_hellos (lte (rt s))"
    unfolding t using ex(4,5) by (simp_all add: exhausted_hello_round)
  obtain m1 m2 where "tunnels (rt s') = (fst (tunnels (rt s)) \<and> m1 < unat (hello_retry_times (haap (rt s))),
      snd (tunnels (rt s)) \<and> m2 < unat (hello_retry_times (haap (rt s))))"
    using timers_tunnels [OF assms(1)] .
  then have "\<not> tunnel_established (dsl (rt s'))" using ex(2) by (simp add: tunnels_def)
  moreover have "\<not> tunnel_interface_created (rt s')"
    using no_device_without_tunnels [OF assms(1) _ ex(1)] calculation lt(1) ex(1) by (simp add: tunnels_def l)
  ultimately show ?thesis
    using ex lt timers_hello_parameters(2) [OF assms(1)] by (simp add: stuck_def exhausted_def l)
qed

text \<open>The round in which the tunnel is lost.\<close>

lemma lost_round:
  assumes "execute_timers w s = Inr s'" and "tunnel_established (lte (rt s))" and "tunnels (rt s') = (False, False)"
    and "\<not> tunnel_interface_created (rt s)" and "hello_retry_times (haap (rt s)) \<noteq> 0"
  shows "stuck (rt s')"
proof -
  obtain t k a b where t: "t = hello_round (active_hello_interval (haap (rt s))) (hello_retry_times (haap (rt s)))
        (fst (env_clock w k)) (hello_stamp w (Suc k)) ((lte (rt s))\<lparr>interface_ip := a, tunnel_verification_required := b\<rparr>)"
    and l: "lte (rt s') = (if tunnel_established t \<or> \<not> tunnel_interface_created (rt s) then t
       else t\<lparr>tunnel_established := False, missed_hellos := 0, last_hello_sent := 0,
         last_hello_received := 0, tunnel_verification_required := False\<rparr>)"
    using timers_lte_exact [OF assms(1)] .
  have "\<not> tunnel_established t" using assms(3,4) by (simp add: tunnels_def l)
  then have "unat (hello_retry_times (haap (rt s))) \<le> unat (missed_hellos t)"
    using assms(2) by (simp add: t hello_round_def Let_def split: if_splits)
  then show ?thesis
    using assms(3-5) no_device_without_tunnels [OF assms(1,3,4)] timers_hello_parameters(2) [OF assms(1)]
    by (simp add: stuck_def exhausted_def tunnels_def l)
qed

subsection \<open>One message\<close>

interpretation accept_retry: attribute_body accept_attribute "\<lambda>h. hello_retry_times h = r \<and> r \<noteq> 0" 0 for r
proof
  fix h a buf h'
  assume "hello_retry_times h = r \<and> r \<noteq> 0" and "accept_attribute buf a h = Inr h'"
  then show "hello_retry_times h' = r \<and> r \<noteq> 0" by (auto simp: accept_simps split: if_splits)
qed (auto simp: accept_attribute_def Let_def memcpy_u32_def memcpy_into_def)

interpretation notify_exhausted: attribute_body notify_attribute "\<lambda>s. exhausted (rt s)" 4
proof
  fix s a buf s'
  assume "exhausted (rt s)" and "notify_attribute buf a s = Inr s'"
  then show "exhausted (rt s')"
    by (auto simp: notify_attribute_def bind_res_eq_Inr exhausted_def split: if_splits)
qed (rule notify_body.reads_near)

text \<open>The message is neither an answer to a hello nor the grant of the DSL tunnel.\<close>

definition unhelpful :: "bytes \<Rightarrow> bool" where
  "unhelpful buf \<longleftrightarrow> drop_bit 4 (msgtype_and_tuntype buf) \<noteq> GRECP_MSGTYPE_HELLO \<and>
     \<not> (drop_bit 4 (msgtype_and_tuntype buf) = GRECP_MSGTYPE_ACCEPT \<and>
        msgtype_and_tuntype buf AND 0x0f = GRECP_TUNTYPE_DSL)"

lemma accept_exhausted:
  assumes "handle_grecpaccept w GRECP_TUNTYPE_LTE buf p sz s = Inr s'" and "exhausted (rt s)"
  shows "exhausted (rt s')"
proof -
  obtain h where h: "attr_loop accept_attribute buf p sz (haap (rt s)) = Inr h"
    and s': "s' = establish_tunnel w GRECP_TUNTYPE_LTE (set_haap (\<lambda>_. h) s)"
    using assms(1) by (auto simp: handle_grecpaccept_def bind_res_eq_Inr)
  have "hello_retry_times h = hello_retry_times (haap (rt s))"
    using accept_retry.loop_keeps [OF _ h] assms(2) by (auto simp: exhausted_def)
  then show ?thesis using assms(2) by (simp add: s' establish_tunnel_def get_uptime_eq exhausted_def)
qed

lemma process_exhausted:
  assumes "process_grecpmessage w buf sz s = Inr s'" and "exhausted (rt s)" and "unhelpful buf"
  shows "exhausted (rt s')"
proof -
  have teardown: "exhausted (rt s')" if "handle_grecpteardown buf 9 (sz - 9) s = Inr s'"
    using handle_grecpteardown_result [OF that] assms(2) by (simp add: exhausted_def)
  show ?thesis
    using assms notify_exhausted.loop_keeps [OF assms(2)]
    by (auto simp: process_grecpmessage_def unhelpful_def handle_grecpnotify_def Let_def
        intro: accept_exhausted teardown dest: handle_grecpdeny_unchanged split: if_splits)
qed

subsection \<open>Runs of the process\<close>

text \<open>The datagrams of the server in a run, as they lie in the receive array of the main loop.\<close>

fun server_message :: "event \<Rightarrow> process \<Rightarrow> bytes option" where
  "server_message (Control w (Datagram src data)) p =
     (if src = haap_ip (haap (rt (proc p))) then Some (receive_into (main_buffer p) data) else None)"
| "server_message (Control w No_Datagram) p = None"
| "server_message (Signal sig) p = None"
| "server_message (Download inp stamp now) p = None"
| "server_message (Upload w data) p = None"

fun server_messages :: "process \<Rightarrow> event list \<Rightarrow> bytes list" where
  "server_messages p [] = []"
| "server_messages p (e # es) =
     (case server_message e p of None \<Rightarrow> [] | Some m \<Rightarrow> [m]) @
     (case process_step e p of Inl f \<Rightarrow> [] | Inr q \<Rightarrow> server_messages q es)"

lemma stuck_step:
  assumes "process_step e p = Inr q" and "stuck (rt (proc p))"
    and "\<And>m. server_message e p = Some m \<Longrightarrow> unhelpful m"
  shows "stuck (rt (proc q))"
proof (cases "controls [e] = []")
  case True
  obtain f where "rt (proc q) = signal_update f (rt (proc p))" using other_events [OF assms(1) True] ..
  with assms(2) show ?thesis by (simp add: stuck_def exhausted_def)
next
  case False
  then obtain w inp where e: "e = Control w inp" by (cases e) auto
  have ex: "exhausted (rt (proc p))" using assms(2) by (simp add: stuck_def)
  have "main_iteration w inp (main_buffer p, proc p) = Inr (main_buffer q, proc q)"
    using assms(1) by (auto simp: e bind_res_eq_Inr)
  then show ?thesis
  proof (cases rule: main_iterationE)
    case 1
    show ?thesis by (rule exhausted_round [OF 1(2) ex])
  next
    case (2 src data s1)
    with assms(3) have "unhelpful (main_buffer q)" by (simp add: e)
    then have "exhausted (rt s1)" by (rule process_exhausted [OF 2(4) ex])
    then show ?thesis by (rule exhausted_round [OF 2(5)])
  qed
qed

lemma stuck_run:
  assumes "steps p es q" and "stuck (rt (proc p))" and "\<forall>m \<in> set (server_messages p es). unhelpful m"
  shows "stuck (rt (proc q))"
  using assms
proof (induction rule: steps.induct)
  case (steps_step p e q es r)
  have "stuck (rt (proc q))"
    by (rule stuck_step [OF steps_step(2,5)]) (use steps_step(6) in auto)
  then show ?case by (rule steps_step.IH) (use steps_step(2,6) in auto)
qed

text \<open>
  C17: A tunnel that is given up while its device could not be created stays lost as long as the server sends no hello and
  grants no DSL tunnel. The counter of missed hellos is
  cleared only by a hello or when a device exists, and an accept message leaves it as it is. So after a round in which the last tunnel, the
  LTE tunnel, is given up without a device, every grant of it is taken back in its own round and no device is
  created, in every such run. (The server only echoes hellos, and none is sent while no tunnel is up; but the
  losing round may have sent one, and its late echo, which is excluded here, clears the counter.)
\<close>

theorem lost_without_device_stays_lost:
  assumes "execute_timers w s = Inr (proc p)" and "tunnel_established (lte (rt s))"
    and "tunnels (rt (proc p)) = (False, False)" and "\<not> tunnel_interface_created (rt s)"
    and "hello_retry_times (haap (rt s)) \<noteq> 0"
    and "steps p es q" and "\<forall>m \<in> set (server_messages p es). unhelpful m"
  shows "tunnels (rt (proc q)) = (False, False) \<and> \<not> tunnel_interface_created (rt (proc q))"
  using stuck_run [OF assms(6) lost_round [OF assms(1-5)] assms(7)]
  by (simp add: stuck_def exhausted_def tunnels_def)

text \<open>Three hellos are missed and three are allowed. The tunnel is given up, and granted again in the round that follows.\<close>

definition losing_sys :: sys where
  "losing_sys = boot_sys\<lparr>rt := (rt boot_sys)\<lparr>haap := zero_haap\<lparr>hello_retry_times := 3\<rparr>,
     lte := zero_lte\<lparr>tunnel_established := True, missed_hellos := 3\<rparr>\<rparr>\<rparr>"

definition grant_events :: "event list" where
  "grant_events = [Control example_env (Datagram in6addr_any (accept_datagram 0 GRECP_TUNTYPE_LTE accept_example)),
     Control example_env No_Datagram]"

lemma losing_sys:
  "undisturbed losing_sys" "exhausted (rt losing_sys)" "tunnel_established (lte (rt losing_sys))"
  "\<not> tunnel_interface_created (rt losing_sys)" "hello_retry_times (haap (rt losing_sys)) \<noteq> 0"
  "haap_ip (haap (rt losing_sys)) = in6addr_any" "anycast_ip (haap (rt losing_sys)) = in6addr_any"
  using boot_simps(1)
  by (simp_all add: undisturbed_def losing_sys_def wf_sys_def wf_runtime_def boot_sys_def exhausted_def
      zero_runtime_def zero_haap_def zero_lte_def zero_dsl_def init_sys_def)

lemma grant_events_run:
  assumes "undisturbed s" and "haap_ip (haap (rt s)) = in6addr_any"
  obtains q where "steps (initial [] [] [] zero_rest s) grant_events q"
    "\<forall>m \<in> set (server_messages (initial [] [] [] zero_rest s) grant_events). unhelpful m"
proof -
  let ?p = "initial [] [] [] zero_rest s" and ?d = "accept_datagram 0 GRECP_TUNTYPE_LTE accept_example"
  define t where "t = establish_tunnel example_env GRECP_TUNTYPE_LTE (set_haap (fold accept_tlv accept_example) s)"
  obtain s1 where s1: "execute_timers example_env t = Inr s1" using good_timers [OF good_example_env] by blast
  obtain s2 where s2: "execute_timers example_env s1 = Inr s2" using good_timers [OF good_example_env] by blast
  have wf: "wf_sys s" and ex: "exited s = None" using assms(1) by (simp_all add: undisturbed_def)
  have "length (haap_ip (fold accept_tlv accept_example (haap (rt s)))) = 16"
    using fold_accept_ip [of accept_example "haap (rt s)"] accept_example_ok(1) wf
    by (simp add: accept_ok_def wf_sys_def wf_runtime_def)
  moreover have "anycast_ip (fold accept_tlv accept_example (haap (rt s))) = anycast_ip (haap (rt s))"
    by (rule fold_accept_anycast)
  ultimately have "undisturbed t"
    using assms(1) by (simp add: t_def establish_tunnel_def get_uptime_eq undisturbed_def wf_sys_def wf_runtime_def)
  then have ex1: "exited s1 = None" using timers_undisturbed [OF s1] by (simp add: undisturbed_def)
  let ?p1 = "?p\<lparr>main_buffer := receive_into [] ?d, proc := s1\<rparr>"
  have 1: "process_step (Control example_env (Datagram in6addr_any ?d)) ?p = Inr ?p1"
    using main_iteration_accept [OF accept_example_ok(1) wf, of example_env 0 "[]"]
    by (simp add: initial_def assms(2) t_def [symmetric] s1)
  have 2: "process_step (Control example_env No_Datagram) ?p1 = Inr (?p1\<lparr>proc := s2\<rparr>)"
    by (simp add: main_iteration_def s2)
  have run: "steps ?p grant_events (?p1\<lparr>proc := s2\<rparr>)"
    using 1 2 ex ex1 by (simp add: grant_events_def steps_Cons steps_Nil initial_def del: process_step.simps)
  have "length ?d \<le> MAX_PKT_SIZE"
    using accept_example_ok(1) by (simp add: accept_ok_def accept_datagram_def message_in_def message_size_def)
  then have "receive_into [] ?d = ?d" by (simp add: receive_into_def)
  moreover have "unhelpful ?d"
    using type_nibbles [of GRECP_MSGTYPE_ACCEPT GRECP_TUNTYPE_LTE]
    by (simp add: unhelpful_def accept_datagram_def message_in_fields)
  moreover have "server_messages ?p grant_events = [receive_into [] ?d]"
    using 1 2 by (simp add: grant_events_def initial_def assms(2) del: process_step.simps)
  ultimately show thesis using that [OF run] by simp
qed

theorem lost_without_device_stays_lost_witness:
  "\<exists>s q. execute_timers example_env losing_sys = Inr s \<and> steps (initial [] [] [] zero_rest s) grant_events q \<and>
     tunnels (rt (proc q)) = (False, False)"
proof -
  obtain s where s: "execute_timers example_env losing_sys = Inr s" using good_timers [OF good_example_env] by blast
  have down: "tunnels (rt s) = (False, False)"
    using exhausted_round [OF s losing_sys(2)] by (simp add: stuck_def exhausted_def tunnels_def)
  then have "haap_ip (haap (rt s)) = in6addr_any"
    using timers_haap [OF s] by (simp add: tunnels_def losing_sys(7))
  then obtain q where q: "steps (initial [] [] [] zero_rest s) grant_events q"
    "\<forall>m \<in> set (server_messages (initial [] [] [] zero_rest s) grant_events). unhelpful m"
    using grant_events_run [OF timers_undisturbed [OF s losing_sys(1)]] by blast
  have p: "proc (initial [] [] [] zero_rest s) = s" by (simp add: initial_def)
  from lost_without_device_stays_lost [of example_env losing_sys "initial [] [] [] zero_rest s", unfolded p, OF s losing_sys(3) down losing_sys(4,5) q]
  show ?thesis using s q(1) by blast
qed

end
