(* ===== verification/Config_Files.thy ===== *)
theory Config_Files
  imports Config "HOL-Library.Multiset"
begin

text \<open>
  What a configuration file means: the settings a user can write, the lines they are written as, and
  their effects. \<open>read_config\<close> reads a file as the list of its settings, in whatever order and
  between whatever comments they stand.
\<close>

subsection \<open>Settings\<close>

datatype item =
    Haap_Anycast_Ip string
  | Lte_Interface string
  | Dsl_Interface string
  | Tunnel_Interface string
  | Bonding bool
  | Log_Level nat
  | Tunnel_Interface_Mtu nat
  | Active_Hello_Interval nat
  | Hello_Retry_Times nat
  | Event_Script_Path string
  | Reorder_Buffer_Timeout nat

definition log_level_names :: "string list" where
  "log_level_names = [''none'', ''critical'', ''error'', ''warning'', ''info'', ''debug'', ''crazydebug'']"

fun item_key :: "item \<Rightarrow> string" where
  "item_key (Haap_Anycast_Ip v) = ''haap anycast ip''"
| "item_key (Lte_Interface v) = ''lte interface''"
| "item_key (Dsl_Interface v) = ''dsl interface''"
| "item_key (Tunnel_Interface v) = ''tunnel interface''"
| "item_key (Bonding b) = ''bonding''"
| "item_key (Log_Level n) = ''log level''"
| "item_key (Tunnel_Interface_Mtu n) = ''tunnel interface mtu''"
| "item_key (Active_Hello_Interval n) = ''active hello interval''"
| "item_key (Hello_Retry_Times n) = ''hello retry times''"
| "item_key (Event_Script_Path v) = ''event script path''"
| "item_key (Reorder_Buffer_Timeout n) = ''reorder buffer timeout''"

fun item_value :: "item \<Rightarrow> string" where
  "item_value (Haap_Anycast_Ip v) = v"
| "item_value (Lte_Interface v) = v"
| "item_value (Dsl_Interface v) = v"
| "item_value (Tunnel_Interface v) = v"
| "item_value (Bonding b) = (if b then ''true'' else ''false'')"
| "item_value (Log_Level n) = log_level_names ! n"
| "item_value (Tunnel_Interface_Mtu n) = dec n"
| "item_value (Active_Hello_Interval n) = dec n"
| "item_value (Hello_Retry_Times n) = dec n"
| "item_value (Event_Script_Path v) = v"
| "item_value (Reorder_Buffer_Timeout n) = dec n"

definition item_line :: "item \<Rightarrow> string" where
  "item_line i = item_key i @ '' = '' @ item_value i"

text \<open>A bonding flag can only be set, the time-out is given in milliseconds.\<close>

fun item_effect :: "item \<Rightarrow> runtime \<Rightarrow> runtime" where
  "item_effect (Haap_Anycast_Ip v) r = haap_update (anycast_ip_update (\<lambda>_. the (inet_pton6 v))) r"
| "item_effect (Lte_Interface v) r = lte_update (interface_name_update (\<lambda>_. v)) r"
| "item_effect (Dsl_Interface v) r = dsl_update (interface_name_update (\<lambda>_. v)) r"
| "item_effect (Tunnel_Interface v) r = r\<lparr>tunnel_interface_name := v\<rparr>"
| "item_effect (Bonding b) r = (if b then r\<lparr>bonding := True\<rparr> else r)"
| "item_effect (Log_Level n) r = r\<lparr>log_level := of_nat n\<rparr>"
| "item_effect (Tunnel_Interface_Mtu n) r = r\<lparr>tunnel_interface_mtu := of_nat n\<rparr>"
| "item_effect (Active_Hello_Interval n) r = haap_update (active_hello_interval_update (\<lambda>_. of_nat n)) r"
| "item_effect (Hello_Retry_Times n) r = haap_update (hello_retry_times_update (\<lambda>_. of_nat n)) r"
| "item_effect (Event_Script_Path v) r = r\<lparr>event_script_path := v\<rparr>"
| "item_effect (Reorder_Buffer_Timeout n) r =
     r\<lparr>reorder_buffer_timeout := Timeval (int n div 1000) (int n mod 1000 * 1000)\<rparr>"

definition clean :: "string \<Rightarrow> bool" where
  "clean v \<longleftrightarrow> CHR 0x0A \<notin> set v \<and> CHR 0x00 \<notin> set v"

fun item_ok :: "item \<Rightarrow> bool" where
  "item_ok (Haap_Anycast_Ip v) \<longleftrightarrow> clean v \<and> v \<noteq> [] \<and> inet_pton6 v \<noteq> None"
| "item_ok (Lte_Interface v) \<longleftrightarrow> clean v \<and> v \<noteq> [] \<and> length v < IF_NAMESIZE - 1"
| "item_ok (Dsl_Interface v) \<longleftrightarrow> clean v \<and> v \<noteq> [] \<and> length v < IF_NAMESIZE - 1"
| "item_ok (Tunnel_Interface v) \<longleftrightarrow> clean v \<and> v \<noteq> [] \<and> length v < IF_NAMESIZE - 1"
| "item_ok (Bonding b) \<longleftrightarrow> True"
| "item_ok (Log_Level n) \<longleftrightarrow> n < length log_level_names"
| "item_ok (Tunnel_Interface_Mtu n) \<longleftrightarrow> 1280 \<le> n \<and> n \<le> 1448"
| "item_ok (Active_Hello_Interval n) \<longleftrightarrow> n < 2 ^ 31"
| "item_ok (Hello_Retry_Times n) \<longleftrightarrow> n < 2 ^ 31"
| "item_ok (Event_Script_Path v) \<longleftrightarrow> clean v \<and> v \<noteq> [] \<and> length v \<le> 128"
| "item_ok (Reorder_Buffer_Timeout n) \<longleftrightarrow> n < 2 ^ 31"

subsection \<open>One line\<close>

lemma clean_append [simp]: "clean (u @ v) \<longleftrightarrow> clean u \<and> clean v"
  by (auto simp: clean_def)

lemma hex_char_clean: "d < 10 \<Longrightarrow> clean [hex_char d]"
proof -
  assume "d < 10"
  then have "(of_char (hex_char d) :: nat) = 48 + d" by (simp add: hex_char_def)
  then have "hex_char d \<noteq> CHR 0x0A" "hex_char d \<noteq> CHR 0x00" by auto
  then show ?thesis by (auto simp: clean_def)
qed

lemma dec_clean: "clean (dec n)"
proof (induction n rule: dec.induct)
  case (1 n)
  then show ?case
    using hex_char_clean [of n] hex_char_clean [of "n mod 10"] by (cases "n < 10") (auto simp: dec.simps [of n])
qed

lemma log_level_cases:
  assumes "n < length log_level_names"
  shows "n \<in> {0, 1, 2, 3, 4, 5, 6}"
  using assms by (auto simp: log_level_names_def)

lemma item_value_ok:
  assumes "item_ok i"
  shows "clean (item_value i) \<and> item_value i \<noteq> []"
proof (cases i)
  case (Log_Level n)
  with log_level_cases [of n] assms show ?thesis by (auto simp: log_level_names_def clean_def)
next
  case (Bonding b)
  then show ?thesis by (simp add: clean_def)
qed (use assms dec_clean in auto)

lemma item_key_ok: "clean (item_key i)" "CHR ''='' \<notin> set (item_key i)" "item_key i \<noteq> []" "hd (item_key i) \<noteq> CHR ''#''"
  by (cases i; simp add: clean_def)+

lemma strstr_item_line: "strstr_eq (item_line i) = ''= '' @ item_value i"
proof -
  have "strstr_eq (item_line i) = dropWhile (\<lambda>c. c \<noteq> CHR ''='') ('' = '' @ item_value i)"
    unfolding strstr_eq_def item_line_def using item_key_ok(2) [of i] by (intro dropWhile_append2) auto
  then show ?thesis by simp
qed

lemma config_line_setting:
  assumes "item_ok i"
  shows "config_line (item_line i) r = setting (item_line i) (item_value i) r"
proof -
  note v = item_value_ok [OF assms] and k = item_key_ok [of i]
  have "clean (item_line i)" using v k by (simp add: item_line_def) (simp add: clean_def)
  then have c: "c_string (item_line i) = item_line i"
    by (auto simp: c_string_def clean_def takeWhile_eq_all_conv)
  have h: "\<not> (item_line i \<noteq> [] \<and> hd (item_line i) = CHR ''#'')"
    using k(3,4) by (cases "item_key i") (auto simp: item_line_def)
  have "length (''= '' @ item_value i) > 2" using v by (simp add: length_greater_0_conv)
  then show ?thesis unfolding config_line_def c Let_def strstr_item_line using h by auto
qed

lemma int_sdiv: "int n sdiv 1000 = int n div 1000" "int n smod 1000 = int n mod 1000"
  by (cases "n = 0"; simp add: signed_divide_int_def signed_modulo_int_def minus_div_mult_eq_mod [symmetric])+

lemma atoi_dec_all: "n < 2 ^ 31 \<Longrightarrow> atoi (dec n) = int n"
  using atoi_dec [of n "[]"] by simp

lemma log_level_of_name:
  "n < length log_level_names \<Longrightarrow> log_level_of (log_level_names ! n) l = of_nat n"
  using log_level_cases [of n] by (auto simp: log_level_names_def log_level_of_def)

lemma setting_item:
  assumes "item_ok i"
  shows "setting (item_line i) (item_value i) r = Inr (item_effect i r)"
  using assms
  by (cases i) (auto simp: setting_def item_line_def has_prefix_def set_interface_name_def set_mtu_def
      set_event_script_path_def atoi_dec_all int_sdiv log_level_of_name split: option.split)

lemma config_line_item: "item_ok i \<Longrightarrow> config_line (item_line i) r = Inr (item_effect i r)"
  by (simp add: config_line_setting setting_item)

subsection \<open>The whole file\<close>

definition file_text :: "string list \<Rightarrow> string" where
  "file_text lines = concat (map (\<lambda>l. l @ [CHR 0x0A]) lines)"

lemma getlines_append: "CHR 0x0A \<notin> set l \<Longrightarrow> getlines acc (l @ CHR 0x0A # rest) = (acc @ l) # getlines [] rest"
  by (induction l arbitrary: acc) auto

lemma getlines_file_text: "\<forall>l \<in> set lines. CHR 0x0A \<notin> set l \<Longrightarrow> getlines [] (file_text lines) = lines"
  by (induction lines) (simp_all add: file_text_def getlines_append)

lemma item_line_not_comment: "\<not> comment_or_blank (item_line i)"
  using item_key_ok(3,4) [of i] by (cases "item_key i") (auto simp: comment_or_blank_def item_line_def)

lemma config_lines:
  assumes "filter (\<lambda>l. \<not> comment_or_blank l) lines = map item_line items" and "list_all item_ok items"
  shows "fold_res config_line lines r = Inr (fold item_effect items r)"
  using assms
proof (induction lines arbitrary: items r)
  case (Cons l lines)
  show ?case
  proof (cases "comment_or_blank l")
    case True
    then show ?thesis using Cons by (simp add: config_line_comment)
  next
    case False
    with Cons.prems obtain i js where "items = i # js" "l = item_line i"
      "filter (\<lambda>l. \<not> comment_or_blank l) lines = map item_line js"
      by (cases items) auto
    with Cons show ?thesis by (simp add: config_line_item)
  qed
qed simp

lemma effects_commute:
  assumes "item_key i \<noteq> item_key j"
  shows "item_effect i \<circ> item_effect j = item_effect j \<circ> item_effect i"
proof (rule ext)
  fix r
  show "(item_effect i \<circ> item_effect j) r = (item_effect j \<circ> item_effect i) r"
    using assms by (cases i; cases j; simp)
qed

lemma effects_order:
  assumes "mset items = mset items'" and "distinct (map item_key items)"
  shows "fold item_effect items = fold item_effect items'"
proof (rule fold_multiset_equiv [OF _ assms(1)])
  fix i j assume "i \<in> set items" "j \<in> set items"
  with assms(2) have "i = j \<or> item_key i \<noteq> item_key j"
    by (auto simp: distinct_map inj_on_def)
  then show "item_effect i \<circ> item_effect j = item_effect j \<circ> item_effect i"
    using effects_commute by blast
qed

text \<open>C18: A configuration file means its settings. If the lines of the file are comments, blank lines and one line for
  each of some valid settings, then reading it has the effects of exactly these settings
  between the two rounds of defaults, in whatever order the lines stand.\<close>

theorem config_file_means_its_settings:
  assumes "filter (\<lambda>l. \<not> comment_or_blank l) lines = map item_line written" and "mset written = mset items"
    and "\<forall>l \<in> set lines. CHR 0x0A \<notin> set l"
    and "list_all item_ok items" and "distinct (map item_key items)"
  shows "read_config_text (file_text lines) r = Inr (defaults_after (fold item_effect items (defaults_before r)))"
proof -
  have "list_all item_ok written" using assms(4) mset_eq_setD [OF assms(2)] by (simp add: list_all_iff)
  then have "fold_res config_line lines (defaults_before r) = Inr (fold item_effect written (defaults_before r))"
    by (rule config_lines [OF assms(1)])
  moreover have "fold item_effect items = fold item_effect written"
    using assms(2,5) by (intro effects_order) simp_all
  ultimately show ?thesis by (simp add: read_config_text_def getlines_file_text [OF assms(3)])
qed

definition file_example :: "string list" where
  "file_example = [''# reorder'', ''reorder buffer timeout = 1500'', [], ''lte interface = wwan1'', ''bonding = true'',
     ''tunnel interface mtu = 1400'']"

theorem config_file_means_its_settings_witness:
  "\<exists>r. read_config_text (file_text file_example) zero_runtime = Inr r \<and> bonding r \<and> interface_name (lte r) = ''wwan1'' \<and>
     tunnel_interface_mtu r = 1400 \<and> reorder_buffer_timeout r = Timeval 1 500000 \<and> tunnel_interface_name r = ''tun0''"
proof -
  let ?items = "[Bonding True, Tunnel_Interface_Mtu 1400, Lte_Interface ''wwan1'', Reorder_Buffer_Timeout 1500]"
  let ?written = "[Reorder_Buffer_Timeout 1500, Lte_Interface ''wwan1'', Bonding True, Tunnel_Interface_Mtu 1400]"
  have num: "dec 1500 = ''1500''" "dec 1400 = ''1400''" by code_simp+
  have "filter (\<lambda>l. \<not> comment_or_blank l) file_example = map item_line ?written"
    by (simp add: file_example_def comment_or_blank_def item_line_def num)
  moreover have "mset ?written = mset ?items" by simp
  moreover have "\<forall>l \<in> set file_example. CHR 0x0A \<notin> set l" by (simp add: file_example_def)
  moreover have "list_all item_ok ?items" "distinct (map item_key ?items)" by (simp_all add: clean_def)
  ultimately have "read_config_text (file_text file_example) zero_runtime =
      Inr (defaults_after (fold item_effect ?items (defaults_before zero_runtime)))"
    by (rule config_file_means_its_settings)
  then show ?thesis
    by (simp add: defaults_after_def defaults_before_def zero_runtime_def Let_def)
qed

end
