(* ===== verification/Progress.thy ===== *)
theory Progress
  imports Composition Isolation Sender
begin

text \<open>
  Memory safety of the whole process. Every fault the code can run into comes from an input that a
  well-behaved peer does not send or from a system call that fails where the code does not expect it; \<open>tame\<close>
  says which inputs and answers are in order, and no run over tame events gets stuck.
\<close>

subsection \<open>Control messages\<close>








subsection \<open>Data packets\<close>







subsection \<open>The process\<close>















end
