(* ===== verification/Spec2Isabelle.thy ===== *)
theory Spec2Isabelle
  imports Uploads Latency Logging Automaton Leases Renewal Stuck Config_Files Progress
begin

text \<open>
  A verification development for OpenHybrid, the client of a GRE tunnel bonding protocol (RFC 8157) with an
  LTE and a DSL tunnel to one aggregation point. The program is the C code under \<open>src/src/\<close>; every file of
  it is modelled.

  \<^bold>\<open>The program.\<close> \<open>main\<close> (\<open>openhybrid.c\<close>) reads a configuration, opens a raw socket for control messages and
  loops: receive one datagram with a time-out of a second, hand it to \<open>process_grecpmessage\<close> (\<open>grecp.c\<close>) if
  it comes from the server, run \<open>execute_timers\<close>. The message handlers and the timers share the global
  structure \<open>runtime\<close>. The timers send requests and hellos, give up silent tunnels, reset the session,
  create and destroy the tunnel device (\<open>tundev.c\<close>), run the DHCP clients (\<open>dhcp.c\<close>), start event scripts
  (\<open>event.c\<close>) and handle signals. With bonding, two threads carry the data packets: \<open>gre2tun_main\<close> writes
  them to the tun device in the order of their sequence numbers (\<open>gre2tun.c\<close>), \<open>tun2gre_main\<close> numbers and
  sends them (\<open>tun2gre.c\<close>).

  \<^bold>\<open>State and environment.\<close> \<open>Prelude\<close> has the machine integers, the result type with the faults of C as
  values (\<open>Out_Of_Bounds_Read\<close>, \<open>Buffer_Overflow\<close>, \<open>Double_Free\<close>, and \<open>Fatal_Exit\<close> for \<open>logger(LOG_FATAL)\<close>),
  memory regions and \<open>struct timeval\<close>. \<open>Runtime\<close> has \<open>struct runtime\<close> as nested records, the descriptors and
  the list of effects so far in the record \<open>sys\<close>. Everything that comes from outside is an argument: an
  \<open>env\<close> answers the calls by their number (clock, success, integers, the status of a child, text read, the output
  of a DHCP client), and no answer is related to
  another one unless a theorem says so. A fault stops the model: what C does after it is undefined.

  \<^bold>\<open>Theories and the code they model.\<close>
  \<^item> \<open>Attributes\<close>, \<open>Sending\<close>: attribute codec and every message the client sends (\<open>grecp.c\<close>,
    \<open>grecp_request.c\<close>, sending parts of \<open>grecp_hello.c\<close> and \<open>grecp_notify.c\<close>).
  \<^item> \<open>Handlers\<close>, \<open>Dispatch\<close>, \<open>Attribute_Meaning\<close>: \<open>process_grecpmessage\<close> and the handlers (\<open>grecp_accept.c\<close>,
    \<open>grecp_deny.c\<close>, \<open>grecp_hello.c\<close>, \<open>grecp_teardown.c\<close>, \<open>grecp_notify.c\<close>). The receive buffer is the whole
    array of \<open>main\<close>, so reads behind the packet see older bytes.
  \<^item> \<open>Reorder\<close>, \<open>Resequencing\<close>, \<open>Delivery\<close>, \<open>Receiver\<close>: the loop of \<open>gre2tun_main\<close> with its reorder buffer,
    the abstract resequencer it refines, and runs over packets.
  \<^item> \<open>Tun2gre\<close>, \<open>Sender\<close>: the loop of \<open>tun2gre_main\<close>; \<open>Channel\<close>: both ends of the tunnel; \<open>Threads\<close>: the
    prologue of both threads, which sets their names and is run with their first turn.
  \<^item> \<open>Text\<close>, \<open>Addresses\<close>: the functions of the C library the program calls on strings (\<open>atoi\<close>, \<open>inet_pton\<close>,
    \<open>inet_ntop\<close>, number formats), as glibc implements them.
  \<^item> \<open>Event\<close>, \<open>Dhcp\<close>, \<open>Helpers\<close>, \<open>Packet_Filter\<close>, \<open>Tundev\<close>, \<open>Config\<close>, \<open>Logging\<close>: the C files of these names;
    \<open>Packet_Filter\<close> has the two socket filters of \<open>tundev.c\<close> and \<open>openhybrid.c\<close> with an interpreter for
    their instructions.
  \<^item> \<open>Timers\<close>: \<open>execute_timers\<close>, one definition per section in the order of the source. \<open>Timer_Invariants\<close>:
    what the timers keep. \<open>Sessions\<close>: tunnels and session in one round. \<open>Devices\<close>: which sections make
    devices. \<open>Rounds\<close>: the properties of rounds.
  \<^item> \<open>Messages\<close>, \<open>Main_Loop\<close>: what a message can change; \<open>main\<close>, the signal handler, and the process as a
    transition system whose events are one turn of the main loop, of one of the threads, or a signal.
    \<open>Tunnels\<close>: what a message says about the two tunnels. \<open>Automaton\<close>: the abstract automaton of the tunnels
    and their hellos, and its refinement by the process. \<open>Leases\<close>: the IPv4 lease in a round of the timers.
  \<^item> \<open>Losses\<close>: the receiving thread when packets are lost or late and the line falls silent. \<open>Promptness\<close>: its runs
    in which no packet waits for a whole time-out, however long they are. \<open>Composition\<close>:
    the receiving thread inside the whole process. \<open>Latency\<close>: how long a packet waits. \<open>Uploads\<close>: the
    sending thread there, and two processes end to end. \<open>Isolation\<close>: what other hosts send. \<open>Establishment\<close>:
    messages that bring the session up. \<open>Silence\<close>: how a silent server is given up. \<open>Renewal\<close>: a session
    that is torn down and granted again. \<open>Stuck\<close>: a tunnel that is lost while it has no device. \<open>Progress\<close>:
    runs without a fault. \<open>Config_Files\<close>: files as lists of settings.

  \<^bold>\<open>Interfaces.\<close> \<open>tunnel_slot\<close> and \<open>tunnel_pair\<close> (the two nested tunnel structures), extended by
  \<open>hello_slot\<close> (hellos of one tunnel); \<open>attribute_body\<close> (a loop body towards the attribute loop);
  \<open>attribute_reader\<close> (a loop body that looks at one attribute, towards the meaning of a message);
  \<open>resequencing\<close> (a receiver that puts packets in order); \<open>effect_observer\<close> (who only looks at some
  effects); \<open>monitored_tunnel\<close> (the hellos of a tunnel towards runs of the process); \<open>releasing_turns\<close> (one
  turn of a receiver as one release, also of late packets); \<open>local_body\<close> (a loop body that reads only what
  belongs to its attribute); \<open>late_invariant\<close>, \<open>timer_invariant\<close> and \<open>loop_invariant\<close> (an invariant towards
  the later sections, all timers, and the whole main loop). Each is interpreted on the definitions of the
  code, and the properties rest on these interpretations.

  \<^bold>\<open>What is shown.\<close>
  \<^item> Data path: packets that are permuted on the way are handed to the tun device in the order they were sent, if none
    is lost or doubled, the first one comes first and none has to wait for the whole time-out: by the receiver
    alone, in every run of the whole process, and end to end between two processes, over any length of time. Under losses what
    is written still increases, and a packet that is in time is written within the time-out; the receiver
    refines an abstract resequencer, and a turn that looks at the buffer leaves nothing in it that is old; in every run the data packets sent
    are the uploads that were carried, numbered one after the other. Failures of the code under loss of the
    first packet, duplicates, short and long packets are stated exactly. What the model lists as output are the bytes handed to
    \<open>write\<close>; a failed \<open>write\<close> is only logged by the code and changes nothing else.
  \<^item> Control path: a well-formed accept message is the fold of its attributes; attributes that a handler does
    not know do not matter; messages without the right key or flags change nothing; reads stay inside the
    array; an accept message is taken, attribute by attribute, exactly when each fits its field; sent messages read back as what was
    meant; echoed hellos count; datagrams of other hosts can be taken out of any run without a visible change, as long as those of
    the server are complete.
  \<^item> Timers: a round comes to an end; in every run of the process a silent server is given up when the silence has
    lasted as many hello intervals as hellos may be missed, and one more, plus the pace of the loop, if at most 255 may; a session
    ends with its tunnels; a lease lives as long as it was granted for; the missing
    tunnel is asked for by one request, and when the two requests are answered and the system calls succeed both tunnels and all devices
    exist after three rounds, also after an earlier session was torn down; a tunnel that is lost without a
    device stays lost as long as no hello is echoed; signals end the process with its cleanup.
  \<^item> The process: a run in which the server, the kernel and the tun device behave has no fault and goes on
    until a signal ends it; its turns are the transitions of an abstract automaton of the two tunnels and their hellos, which
    determines them from the datagram and the clock; in all
    reachable states sizes, names, MTU and buffers are in bounds; the data socket keeps the filter of the
    first session.
  \<^item> Text: configuration files establish the invariant, and a file of valid settings means these settings;
    lease reports and the interface table of the kernel are read back; environment strings fit; the
    hexadecimal dump equals a row-wise definition.

  \<^bold>\<open>Loops and termination.\<close> All loops of the source that end are total functions: the attribute loop by the
  bytes left, the restart of the reorder flush by unfreed packets and the distance to the next timed-out
  one, the scan of the interface table by the text left, the padding of a dump by the columns left. There is
  no fuel. The three endless loops are modelled by one turn each.

  \<^bold>\<open>Bounds of the model.\<close> The host is little-endian LP64; \<open>time_t\<close> is an integer without bound, every
  conversion to 32 bits is written out. Allocation succeeds. Threads and main loop interleave turn by turn;
  data races inside a turn and thread cancellation inside a turn are not modelled, a signal is delivered
  between turns. The output of \<open>logger\<close> is modelled in \<open>Logging\<close> and left out elsewhere, except that
  \<open>LOG_FATAL\<close> ends the process. Netlink requests are effects with their type, flags and the tree of their
  attributes, ioctl requests with their number and what they set; the layout that libmnl and the kernel's
  headers give them in memory is not modelled. Not modelled either: prototypes and the build file (no
  behaviour), and the scripts, patches and captures of the repository (not part of the program).
\<close>

end
